(* ===== verification/Prelude.thy ===== *)
theory Prelude
  imports Main "HOL-Library.Word" "HOL-Library.AList" "HOL-Library.Multiset"
begin

section \<open>Shared vocabulary of the dBFT model\<close>

text \<open>
  What every component of the model uses: Go's machine integers, the ways a Go statement can
  fail to return (\<open>stop\<close>), sequencing of state-changing statements (\<open>steps\<close>, \<open>forEach\<close>),
  slices of optional payloads (\<open>slot\<close>), signed 64-bit durations, byte order, and the named
  collections of simplification and introduction rules.
\<close>

named_theorems no_fuel \<open>statements that never exhaust the nesting bound\<close>

subsection \<open>Machine integers and time\<close>

type_synonym u8 = "8 word"
type_synonym u16 = "16 word"
type_synonym u32 = "32 word"
type_synonym u64 = "64 word"
type_synonym byte = "8 word"

text \<open>\<open>crypto.Uint256\<close> is an array of 32 bytes, compared with \<open>==\<close>: a 256-bit value.\<close>

type_synonym Uint256 = "256 word"

text \<open>
  \<open>time.Duration\<close> is a signed 64-bit count of nanoseconds: an \<open>int\<close> that every operation
  wraps into the signed range. \<open>time.Time\<close> is the (unbounded) number of nanoseconds since the
  Unix epoch; the zero \<open>time.Time\<close> is 1 January of year 1.
\<close>

type_synonym duration = int
type_synonym instant = int

definition wrap64 :: "int \<Rightarrow> int" where
  "wrap64 x = (x + 2 ^ 63) mod 2 ^ 64 - 2 ^ 63"

definition zeroTime :: instant where
  "zeroTime = - 62135596800000000000"

text \<open>\<open>d << n\<close> on a \<open>time.Duration\<close>.\<close>

definition shl64 :: "duration \<Rightarrow> nat \<Rightarrow> duration" where
  "shl64 d n = wrap64 (d * 2 ^ n)"

text \<open>\<open>Time.Sub\<close> saturates at the extreme durations.\<close>

definition time_sub :: "instant \<Rightarrow> instant \<Rightarrow> duration" where
  "time_sub t u = max (- (2 ^ 63)) (min (2 ^ 63 - 1) (t - u))"

text \<open>Go's integer division and remainder truncate toward zero.\<close>

definition go_div :: "int \<Rightarrow> int \<Rightarrow> int" where
  "go_div a b = sgn a * sgn b * (\<bar>a\<bar> div \<bar>b\<bar>)"

definition go_rem :: "int \<Rightarrow> int \<Rightarrow> int" where
  "go_rem a b = sgn a * (\<bar>a\<bar> mod \<bar>b\<bar>)"

lemma wrap64_range: "- (2 ^ 63) \<le> wrap64 x" "wrap64 x < 2 ^ 63"
proof -
  have "0 \<le> (x + 2 ^ 63) mod 2 ^ 64" "(x + 2 ^ 63) mod 2 ^ 64 < 2 ^ 64"
    by simp_all
  then show "- (2 ^ 63) \<le> wrap64 x" "wrap64 x < 2 ^ 63"
    by (simp_all add: wrap64_def)
qed

lemma wrap64_id: "- (2 ^ 63) \<le> x \<Longrightarrow> x < 2 ^ 63 \<Longrightarrow> wrap64 x = x"
  by (simp add: wrap64_def)

lemma go_div_nonneg: "0 \<le> a \<Longrightarrow> 0 < b \<Longrightarrow> go_div a b = a div b"
  by (cases "a = 0") (simp_all add: go_div_def)

lemma go_rem_nonneg: "0 \<le> a \<Longrightarrow> 0 < b \<Longrightarrow> go_rem a b = a mod b"
  by (cases "a = 0") (simp_all add: go_rem_def)

lemma go_rem_neg: "a < 0 \<Longrightarrow> 0 < b \<Longrightarrow> go_rem a b = - ((- a) mod b)"
  by (simp add: go_rem_def)

subsection \<open>How a statement can stop\<close>

text \<open>
  A Go statement returns or it stops the process: a run-time panic, a failed type assertion,
  or \<open>zap\<close>'s \<open>Fatal\<close>, which exits. \<open>OutOfFuel\<close> is the model's own value: the nesting bound of
  the recursion through \<open>OnReceive\<close> was too small.
\<close>

datatype stop = NilDereference | IndexOutOfRange | TypeAssertion | DivisionByZero
  | LoggerFatal | BufferTooSmall | OutOfFuel

abbreviation Ok :: "'a \<Rightarrow> stop + 'a" where
  "Ok \<equiv> Inr"

abbreviation Stop :: "stop \<Rightarrow> stop + 'a" where
  "Stop \<equiv> Inl"

type_synonym 's act = "'s \<Rightarrow> stop + 's"

definition thenDo :: "stop + 'a \<Rightarrow> ('a \<Rightarrow> stop + 'b) \<Rightarrow> stop + 'b" where
  "thenDo m k = (case m of Inl e \<Rightarrow> Inl e | Inr x \<Rightarrow> k x)"

text \<open>Statements one after the other; a loop over a list of values.\<close>

fun steps :: "'s act list \<Rightarrow> 's act" where
  "steps [] s = Ok s"
| "steps (f # fs) s = thenDo (f s) (steps fs)"

fun forEach :: "('a \<Rightarrow> 's act) \<Rightarrow> 'a list \<Rightarrow> 's act" where
  "forEach f [] s = Ok s"
| "forEach f (x # xs) s = thenDo (f x s) (forEach f xs)"

lemma thenDo_simps [simp]:
  "thenDo (Inl e) k = Inl e"
  "thenDo (Inr x) k = k x"
  by (simp_all add: thenDo_def)

lemma thenDo_Ok_iff: "thenDo m k = Inr y \<longleftrightarrow> (\<exists>x. m = Inr x \<and> k x = Inr y)"
  by (cases m) simp_all

lemma thenDo_Stop_iff:
  "thenDo m k = Inl e \<longleftrightarrow> m = Inl e \<or> (\<exists>x. m = Inr x \<and> k x = Inl e)"
  by (cases m) simp_all

lemma thenDo_OkE:
  assumes "thenDo m k = Inr y"
  obtains x where "m = Inr x" and "k x = Inr y"
  using assms by (auto simp: thenDo_Ok_iff)

lemma steps_append: "steps (fs @ gs) s = thenDo (steps fs s) (steps gs)"
  by (induction fs arbitrary: s) (simp_all add: thenDo_def split: sum.split)

text \<open>
  A reflexive and transitive relation that every statement respects is respected by the
  sequence and by the loop. The invariant \<open>P\<close> is available to each statement.
\<close>

lemma forEach_rel:
  assumes "\<And>x t u. x \<in> set xs \<Longrightarrow> P t \<Longrightarrow> f x t = Inr u \<Longrightarrow> R t u \<and> P u"
    and "\<And>t. R t t" and "\<And>t u v. R t u \<Longrightarrow> R u v \<Longrightarrow> R t v"
    and "P s" and "forEach f xs s = Inr s'"
  shows "R s s' \<and> P s'"
  using assms(1,4,5)
proof (induction xs arbitrary: s)
  case Nil
  then show ?case using assms(2) by simp
next
  case (Cons x xs)
  from Cons.prems(3) obtain t where t: "f x s = Inr t" "forEach f xs t = Inr s'"
    by (auto simp: thenDo_Ok_iff)
  have st: "R s t \<and> P t"
    using Cons.prems(1)[of x s t] Cons.prems(2) t(1) by simp
  have "R t s' \<and> P s'"
  proof (rule Cons.IH)
    show "\<And>y u v. y \<in> set xs \<Longrightarrow> P u \<Longrightarrow> f y u = Inr v \<Longrightarrow> R u v \<and> P v"
      by (rule Cons.prems(1)) simp_all
  qed (use st t(2) in auto)
  with st show ?case using assms(3) by blast
qed

lemma forEach_inv:
  assumes "\<And>x t u. x \<in> set xs \<Longrightarrow> P t \<Longrightarrow> f x t = Inr u \<Longrightarrow> P u"
    and "P s" and "forEach f xs s = Inr s'"
  shows "P s'"
  using forEach_rel[where R = "\<lambda>_ _. True" and P = P and f = f and xs = xs] assms by blast

lemma forEach_no_stop:
  assumes "\<And>x t. x \<in> set xs \<Longrightarrow> P t \<Longrightarrow> f x t \<noteq> Inl e"
    and "\<And>x t u. x \<in> set xs \<Longrightarrow> P t \<Longrightarrow> f x t = Inr u \<Longrightarrow> P u"
    and "P s"
  shows "forEach f xs s \<noteq> Inl e"
  using assms
proof (induction xs arbitrary: s)
  case Nil
  then show ?case by simp
next
  case (Cons x xs)
  have "forEach f xs t \<noteq> Inl e" if "f x s = Inr t" for t
  proof (rule Cons.IH)
    show "P t" using Cons.prems(2,3) that by (meson list.set_intros(1))
    show "\<And>y u. y \<in> set xs \<Longrightarrow> P u \<Longrightarrow> f y u \<noteq> Inl e"
      by (rule Cons.prems(1)) simp_all
    show "\<And>y u v. y \<in> set xs \<Longrightarrow> P u \<Longrightarrow> f y u = Inr v \<Longrightarrow> P v"
      by (meson Cons.prems(2) list.set_intros(2))
  qed
  then show ?case
    using Cons.prems(1)[of x s] Cons.prems(3) by (auto simp: thenDo_Stop_iff)
qed

lemma steps_no_stop:
  assumes "\<And>f t. f \<in> set fs \<Longrightarrow> P t \<Longrightarrow> f t \<noteq> Inl e"
    and "\<And>f t u. f \<in> set fs \<Longrightarrow> P t \<Longrightarrow> f t = Inr u \<Longrightarrow> P u"
    and "P s"
  shows "steps fs s \<noteq> Inl e"
proof -
  have "steps fs s = forEach (\<lambda>f. f) fs s" by (induction fs arbitrary: s) (simp_all add: thenDo_def split: sum.split)
  then show ?thesis using forEach_no_stop[of fs P "\<lambda>f. f"] assms by metis
qed

subsection \<open>Slices of optional payloads\<close>

text \<open>
  A Go slice of interface values holds \<open>nil\<close> where nothing was received: a list of options.
  \<open>slot xs i\<close> reads index \<open>i\<close>; the well-formedness invariant of the node state shows that the
  indexes the code uses are in range, and out of range the model reads \<open>nil\<close>.
\<close>

definition slot :: "'a option list \<Rightarrow> nat \<Rightarrow> 'a option" where
  "slot xs i = (if i < length xs then xs ! i else None)"

lemma slot_replicate [simp]: "slot (replicate n None) i = None"
  by (simp add: slot_def)

lemma slot_update:
  "slot (xs[i := v]) j = (if i = j \<and> j < length xs then v else slot xs j)"
  by (auto simp: slot_def nth_list_update list_update_beyond)

lemma slot_update_same [simp]: "i < length xs \<Longrightarrow> slot (xs[i := v]) i = v"
  by (simp add: slot_update)

lemma slot_update_other [simp]: "i \<noteq> j \<Longrightarrow> slot (xs[i := v]) j = slot xs j"
  by (simp add: slot_update)

lemma slot_map_upt: "slot (map f [0..<n]) i = (if i < n then f i else None)"
  by (simp add: slot_def)

lemma slot_in_range: "slot xs i = Some x \<Longrightarrow> i < length xs"
  by (auto simp: slot_def split: if_splits)

text \<open>The payloads that are not \<open>nil\<close>, in index order, as a \<open>range\<close> loop with a nil check sees them.\<close>

definition present :: "'a option list \<Rightarrow> 'a list" where
  "present xs = map the (filter (\<lambda>x. x \<noteq> None) xs)"

lemma set_present: "set (present xs) = {m. Some m \<in> set xs}"
  by (force simp: present_def image_iff)

lemma present_slot: "m \<in> set (present xs) \<longleftrightarrow> (\<exists>i. slot xs i = Some m)"
  by (auto simp: set_present slot_def in_set_conv_nth)

text \<open>Counting the payloads of a slice is counting the slots that hold one.\<close>

lemma length_present_card:
  "length (filter P (present ms)) = card {i. \<exists>m. slot ms i = Some m \<and> P m}"
proof -
  have "length (filter P (present ms)) = length (filter (\<lambda>x. \<exists>m. x = Some m \<and> P m) ms)"
    unfolding present_def by (induction ms) auto
  also have "\<dots> = card {i. i < length ms \<and> (\<exists>m. ms ! i = Some m \<and> P m)}"
    by (rule length_filter_conv_card)
  also have "{i. i < length ms \<and> (\<exists>m. ms ! i = Some m \<and> P m)} = {i. \<exists>m. slot ms i = Some m \<and> P m}"
    by (auto simp: slot_def split: if_splits)
  finally show ?thesis .
qed

lemma finite_slots: "finite {i. \<exists>m. slot ms i = Some m \<and> P m}"
  by (rule finite_subset[of _ "{..<length ms}"]) (auto dest: slot_in_range)

text \<open>Overwriting a payload that is not counted does not lower the count.\<close>

lemma count_put:
  assumes "\<And>m. slot ms i = Some m \<Longrightarrow> \<not> P m"
  shows "length (filter P (present ms)) \<le> length (filter P (present (ms[i := x])))"
  unfolding length_present_card
  by (rule card_mono[OF finite_slots]) (use assms in \<open>auto simp: slot_update\<close>)

text \<open>A nil slice behaves like an empty one, except when compared with \<open>nil\<close>.\<close>

definition elems :: "'a list option \<Rightarrow> 'a list" where
  "elems xs = (case xs of None \<Rightarrow> [] | Some ys \<Rightarrow> ys)"

lemma elems_simps [simp]: "elems None = []" "elems (Some xs) = xs"
  by (simp_all add: elems_def)

subsection \<open>Byte order\<close>

text \<open>\<open>encoding/binary\<close>'s little-endian and big-endian views of an unsigned integer.\<close>

definition le_bytes :: "nat \<Rightarrow> 'a::len word \<Rightarrow> byte list" where
  "le_bytes n w = map (\<lambda>i. ucast (drop_bit (8 * i) w)) [0..<n]"

fun le_word :: "byte list \<Rightarrow> 'a::len word" where
  "le_word [] = 0"
| "le_word (b # bs) = or (ucast b) (push_bit 8 (le_word bs))"

definition putUint32BE :: "u32 \<Rightarrow> byte list" where
  "putUint32BE w = rev (le_bytes 4 w)"

definition uint32BE :: "byte list \<Rightarrow> stop + u32" where
  "uint32BE bs = (if length bs < 4 then Stop IndexOutOfRange else Ok (le_word (rev (take 4 bs))))"

lemma length_le_bytes [simp]: "length (le_bytes n w) = n"
  by (simp add: le_bytes_def)

lemma bit_le_word:
  "bit (le_word bs :: 'a::len word) n
     \<longleftrightarrow> n < LENGTH('a) \<and> n div 8 < length bs \<and> bit (bs ! (n div 8)) (n mod 8)"
proof (induction bs arbitrary: n)
  case Nil
  then show ?case by simp
next
  case (Cons b bs)
  show ?case
  proof (cases "n < 8")
    case True
    then show ?thesis
      by (auto simp: bit_simps)
  next
    case False
    then have d: "n div 8 = Suc ((n - 8) div 8)" "n mod 8 = (n - 8) mod 8"
      by (auto simp: div_if le_mod_geq)
    have "\<not> bit b n"
      using False bit_imp_le_length[of b n] by auto
    with False show ?thesis
      by (auto simp: bit_simps Cons.IH d)
  qed
qed

lemma le_word_le_bytes:
  fixes w :: "'a::len word"
  assumes "LENGTH('a) \<le> 8 * n"
  shows "le_word (le_bytes n w) = w"
proof (rule bit_word_eqI)
  fix i
  assume i: "i < LENGTH('a)"
  with assms have "i div 8 < n" by (simp add: less_mult_imp_div_less mult.commute)
  moreover have "i mod 8 + 8 * (i div 8) = i" by simp
  ultimately show "bit (le_word (le_bytes n w) :: 'a word) i \<longleftrightarrow> bit w i"
    using i mod_less_divisor[of 8 i] by (auto simp: bit_le_word le_bytes_def bit_simps ac_simps)
qed

lemma le_bytes_le_word:
  assumes "length bs = n" and "8 * n \<le> LENGTH('a::len)"
  shows "le_bytes n (le_word bs :: 'a word) = bs"
proof (rule nth_equalityI)
  show "length (le_bytes n (le_word bs :: 'a word)) = length bs"
    using assms by simp
next
  fix i
  assume "i < length (le_bytes n (le_word bs :: 'a word))"
  then have i: "i < n" by simp
  show "le_bytes n (le_word bs :: 'a word) ! i = bs ! i"
  proof (rule bit_word_eqI)
    fix j
    assume "j < LENGTH(8)"
    then have j: "j < 8" by simp
    have "(8 * i + j) div 8 = i" "(8 * i + j) mod 8 = j" "8 * i + j < LENGTH('a)"
      using j i assms(2) by auto
    then show "bit (le_bytes n (le_word bs :: 'a word) ! i) j \<longleftrightarrow> bit (bs ! i) j"
      using i j assms(1) by (simp add: le_bytes_def bit_simps bit_le_word ac_simps)
  qed
qed

lemma uint32BE_put: "uint32BE (putUint32BE w) = Ok w"
  by (simp add: uint32BE_def putUint32BE_def le_word_le_bytes)

lemma putUint32BE_uint32BE: "length bs = 4 \<Longrightarrow> uint32BE bs = Ok w \<Longrightarrow> putUint32BE w = bs"
  by (auto simp: uint32BE_def putUint32BE_def le_bytes_le_word)

text \<open>\<open>copy(dst[:], src)\<close> into a zeroed array of \<open>n\<close> bytes.\<close>

definition copyInto :: "nat \<Rightarrow> byte list \<Rightarrow> byte list" where
  "copyInto n src = take n src @ replicate (n - length src) 0"

lemma length_copyInto [simp]: "length (copyInto n src) = n"
  by (simp add: copyInto_def)

lemma copyInto_id: "length src = n \<Longrightarrow> copyInto n src = src"
  by (simp add: copyInto_def)

end
