(* ===== verification/Payload.thy ===== *)
theory Payload
  imports Prelude
begin

section \<open>Consensus messages\<close>

text \<open>
  The messages that nodes exchange: the interfaces of the root package
  (\<open>consensus_message_type.go\<close>, \<open>change_view_reason.go\<close>, \<open>consensus_payload.go\<close> and the one
  file per message) with the implementation the repository gives them in \<open>internal/consensus\<close>
  (\<open>message.go\<close>, \<open>constructors.go\<close> and the one file per message). A payload is a value; its
  \<open>payload any\<close> field is the datatype \<open>consensusMessage\<close>, \<open>nil\<close> included, and the type
  assertions of the getters are partial functions.
\<close>

subsection \<open>Message types and reasons\<close>

datatype MessageType = ChangeViewType | PrepareRequestType | PrepareResponseType
  | PreCommitType | CommitType | RecoveryRequestType | RecoveryMessageType
  | UnknownType u8

definition messageTypeOf :: "u8 \<Rightarrow> MessageType" where
  "messageTypeOf b =
     (if b = 0x00 then ChangeViewType
      else if b = 0x20 then PrepareRequestType
      else if b = 0x21 then PrepareResponseType
      else if b = 0x31 then PreCommitType
      else if b = 0x30 then CommitType
      else if b = 0x40 then RecoveryRequestType
      else if b = 0x41 then RecoveryMessageType
      else UnknownType b)"

fun typeByte :: "MessageType \<Rightarrow> u8" where
  "typeByte ChangeViewType = 0x00"
| "typeByte PrepareRequestType = 0x20"
| "typeByte PrepareResponseType = 0x21"
| "typeByte PreCommitType = 0x31"
| "typeByte CommitType = 0x30"
| "typeByte RecoveryRequestType = 0x40"
| "typeByte RecoveryMessageType = 0x41"
| "typeByte (UnknownType b) = b"

definition hexDigit :: "nat \<Rightarrow> char" where
  "hexDigit n = ''0123456789abcdef'' ! n"

fun MessageType_String :: "MessageType \<Rightarrow> string" where
  "MessageType_String ChangeViewType = ''ChangeView''"
| "MessageType_String PrepareRequestType = ''PrepareRequest''"
| "MessageType_String PrepareResponseType = ''PrepareResponse''"
| "MessageType_String CommitType = ''Commit''"
| "MessageType_String PreCommitType = ''PreCommit''"
| "MessageType_String RecoveryRequestType = ''RecoveryRequest''"
| "MessageType_String RecoveryMessageType = ''RecoveryMessage''"
| "MessageType_String (UnknownType b) =
     ''UNKNOWN('' @ [hexDigit (unat b div 16), hexDigit (unat b mod 16)] @ '')''"

datatype ChangeViewReason = CVTimeout | CVChangeAgreement | CVTxNotFound
  | CVTxRejectedByPolicy | CVTxInvalid | CVBlockRejectedByPolicy | CVUnknown

lemma typeByte_messageTypeOf: "typeByte (messageTypeOf b) = b"
  by (simp add: messageTypeOf_def)

lemma messageTypeOf_typeByte: "(\<And>b. t \<noteq> UnknownType b) \<Longrightarrow> messageTypeOf (typeByte t) = t"
  by (cases t) (simp_all add: messageTypeOf_def)

subsection \<open>Message bodies\<close>

definition secToNanoSec :: "u32 \<Rightarrow> u64" where
  "secToNanoSec s = ucast s * 1000000000"

definition nanoSecToSec :: "u64 \<Rightarrow> u32" where
  "nanoSecToSec ns = ucast (ns div 1000000000)"

record changeView =
  newViewNumber :: u8
  cvTimestamp :: u32

record prepareRequest =
  transactionHashes :: "Uint256 list option"
  reqNonce :: u64
  reqTimestamp :: u32

record prepareResponse =
  preparationHash :: Uint256

record preCommit =
  magic :: u32

record commit =
  signature :: "byte list"

record recoveryRequest =
  rrTimestamp :: u32

text \<open>The compact forms packed into a recovery message (\<open>compact.go\<close>).\<close>

record changeViewCompact =
  cvcValidatorIndex :: u16
  cvcOriginalViewNumber :: u8
  cvcTimestamp :: u32

record preCommitCompact =
  pccViewNumber :: u8
  pccValidatorIndex :: u16
  pccData :: "byte list"

record commitCompact =
  ccViewNumber :: u8
  ccValidatorIndex :: u16
  ccSignature :: "byte list"

record preparationCompact =
  prcValidatorIndex :: u16

record recoveryMessage =
  rmPreparationHash :: "Uint256 option"
  rmPreparationPayloads :: "preparationCompact list"
  rmPreCommitPayloads :: "preCommitCompact list"
  rmCommitPayloads :: "commitCompact list"
  rmChangeViewPayloads :: "changeViewCompact list"
  rmPrepareRequest :: "prepareRequest option"

datatype consensusMessage = NilPayload
  | ChangeViewMsg changeView
  | PrepareRequestMsg prepareRequest
  | PrepareResponseMsg prepareResponse
  | PreCommitMsg preCommit
  | CommitMsg commit
  | RecoveryRequestMsg recoveryRequest
  | RecoveryMessageMsg recoveryMessage

text \<open>
  \<open>message\<close> and the \<open>Payload\<close> that embeds it. The \<open>hash\<close> field of the Go struct is never
  assigned, so \<open>Hash\<close> always recomputes; it is a parameter of the model (SHA-256 of the \<open>gob\<close>
  encoding) and takes the payload.
\<close>

record payload =
  cmType :: MessageType
  viewNumber :: u8
  body :: consensusMessage
  version :: u32
  validatorIndex :: u16
  prevHash :: Uint256
  height :: u32

subsection \<open>Getters and constructors\<close>

fun GetChangeView :: "consensusMessage \<Rightarrow> changeView option" where
  "GetChangeView (ChangeViewMsg c) = Some c"
| "GetChangeView _ = None"

fun GetPrepareRequest :: "consensusMessage \<Rightarrow> prepareRequest option" where
  "GetPrepareRequest (PrepareRequestMsg r) = Some r"
| "GetPrepareRequest _ = None"

fun GetPrepareResponse :: "consensusMessage \<Rightarrow> prepareResponse option" where
  "GetPrepareResponse (PrepareResponseMsg r) = Some r"
| "GetPrepareResponse _ = None"

fun GetPreCommit :: "consensusMessage \<Rightarrow> preCommit option" where
  "GetPreCommit (PreCommitMsg c) = Some c"
| "GetPreCommit _ = None"

fun GetCommit :: "consensusMessage \<Rightarrow> commit option" where
  "GetCommit (CommitMsg c) = Some c"
| "GetCommit _ = None"

fun GetRecoveryMessage :: "consensusMessage \<Rightarrow> recoveryMessage option" where
  "GetRecoveryMessage (RecoveryMessageMsg r) = Some r"
| "GetRecoveryMessage _ = None"

definition SetValidatorIndex :: "u16 \<Rightarrow> payload \<Rightarrow> payload" where
  "SetValidatorIndex i p = p\<lparr>validatorIndex := i\<rparr>"

definition prepareRequest_Timestamp :: "prepareRequest \<Rightarrow> u64" where
  "prepareRequest_Timestamp r = secToNanoSec (reqTimestamp r)"

definition preCommit_Data :: "preCommit \<Rightarrow> byte list" where
  "preCommit_Data c = putUint32BE (magic c)"

definition NewConsensusPayload ::
    "MessageType \<Rightarrow> u32 \<Rightarrow> u16 \<Rightarrow> u8 \<Rightarrow> consensusMessage \<Rightarrow> payload" where
  "NewConsensusPayload t h i v m =
     \<lparr>cmType = t, viewNumber = v, body = m, version = 0, validatorIndex = i,
      prevHash = 0, height = h\<rparr>"

definition NewPrepareRequest :: "u64 \<Rightarrow> u64 \<Rightarrow> Uint256 list option \<Rightarrow> prepareRequest" where
  "NewPrepareRequest ts nonce hashes =
     \<lparr>transactionHashes = hashes, reqNonce = nonce, reqTimestamp = nanoSecToSec ts\<rparr>"

definition NewPrepareResponse :: "Uint256 \<Rightarrow> prepareResponse" where
  "NewPrepareResponse h = \<lparr>preparationHash = h\<rparr>"

definition NewChangeView :: "u8 \<Rightarrow> ChangeViewReason \<Rightarrow> u64 \<Rightarrow> changeView" where
  "NewChangeView v reason ts = \<lparr>newViewNumber = v, cvTimestamp = nanoSecToSec ts\<rparr>"

definition signatureSize :: nat where
  "signatureSize = 64"

definition NewCommit :: "byte list \<Rightarrow> commit" where
  "NewCommit sig = \<lparr>signature = copyInto signatureSize sig\<rparr>"

definition NewPreCommit :: "byte list \<Rightarrow> stop + preCommit" where
  "NewPreCommit data = thenDo (uint32BE data) (\<lambda>w. Ok \<lparr>magic = w\<rparr>)"

definition NewRecoveryRequest :: "u64 \<Rightarrow> recoveryRequest" where
  "NewRecoveryRequest ts = \<lparr>rrTimestamp = nanoSecToSec ts\<rparr>"

definition NewRecoveryMessage :: "Uint256 option \<Rightarrow> recoveryMessage" where
  "NewRecoveryMessage h =
     \<lparr>rmPreparationHash = h, rmPreparationPayloads = [], rmPreCommitPayloads = [],
      rmCommitPayloads = [], rmChangeViewPayloads = [], rmPrepareRequest = None\<rparr>"

subsection \<open>Well-typed payloads\<close>

text \<open>
  A payload is well typed when its body is the one its type byte announces, as in every payload
  that \<open>message.DecodeBinary\<close> or a constructor call in the root package produces: the getters'
  type assertions then succeed.
\<close>

fun bodyType :: "consensusMessage \<Rightarrow> MessageType option" where
  "bodyType NilPayload = None"
| "bodyType (ChangeViewMsg _) = Some ChangeViewType"
| "bodyType (PrepareRequestMsg _) = Some PrepareRequestType"
| "bodyType (PrepareResponseMsg _) = Some PrepareResponseType"
| "bodyType (PreCommitMsg _) = Some PreCommitType"
| "bodyType (CommitMsg _) = Some CommitType"
| "bodyType (RecoveryRequestMsg _) = Some RecoveryRequestType"
| "bodyType (RecoveryMessageMsg _) = Some RecoveryMessageType"

definition wellTyped :: "payload \<Rightarrow> bool" where
  "wellTyped p \<longleftrightarrow> bodyType (body p) = Some (cmType p)"

fun_cases bodyType_SomeE: "bodyType b = Some t"

lemma wellTyped_getters:
  "wellTyped p \<Longrightarrow> cmType p = ChangeViewType \<Longrightarrow> \<exists>c. body p = ChangeViewMsg c"
  "wellTyped p \<Longrightarrow> cmType p = PrepareRequestType \<Longrightarrow> \<exists>r. body p = PrepareRequestMsg r"
  "wellTyped p \<Longrightarrow> cmType p = PrepareResponseType \<Longrightarrow> \<exists>r. body p = PrepareResponseMsg r"
  "wellTyped p \<Longrightarrow> cmType p = PreCommitType \<Longrightarrow> \<exists>c. body p = PreCommitMsg c"
  "wellTyped p \<Longrightarrow> cmType p = CommitType \<Longrightarrow> \<exists>c. body p = CommitMsg c"
  "wellTyped p \<Longrightarrow> cmType p = RecoveryMessageType \<Longrightarrow> \<exists>r. body p = RecoveryMessageMsg r"
  by (auto simp: wellTyped_def elim: bodyType_SomeE)

text \<open>The new view that a stored ChangeView asks for.\<close>

definition NewViewNumber :: "payload \<Rightarrow> u8" where
  "NewViewNumber p = (case GetChangeView (body p) of Some c \<Rightarrow> newViewNumber c | None \<Rightarrow> 0)"

lemma NewConsensusPayload_sel [simp]:
  "cmType (NewConsensusPayload t h i v m) = t"
  "viewNumber (NewConsensusPayload t h i v m) = v"
  "body (NewConsensusPayload t h i v m) = m"
  "validatorIndex (NewConsensusPayload t h i v m) = i"
  "height (NewConsensusPayload t h i v m) = h"
  by (simp_all add: NewConsensusPayload_def)

lemma SetValidatorIndex_sel [simp]:
  "cmType (SetValidatorIndex i p) = cmType p"
  "viewNumber (SetValidatorIndex i p) = viewNumber p"
  "body (SetValidatorIndex i p) = body p"
  "validatorIndex (SetValidatorIndex i p) = i"
  "height (SetValidatorIndex i p) = height p"
  by (simp_all add: SetValidatorIndex_def)

lemma SetValidatorIndex_own: "validatorIndex p = i \<Longrightarrow> SetValidatorIndex i p = p"
  by (simp add: SetValidatorIndex_def)

lemma nanoSecToSec_secToNanoSec: "nanoSecToSec (secToNanoSec s) = s"
proof -
  have lt: "unat s < 2 ^ 32" using unsigned_less[of s] by simp
  then have "unat (ucast s * 1000000000 :: u64) = unat s * 1000000000"
    by (simp add: unat_word_ariths unsigned_ucast_eq take_bit_eq_mod)
  then have "unat ((ucast s * 1000000000 :: u64) div 1000000000) = unat s"
    by (simp add: unat_div)
  with lt have "unat (nanoSecToSec (secToNanoSec s)) = unat s"
    by (simp add: nanoSecToSec_def secToNanoSec_def unsigned_ucast_eq take_bit_eq_mod)
  then show ?thesis by (simp add: word_unat_eq_iff)
qed

lemma NewPreCommit_Data: "length data = 4 \<Longrightarrow> \<exists>c. NewPreCommit data = Ok c \<and> preCommit_Data c = data"
  by (auto simp: NewPreCommit_def uint32BE_def preCommit_Data_def putUint32BE_def le_bytes_le_word)

lemma NewPreCommit_own: "NewPreCommit (preCommit_Data c) = Ok c"
  by (simp add: NewPreCommit_def preCommit_Data_def uint32BE_put)

end
