(* ===== verification/Message_Cache.thy ===== *)
theory Message_Cache
  imports Payload
begin

section \<open>The cache of messages from the future\<close>

text \<open>
  \<open>helpers.go\<close>: messages for a later height or view are kept per height in an \<open>inbox\<close> of four
  maps from the sender's index to its last message. The Go maps are association lists with
  distinct keys: \<open>AList.update\<close> is map assignment.
\<close>

record inbox =
  inPrepare :: "(u16 \<times> payload) list"
  inChViews :: "(u16 \<times> payload) list"
  inPreCommit :: "(u16 \<times> payload) list"
  inCommit :: "(u16 \<times> payload) list"

record cache =
  mail :: "(u32 \<times> inbox) list"

definition newInbox :: inbox where
  "newInbox = \<lparr>inPrepare = [], inChViews = [], inPreCommit = [], inCommit = []\<rparr>"

definition newCache :: cache where
  "newCache = \<lparr>mail = []\<rparr>"

definition getHeight :: "u32 \<Rightarrow> cache \<Rightarrow> inbox option \<times> cache" where
  "getHeight h c =
     (case map_of (mail c) h of
        Some m \<Rightarrow> (Some m, c\<lparr>mail := AList.delete h (mail c)\<rparr>)
      | None \<Rightarrow> (None, c))"

definition inbox_put :: "payload \<Rightarrow> inbox \<Rightarrow> inbox" where
  "inbox_put m msgs =
     (case cmType m of
        PrepareRequestType \<Rightarrow>
          msgs\<lparr>inPrepare := AList.update (validatorIndex m) m (inPrepare msgs)\<rparr>
      | PrepareResponseType \<Rightarrow>
          msgs\<lparr>inPrepare := AList.update (validatorIndex m) m (inPrepare msgs)\<rparr>
      | ChangeViewType \<Rightarrow>
          msgs\<lparr>inChViews := AList.update (validatorIndex m) m (inChViews msgs)\<rparr>
      | PreCommitType \<Rightarrow>
          msgs\<lparr>inPreCommit := AList.update (validatorIndex m) m (inPreCommit msgs)\<rparr>
      | CommitType \<Rightarrow>
          msgs\<lparr>inCommit := AList.update (validatorIndex m) m (inCommit msgs)\<rparr>
      | _ \<Rightarrow> msgs)"

definition addMessage :: "payload \<Rightarrow> cache \<Rightarrow> cache" where
  "addMessage m c =
     (let msgs = (case map_of (mail c) (height m) of None \<Rightarrow> newInbox | Some b \<Rightarrow> b)
      in c\<lparr>mail := AList.update (height m) (inbox_put m msgs) (mail c)\<rparr>)"

subsection \<open>The abstract cache\<close>

text \<open>
  The message classes of an inbox, and the abstract view of a cache: a partial function from
  height, class and sender to the last message of that sender. \<open>cache_ok\<close> says that every
  message is filed under its own height, class and sender, and that the association lists are
  maps.
\<close>

datatype mclass = PrepareClass | ChViewClass | PreCommitClass | CommitClass

fun classOf :: "MessageType \<Rightarrow> mclass option" where
  "classOf PrepareRequestType = Some PrepareClass"
| "classOf PrepareResponseType = Some PrepareClass"
| "classOf ChangeViewType = Some ChViewClass"
| "classOf PreCommitType = Some PreCommitClass"
| "classOf CommitType = Some CommitClass"
| "classOf _ = None"

fun box :: "mclass \<Rightarrow> inbox \<Rightarrow> (u16 \<times> payload) list" where
  "box PrepareClass b = inPrepare b"
| "box ChViewClass b = inChViews b"
| "box PreCommitClass b = inPreCommit b"
| "box CommitClass b = inCommit b"

definition cached :: "cache \<Rightarrow> u32 \<times> mclass \<times> u16 \<Rightarrow> payload option" where
  "cached c = (\<lambda>(h, k, i). case map_of (mail c) h of None \<Rightarrow> None | Some b \<Rightarrow> map_of (box k b) i)"

definition inbox_ok :: "u32 \<Rightarrow> inbox \<Rightarrow> bool" where
  "inbox_ok h b \<longleftrightarrow>
     (\<forall>k. distinct (map fst (box k b))
        \<and> (\<forall>(i, m) \<in> set (box k b). height m = h \<and> validatorIndex m = i \<and> classOf (cmType m) = Some k))"

definition cache_ok :: "cache \<Rightarrow> bool" where
  "cache_ok c \<longleftrightarrow> distinct (map fst (mail c)) \<and> (\<forall>(h, b) \<in> set (mail c). inbox_ok h b)"

lemma box_newInbox [simp]: "box k newInbox = []"
  by (cases k) (simp_all add: newInbox_def)

lemma box_inbox_put:
  "box k (inbox_put m b) =
     (if classOf (cmType m) = Some k then AList.update (validatorIndex m) m (box k b) else box k b)"
  by (cases k) (auto simp: inbox_put_def split: MessageType.splits)

lemma inbox_ok_new: "inbox_ok h newInbox"
  by (simp add: inbox_ok_def)

lemma set_AList_update: "set (AList.update k v xs) \<subseteq> insert (k, v) (set xs)"
  by (induction xs) auto

lemma set_AList_delete: "set (AList.delete k xs) \<subseteq> set xs"
  by (induction xs) (auto simp: AList.delete_eq)

lemma inbox_ok_put:
  assumes "inbox_ok h b" and "height m = h"
  shows "inbox_ok h (inbox_put m b)"
  unfolding inbox_ok_def
proof (intro allI conjI)
  fix k
  show "distinct (map fst (box k (inbox_put m b)))"
    using assms(1) by (simp add: inbox_ok_def box_inbox_put distinct_update)
  show "\<forall>(i, p) \<in> set (box k (inbox_put m b)).
          height p = h \<and> validatorIndex p = i \<and> classOf (cmType p) = Some k"
    using assms set_AList_update[of "validatorIndex m" m "box k b"]
    by (auto simp: inbox_ok_def box_inbox_put)
qed

lemma cache_ok_new: "cache_ok newCache"
  by (simp add: cache_ok_def newCache_def)

lemma cache_ok_addMessage:
  assumes "cache_ok c"
  shows "cache_ok (addMessage m c)"
proof -
  have "inbox_ok (height m) (case map_of (mail c) (height m) of None \<Rightarrow> newInbox | Some b \<Rightarrow> b)"
    using assms by (auto simp: cache_ok_def inbox_ok_new split: option.split dest: map_of_SomeD)
  then have "inbox_ok (height m)
      (inbox_put m (case map_of (mail c) (height m) of None \<Rightarrow> newInbox | Some b \<Rightarrow> b))"
    by (simp add: inbox_ok_put)
  moreover have "distinct (map fst (AList.update (height m) v (mail c)))" for v
    using assms by (simp add: cache_ok_def distinct_update)
  ultimately show ?thesis
    using assms set_AList_update[of "height m"] by (fastforce simp: cache_ok_def addMessage_def)
qed

lemma cache_ok_getHeight:
  assumes "cache_ok c" and "getHeight h c = (mb, c')"
  shows "cache_ok c'" and "mb = Some b \<Longrightarrow> inbox_ok h b"
proof -
  have "cache_ok (c\<lparr>mail := AList.delete h (mail c)\<rparr>)"
    using assms(1) set_AList_delete[of h "mail c"]
    by (auto simp: cache_ok_def distinct_delete)
  then show "cache_ok c'"
    using assms by (auto simp: getHeight_def split: option.splits)
  show "mb = Some b \<Longrightarrow> inbox_ok h b"
    using assms by (auto simp: getHeight_def cache_ok_def split: option.splits dest: map_of_SomeD)
qed

lemma inbox_ok_mem:
  "inbox_ok h b \<Longrightarrow> m \<in> set (map snd (box k b)) \<Longrightarrow> height m = h \<and> classOf (cmType m) = Some k"
  by (fastforce simp: inbox_ok_def)

lemma cached_addMessage:
  "cached (addMessage m c) =
     (case classOf (cmType m) of
        None \<Rightarrow> cached c
      | Some k \<Rightarrow> (cached c)((height m, k, validatorIndex m) \<mapsto> m))"
  by (rule ext)
    (auto simp: cached_def addMessage_def Let_def update_conv' box_inbox_put
       split: option.split prod.splits)

lemma cached_getHeight:
  assumes "cache_ok c" and "getHeight h c = (mb, c')"
  shows "cached c' (h', k, i) = (if h' = h then None else cached c (h', k, i))"
    and "cached c (h, k, i) = (case mb of None \<Rightarrow> None | Some b \<Rightarrow> map_of (box k b) i)"
  using assms
  by (auto simp: getHeight_def cached_def delete_conv' split: option.splits)

text \<open>
  C24. The cache is a map. From a well-formed cache, \<open>addMessage\<close> makes the message the last one of
  its height, class and sender, or ignores a recovery message; \<open>getHeight\<close> hands out exactly the
  messages of the height and removes them; both keep the cache well formed.
\<close>

theorem cache_refines_map:
  assumes "cache_ok c" and "getHeight h c = (mb, c')"
  shows "cache_ok (addMessage m c) \<and> cache_ok c'
    \<and> cached (addMessage m c) =
        (case classOf (cmType m) of
           None \<Rightarrow> cached c
         | Some k \<Rightarrow> (cached c)((height m, k, validatorIndex m) \<mapsto> m))
    \<and> cached c' (h', k, i) = (if h' = h then None else cached c (h', k, i))
    \<and> cached c (h, k, i) = (case mb of None \<Rightarrow> None | Some b \<Rightarrow> map_of (box k b) i)"
  using cache_ok_addMessage[OF assms(1)] cache_ok_getHeight(1)[OF assms] cached_addMessage
    cached_getHeight[OF assms] by blast

theorem cache_refines_map_witness:
  "cached (addMessage (NewConsensusPayload CommitType 5 2 0 NilPayload) newCache) (5, CommitClass, 2)
    = Some (NewConsensusPayload CommitType 5 2 0 NilPayload)"
  using cache_refines_map[OF cache_ok_new, of 5 None newCache "NewConsensusPayload CommitType 5 2 0 NilPayload"]
  by (simp add: getHeight_def newCache_def)

end
