(* ===== verification/Rtt.thy ===== *)
theory Rtt
  imports Prelude
begin

section \<open>Round-trip estimates\<close>

text \<open>
  \<open>rtt.go\<close>: a ring buffer of the last \<open>rttLength\<close> round-trip times with a running average.
  Durations are signed 64-bit numbers, so every operation wraps.
\<close>

definition rttLength :: nat where
  "rttLength = 70"

record rtt =
  times :: "duration list"
  idx :: nat
  avg :: duration

definition newRtt :: rtt where
  "newRtt = \<lparr>times = replicate rttLength 0, idx = 0, avg = 0\<rparr>"

definition addTime :: "duration \<Rightarrow> rtt \<Rightarrow> rtt" where
  "addTime t0 r =
     (let old = times r ! idx r;
          t = (if old \<noteq> 0 then min t0 (wrap64 (2 * old)) else t0);
          a = wrap64 (avg r + go_div (wrap64 (t - old)) (int (length (times r))))
      in r\<lparr>avg := max 0 a, times := (times r)[idx r := t],
           idx := (idx r + 1) mod length (times r)\<rparr>)"

text \<open>
  The invariant: a full buffer, an index inside it, an average that is never negative. With
  round-trip times between 0 and a bound that leaves room for the doubling, no operation wraps
  and the buffer stays within the bound.
\<close>

definition rtt_ok :: "rtt \<Rightarrow> bool" where
  "rtt_ok r \<longleftrightarrow> length (times r) = rttLength \<and> idx r < rttLength \<and> 0 \<le> avg r"

lemma rtt_ok_new: "rtt_ok newRtt"
  by (simp add: rtt_ok_def newRtt_def rttLength_def)

lemma rtt_ok_addTime: "rtt_ok r \<Longrightarrow> rtt_ok (addTime t r)"
  by (simp add: rtt_ok_def addTime_def Let_def rttLength_def)

definition rtt_bounded :: "duration \<Rightarrow> rtt \<Rightarrow> bool" where
  "rtt_bounded B r \<longleftrightarrow> rtt_ok r \<and> (\<forall>t \<in> set (times r). 0 \<le> t \<and> t \<le> B)"

lemma addTime_stored:
  assumes "rtt_bounded B r" and "B < 2 ^ 62" and "0 \<le> t" and "t \<le> B"
  shows "times (addTime t r) =
           (times r)[idx r := (if times r ! idx r = 0 then t else min t (2 * (times r ! idx r)))]"
    and "rtt_bounded B (addTime t r)"
proof -
  have i: "idx r < length (times r)" using assms(1) by (simp add: rtt_bounded_def rtt_ok_def)
  then have old: "0 \<le> times r ! idx r" "times r ! idx r \<le> B"
    using assms(1) by (auto simp: rtt_bounded_def)
  then have w: "wrap64 (2 * (times r ! idx r)) = 2 * (times r ! idx r)"
    using assms(2) by (intro wrap64_id) simp_all
  show *: "times (addTime t r) =
           (times r)[idx r := (if times r ! idx r = 0 then t else min t (2 * (times r ! idx r)))]"
    by (simp add: addTime_def Let_def w)
  have "rtt_ok (addTime t r)"
    using assms(1) by (simp add: rtt_bounded_def rtt_ok_addTime)
  moreover have "0 \<le> u \<and> u \<le> B" if "u \<in> set (times (addTime t r))" for u
  proof -
    from that have "u \<in> set (times r)
        \<or> u = (if times r ! idx r = 0 then t else min t (2 * (times r ! idx r)))"
      unfolding * using set_update_subset_insert by fastforce
    then show ?thesis
      using assms(1,3,4) old by (auto simp: rtt_bounded_def)
  qed
  ultimately show "rtt_bounded B (addTime t r)"
    by (simp add: rtt_bounded_def)
qed

text \<open>The average moves by at most a \<open>rttLength\<close>-th part of the bound, and never above it by more.\<close>

lemma addTime_avg:
  assumes "rtt_bounded B r" and "B < 2 ^ 62" and "0 \<le> t" and "t \<le> B" and "avg r < 2 ^ 62"
  shows "avg (addTime t r) \<le> avg r + B div int rttLength"
proof -
  define old where "old = times r ! idx r"
  define u where "u = (if old = 0 then t else min t (2 * old))"
  have i: "idx r < length (times r)" and len: "length (times r) = rttLength"
    using assms(1) by (simp_all add: rtt_bounded_def rtt_ok_def)
  then have old: "0 \<le> old" "old \<le> B"
    using assms(1) by (auto simp: rtt_bounded_def old_def)
  have u: "0 \<le> u" "u \<le> B" using assms(3,4) old by (auto simp: u_def)
  have a0: "0 \<le> avg r" using assms(1) by (simp add: rtt_bounded_def rtt_ok_def)
  have w1: "wrap64 (2 * old) = 2 * old" and w2: "wrap64 (u - old) = u - old"
    using old u assms(2) by (auto intro: wrap64_id)
  have d: "go_div (u - old) (int rttLength) \<le> B div int rttLength"
  proof (cases "0 \<le> u - old")
    case True
    then have "go_div (u - old) (int rttLength) = (u - old) div int rttLength"
      by (simp add: go_div_nonneg rttLength_def)
    also have "\<dots> \<le> B div int rttLength"
      using u old by (intro zdiv_mono1) (simp_all add: rttLength_def)
    finally show ?thesis .
  next
    case False
    then have "go_div (u - old) (int rttLength) = - ((old - u) div int rttLength)"
      by (simp add: go_div_def rttLength_def)
    moreover have "0 \<le> (old - u) div int rttLength" "0 \<le> B div int rttLength"
      using False u by (simp_all add: rttLength_def pos_imp_zdiv_nonneg_iff)
    ultimately show ?thesis by linarith
  qed
  have dl: "- B \<le> go_div (u - old) (int rttLength)"
  proof -
    have "\<bar>u - old\<bar> div int rttLength \<le> \<bar>u - old\<bar>"
      by (simp add: rttLength_def)
    moreover have "\<bar>u - old\<bar> \<le> B" using u old by simp
    moreover have "- (\<bar>u - old\<bar> div int rttLength) \<le> go_div (u - old) (int rttLength)"
      by (simp add: go_div_def rttLength_def sgn_if pos_imp_zdiv_nonneg_iff)
    ultimately show ?thesis by linarith
  qed
  have Bd: "B div int rttLength \<le> B"
    using u by (simp add: rttLength_def)
  have w3: "wrap64 (avg r + go_div (u - old) (int rttLength)) = avg r + go_div (u - old) (int rttLength)"
    using d dl Bd a0 assms(2,5) by (intro wrap64_id) simp_all
  have "avg (addTime t r) = max 0 (wrap64 (avg r + go_div (wrap64 (u - old)) (int rttLength)))"
    by (simp add: addTime_def Let_def u_def old_def[symmetric] w1 len)
  also have "\<dots> = max 0 (avg r + go_div (u - old) (int rttLength))"
    by (simp add: w2 w3)
  finally show ?thesis
    using d a0 u by (simp add: rttLength_def pos_imp_zdiv_nonneg_iff)
qed

text \<open>
  C27. Round-trip estimates stay bounded. While the measured times lie between 0 and a bound below
  \<open>2 ^ 62\<close>, \<open>addTime\<close> keeps the buffer full, every entry within the bound, the next index in range
  and the average non-negative; an entry at most doubles the one it replaces, and the average
  grows by at most a seventieth of the bound.
\<close>

theorem rtt_stays_bounded:
  assumes "rtt_bounded B r" and "B < 2 ^ 62" and "0 \<le> t" and "t \<le> B" and "avg r < 2 ^ 62"
  shows "rtt_bounded B (addTime t r)
    \<and> times (addTime t r) =
        (times r)[idx r := (if times r ! idx r = 0 then t else min t (2 * (times r ! idx r)))]
    \<and> 0 \<le> avg (addTime t r) \<and> avg (addTime t r) \<le> avg r + B div int rttLength"
  using addTime_stored[OF assms(1-4)] addTime_avg[OF assms] by (simp add: rtt_bounded_def rtt_ok_def)

theorem rtt_stays_bounded_witness:
  "rtt_bounded 1000 (addTime 700 newRtt) \<and> times (addTime 700 newRtt) = (replicate 70 0)[0 := 700]
    \<and> avg (addTime 700 newRtt) \<le> 14"
proof -
  have b: "rtt_bounded 1000 newRtt"
    by (simp add: rtt_bounded_def rtt_ok_new) (simp add: newRtt_def)
  show ?thesis
    using rtt_stays_bounded[OF b, of 700] by (simp add: newRtt_def rttLength_def nth_replicate)
qed

end
