(* ===== verification/Dbft_Context.thy ===== *)
theory Dbft_Context
  imports Message_Cache Rtt
begin

section \<open>The state of a node\<close>

text \<open>
  \<open>context.go\<close>: the \<open>Context\<close> of a consensus round, together with the fields that \<open>DBFT\<close>
  (\<open>dbft.go\<close>) embeds it with, and the callbacks of \<open>Config\<close> (\<open>config.go\<close>) that the algorithm
  calls.
\<close>

subsection \<open>What a node does to the outside\<close>

text \<open>
  Every call of a callback that acts on the outside is recorded in a log, newest first, and so
  is every call of the library's own interface, so the log is the history of the node. The
  callbacks that read the outside (clock, memory pool, ledger, verifiers) are functions of that
  history: the environment is an arbitrary strategy, which may answer differently after every
  recorded event.
\<close>

datatype 'tx call = CallStart u64 | CallReset u64 | CallTransaction 'tx
  | CallTimeout u32 u8 | CallNewTransaction | CallReceive payload

datatype ('tx, 'b, 'pb) effect = ECall "'tx call"
  | EBroadcast payload
  | ETimerReset u32 u8 duration
  | ETimerExtend duration
  | EStopTxFlow
  | ERequestTx "Uint256 list"
  | ESubscribeForTxs
  | EProcessPreBlock 'pb bool
  | EProcessBlock 'b bool

record HeightView =
  hvHeight :: u32
  hvView :: u8

text \<open>
  The state. In Go, \<open>block\<close> is either \<open>nil\<close> or the very object \<open>header\<close> points to (the only
  assignments are \<open>block = MakeHeader()\<close> and \<open>block = CreateBlock()\<close>), and likewise \<open>preBlock\<close>
  and \<open>preHeader\<close>: the object is kept once, in \<open>header\<close>, and \<open>blockSet\<close> says whether \<open>block\<close>
  points to it.
\<close>

record ('tx, 'b, 'pb, 'pub, 'priv) dbft =
  Priv :: "'priv option"
  Pub :: "'pub option"
  preHeader :: "'pb option"
  preBlockSet :: bool
  header :: "'b option"
  blockSet :: bool
  blockProcessed :: bool
  preBlockProcessed :: bool
  BlockIndex :: u32
  ViewNumber :: u8
  Validators :: "'pub list"
  MyIndex :: int
  PrimaryIndex :: nat
  PrevHash :: Uint256
  Timestamp :: u64
  Nonce :: u64
  TransactionHashes :: "Uint256 list option"
  MissingTransactions :: "Uint256 list"
  Transactions :: "(Uint256 \<times> 'tx) list"
  PreparationPayloads :: "payload option list"
  PreCommitPayloads :: "payload option list"
  CommitPayloads :: "payload option list"
  ChangeViewPayloads :: "payload option list"
  LastChangeViewPayloads :: "payload option list"
  LastSeenMessage :: "HeightView option list"
  lastBlockTimestamp :: u64
  lastBlockTime :: instant
  lastBlockIndex :: u32
  lastBlockView :: u8
  timePerBlock :: duration
  maxTimePerBlock :: duration
  txSubscriptionOn :: bool
  prepareSentTime :: instant
  rttEstimates :: rtt
  dcache :: cache
  recovering :: bool
  log :: "('tx, 'b, 'pb) effect list"

text \<open>
  The callbacks. \<open>WatchOnly\<close> and \<open>GetKeyPair\<close> answer the same during the life of a node; the
  methods of the \<open>Block\<close>, \<open>PreBlock\<close> and \<open>Transaction\<close> interfaces are functions of the object
  (a mutating method returns the changed object, and \<open>None\<close> or \<open>False\<close> stands for an error). \<open>MapIter\<close> is
  the order in which Go's \<open>range\<close> visits a map, \<open>Rand\<close> is \<open>crypto/rand\<close>, \<open>TimerNow\<close> is the \<open>Now\<close>
  of the configured timer and \<open>ClockNow\<close> the wall clock behind \<open>time.Since\<close>.
\<close>

record ('tx, 'b, 'pb, 'pub, 'priv) config =
  cfgTimePerBlock :: "('tx, 'b, 'pb) effect list \<Rightarrow> duration"
  cfgMaxTimePerBlock :: "(('tx, 'b, 'pb) effect list \<Rightarrow> duration) option"
  TimestampIncrement :: u64
  AntiMEVExtensionEnablingHeight :: int
  GetKeyPair :: "'pub list \<Rightarrow> int \<times> 'priv option \<times> 'pub option"
  NewPreBlockFromContext :: "('tx, 'b, 'pb, 'pub, 'priv) dbft \<Rightarrow> 'pb option"
  NewBlockFromContext :: "('tx, 'b, 'pb, 'pub, 'priv) dbft \<Rightarrow> 'b option"
  GetTx :: "('tx, 'b, 'pb) effect list \<Rightarrow> Uint256 \<Rightarrow> 'tx option"
  GetVerified :: "('tx, 'b, 'pb) effect list \<Rightarrow> 'tx list"
  VerifyPreBlock :: "('tx, 'b, 'pb) effect list \<Rightarrow> 'pb option \<Rightarrow> bool"
  VerifyBlock :: "('tx, 'b, 'pb) effect list \<Rightarrow> 'b option \<Rightarrow> bool"
  ProcessPreBlock :: "('tx, 'b, 'pb) effect list \<Rightarrow> 'pb \<Rightarrow> bool"
  ProcessBlock :: "('tx, 'b, 'pb) effect list \<Rightarrow> 'b \<Rightarrow> bool"
  cfgWatchOnly :: bool
  CurrentHeight :: "('tx, 'b, 'pb) effect list \<Rightarrow> u32"
  CurrentBlockHash :: "('tx, 'b, 'pb) effect list \<Rightarrow> Uint256"
  GetValidators :: "('tx, 'b, 'pb) effect list \<Rightarrow> 'pub list"
  VerifyPrepareRequest :: "('tx, 'b, 'pb) effect list \<Rightarrow> payload \<Rightarrow> bool"
  VerifyPrepareResponse :: "('tx, 'b, 'pb) effect list \<Rightarrow> payload \<Rightarrow> bool"
  VerifyPreCommit :: "('tx, 'b, 'pb) effect list \<Rightarrow> payload \<Rightarrow> bool"
  VerifyCommit :: "('tx, 'b, 'pb) effect list \<Rightarrow> payload \<Rightarrow> bool"
  TimerNow :: "('tx, 'b, 'pb) effect list \<Rightarrow> instant"
  ClockNow :: "('tx, 'b, 'pb) effect list \<Rightarrow> instant"
  Rand :: "('tx, 'b, 'pb) effect list \<Rightarrow> u64"
  MapIter :: "('tx, 'b, 'pb) effect list \<Rightarrow> payload list \<Rightarrow> payload list"
  payloadHash :: "payload \<Rightarrow> Uint256"
  txHash :: "'tx \<Rightarrow> Uint256"
  blockSign :: "('tx, 'b, 'pb) effect list \<Rightarrow> 'priv option \<Rightarrow> 'b \<Rightarrow> 'b option"
  blockSignature :: "'b \<Rightarrow> byte list"
  blockVerify :: "'pub \<Rightarrow> byte list \<Rightarrow> 'b \<Rightarrow> bool"
  blockSetTransactions :: "'tx option list \<Rightarrow> 'b \<Rightarrow> 'b"
  preBlockSetData :: "('tx, 'b, 'pb) effect list \<Rightarrow> 'priv option \<Rightarrow> 'pb \<Rightarrow> 'pb option"
  preBlockData :: "'pb \<Rightarrow> byte list"
  preBlockVerify :: "'pub \<Rightarrow> byte list \<Rightarrow> 'pb \<Rightarrow> bool"
  preBlockSetTransactions :: "'tx option list \<Rightarrow> 'pb \<Rightarrow> 'pb"

text \<open>
  The instance that \<open>New\<close> returns for a valid configuration: everything but the configuration
  has its zero value.
\<close>

definition newDbft ::
    "('tx, 'b, 'pb, 'pub, 'priv) config \<Rightarrow> ('tx, 'b, 'pb, 'pub, 'priv) dbft" where
  "newDbft cfg =
     \<lparr>Priv = None, Pub = None, preHeader = None, preBlockSet = False, header = None,
      blockSet = False, blockProcessed = False, preBlockProcessed = False, BlockIndex = 0,
      ViewNumber = 0, Validators = [], MyIndex = 0, PrimaryIndex = 0, PrevHash = 0,
      Timestamp = 0, Nonce = 0, TransactionHashes = None, MissingTransactions = [],
      Transactions = [], PreparationPayloads = [], PreCommitPayloads = [], CommitPayloads = [],
      ChangeViewPayloads = [], LastChangeViewPayloads = [], LastSeenMessage = [],
      lastBlockTimestamp = 0, lastBlockTime = zeroTime, lastBlockIndex = 0, lastBlockView = 0,
      timePerBlock = 0, maxTimePerBlock = 0, txSubscriptionOn = False,
      prepareSentTime = zeroTime, rttEstimates = newRtt, dcache = newCache,
      recovering = False, log = []\<rparr>"

subsection \<open>Quorums and the primary\<close>

definition ctxN :: "('tx, 'b, 'pb, 'pub, 'priv) dbft \<Rightarrow> nat" where
  "ctxN c = length (Validators c)"

definition ctxF :: "('tx, 'b, 'pb, 'pub, 'priv) dbft \<Rightarrow> nat" where
  "ctxF c = (length (Validators c) - 1) div 3"

definition ctxM :: "('tx, 'b, 'pb, 'pub, 'priv) dbft \<Rightarrow> nat" where
  "ctxM c = length (Validators c) - ctxF c"

text \<open>
  \<open>GetPrimaryIndex\<close> computes with 64-bit \<open>int\<close>s, which the 32-bit index and the 8-bit view
  cannot overflow; the remainder truncates. With no validators the code panics, which \<open>reset\<close>
  below spells out.
\<close>

definition GetPrimaryIndex :: "('tx, 'b, 'pb, 'pub, 'priv) dbft \<Rightarrow> u8 \<Rightarrow> nat" where
  "GetPrimaryIndex c view =
     (let p = go_rem (uint (BlockIndex c) - uint view) (int (length (Validators c)))
      in if p \<ge> 0 then nat p else nat (p + int (length (Validators c))))"

definition IsPrimary :: "('tx, 'b, 'pb, 'pub, 'priv) dbft \<Rightarrow> bool" where
  "IsPrimary c \<longleftrightarrow> MyIndex c = int (PrimaryIndex c)"

definition IsBackup :: "('tx, 'b, 'pb, 'pub, 'priv) dbft \<Rightarrow> bool" where
  "IsBackup c \<longleftrightarrow> MyIndex c \<ge> 0 \<and> \<not> IsPrimary c"

definition WatchOnly ::
    "('tx, 'b, 'pb, 'pub, 'priv) config \<Rightarrow> ('tx, 'b, 'pb, 'pub, 'priv) dbft \<Rightarrow> bool" where
  "WatchOnly cfg c \<longleftrightarrow> MyIndex c < 0 \<or> cfgWatchOnly cfg"

subsection \<open>Counting\<close>

definition CountCommitted :: "('tx, 'b, 'pb, 'pub, 'priv) dbft \<Rightarrow> nat" where
  "CountCommitted c =
     length (filter (\<lambda>i. slot (CommitPayloads c) i \<noteq> None \<or> slot (PreCommitPayloads c) i \<noteq> None)
               [0..<length (CommitPayloads c)])"

definition CountFailed :: "('tx, 'b, 'pb, 'pub, 'priv) dbft \<Rightarrow> nat" where
  "CountFailed c =
     length (filter (\<lambda>i. slot (CommitPayloads c) i = None \<and> slot (PreCommitPayloads c) i = None
                 \<and> (case slot (LastSeenMessage c) i of
                      None \<Rightarrow> True
                    | Some hv \<Rightarrow> hvHeight hv < BlockIndex c \<or> hvView hv < ViewNumber c))
               [0..<length (LastSeenMessage c)])"

definition MoreThanFNodesCommittedOrLost :: "('tx, 'b, 'pb, 'pub, 'priv) dbft \<Rightarrow> bool" where
  "MoreThanFNodesCommittedOrLost c \<longleftrightarrow> CountCommitted c + CountFailed c > ctxF c"

subsection \<open>Where the node stands in the round\<close>

definition RequestSentOrReceived :: "('tx, 'b, 'pb, 'pub, 'priv) dbft \<Rightarrow> bool" where
  "RequestSentOrReceived c \<longleftrightarrow> slot (PreparationPayloads c) (PrimaryIndex c) \<noteq> None"

definition ResponseSent ::
    "('tx, 'b, 'pb, 'pub, 'priv) config \<Rightarrow> ('tx, 'b, 'pb, 'pub, 'priv) dbft \<Rightarrow> bool" where
  "ResponseSent cfg c \<longleftrightarrow>
     \<not> WatchOnly cfg c \<and> slot (PreparationPayloads c) (nat (MyIndex c)) \<noteq> None"

definition PreCommitSent ::
    "('tx, 'b, 'pb, 'pub, 'priv) config \<Rightarrow> ('tx, 'b, 'pb, 'pub, 'priv) dbft \<Rightarrow> bool" where
  "PreCommitSent cfg c \<longleftrightarrow>
     \<not> WatchOnly cfg c \<and> slot (PreCommitPayloads c) (nat (MyIndex c)) \<noteq> None"

definition CommitSent ::
    "('tx, 'b, 'pb, 'pub, 'priv) config \<Rightarrow> ('tx, 'b, 'pb, 'pub, 'priv) dbft \<Rightarrow> bool" where
  "CommitSent cfg c \<longleftrightarrow>
     \<not> WatchOnly cfg c \<and> slot (CommitPayloads c) (nat (MyIndex c)) \<noteq> None"

definition BlockSent :: "('tx, 'b, 'pb, 'pub, 'priv) dbft \<Rightarrow> bool" where
  "BlockSent c \<longleftrightarrow> blockProcessed c"

definition ViewChanging ::
    "('tx, 'b, 'pb, 'pub, 'priv) config \<Rightarrow> ('tx, 'b, 'pb, 'pub, 'priv) dbft \<Rightarrow> bool" where
  "ViewChanging cfg c \<longleftrightarrow>
     \<not> WatchOnly cfg c
     \<and> (case slot (ChangeViewPayloads c) (nat (MyIndex c)) of
          None \<Rightarrow> False
        | Some cv \<Rightarrow> NewViewNumber cv > ViewNumber c)"

definition NotAcceptingPayloadsDueToViewChanging ::
    "('tx, 'b, 'pb, 'pub, 'priv) config \<Rightarrow> ('tx, 'b, 'pb, 'pub, 'priv) dbft \<Rightarrow> bool" where
  "NotAcceptingPayloadsDueToViewChanging cfg c \<longleftrightarrow>
     ViewChanging cfg c \<and> \<not> MoreThanFNodesCommittedOrLost c"

text \<open>\<open>len\<close> of the Go map is the number of keys, which the association list holds once each.\<close>

definition hasAllTransactions :: "('tx, 'b, 'pb, 'pub, 'priv) dbft \<Rightarrow> bool" where
  "hasAllTransactions c \<longleftrightarrow> length (elems (TransactionHashes c)) = length (Transactions c)"

definition isAntiMEVExtensionEnabled ::
    "('tx, 'b, 'pb, 'pub, 'priv) config \<Rightarrow> ('tx, 'b, 'pb, 'pub, 'priv) dbft \<Rightarrow> bool" where
  "isAntiMEVExtensionEnabled cfg c \<longleftrightarrow>
     AntiMEVExtensionEnablingHeight cfg \<ge> 0
     \<and> (word_of_int (AntiMEVExtensionEnablingHeight cfg) :: u32) \<le> BlockIndex c"

end
