(* ===== verification/Dbft_Round.thy ===== *)
theory Dbft_Round
  imports Dbft_Context
begin

section \<open>Operations of the context\<close>

text \<open>
  The state-changing half of \<open>context.go\<close>: \<open>reset\<close>, \<open>Fill\<close> and the construction of headers and
  blocks, and the two timer helpers of \<open>dbft.go\<close>.
\<close>

subsection \<open>Elementary statements\<close>

definition emit :: "('tx, 'b, 'pb) effect \<Rightarrow> ('tx, 'b, 'pb, 'pub, 'priv) dbft act" where
  "emit e c = Ok (c\<lparr>log := e # log c\<rparr>)"

definition subscribeForTransactions :: "('tx, 'b, 'pb, 'pub, 'priv) dbft act" where
  "subscribeForTransactions c = Ok (c\<lparr>txSubscriptionOn := True, log := ESubscribeForTxs # log c\<rparr>)"

definition unsubscribeFromTransactions :: "('tx, 'b, 'pb, 'pub, 'priv) dbft act" where
  "unsubscribeFromTransactions c = Ok (c\<lparr>txSubscriptionOn := False\<rparr>)"

definition changeTimer :: "duration \<Rightarrow> ('tx, 'b, 'pb, 'pub, 'priv) dbft act" where
  "changeTimer delay c = emit (ETimerReset (BlockIndex c) (ViewNumber c) delay) c"

definition extendTimer ::
    "('tx, 'b, 'pb, 'pub, 'priv) config \<Rightarrow> int \<Rightarrow> ('tx, 'b, 'pb, 'pub, 'priv) dbft act" where
  "extendTimer cfg cnt c =
     (if \<not> CommitSent cfg c \<and> (\<not> isAntiMEVExtensionEnabled cfg c \<or> \<not> PreCommitSent cfg c)
         \<and> \<not> ViewChanging cfg c
      then emit (ETimerExtend (go_div (wrap64 (cnt * timePerBlock c)) (int (ctxM c)))) c
      else Ok c)"

subsection \<open>\<open>reset\<close>\<close>

definition emptyReusableSlice :: "'a option list \<Rightarrow> nat \<Rightarrow> 'a option list" where
  "emptyReusableSlice s n = (if length s = n then map (\<lambda>_. None) s else replicate n None)"

text \<open>The branch of \<open>reset\<close> for view 0: a new height.\<close>

definition resetHeight ::
    "('tx, 'b, 'pb, 'pub, 'priv) config \<Rightarrow> ('tx, 'b, 'pb, 'pub, 'priv) dbft
       \<Rightarrow> ('tx, 'b, 'pb, 'pub, 'priv) dbft" where
  "resetHeight cfg c =
     (let vs = GetValidators cfg (log c); n = length vs
      in c\<lparr>PrevHash := CurrentBlockHash cfg (log c),
           BlockIndex := CurrentHeight cfg (log c) + 1,
           Validators := vs,
           timePerBlock := cfgTimePerBlock cfg (log c),
           maxTimePerBlock :=
             (case cfgMaxTimePerBlock cfg of None \<Rightarrow> maxTimePerBlock c | Some f \<Rightarrow> f (log c)),
           LastChangeViewPayloads := emptyReusableSlice (LastChangeViewPayloads c) n,
           LastSeenMessage := emptyReusableSlice (LastSeenMessage c) n,
           blockProcessed := False,
           preBlockProcessed := False\<rparr>)"

text \<open>The other branch: the ChangeView payloads that led to the new view are kept.\<close>

definition resetChangeViews ::
    "u8 \<Rightarrow> ('tx, 'b, 'pb, 'pub, 'priv) dbft \<Rightarrow> ('tx, 'b, 'pb, 'pub, 'priv) dbft" where
  "resetChangeViews view c =
     c\<lparr>LastChangeViewPayloads :=
         map (\<lambda>i. case slot (ChangeViewPayloads c) i of
                    None \<Rightarrow> None
                  | Some m \<Rightarrow> (if NewViewNumber m \<ge> view then Some m else None))
           [0..<length (Validators c)]\<rparr>"

text \<open>
  The parts of \<open>reset\<close> before the branch, and after it: the key pair, the payload slices and the
  proposal are renewed, then the view is entered.
\<close>

definition resetBegin ::
    "u64 \<Rightarrow> ('tx, 'b, 'pb, 'pub, 'priv) dbft \<Rightarrow> ('tx, 'b, 'pb, 'pub, 'priv) dbft" where
  "resetBegin ts c =
     c\<lparr>MyIndex := - 1, prepareSentTime := zeroTime, lastBlockTimestamp := ts,
       txSubscriptionOn := False\<rparr>"

definition resetRound ::
    "('tx, 'b, 'pb, 'pub, 'priv) config \<Rightarrow> u8 \<Rightarrow> ('tx, 'b, 'pb, 'pub, 'priv) dbft
       \<Rightarrow> ('tx, 'b, 'pb, 'pub, 'priv) dbft" where
  "resetRound cfg view c =
     (let n = length (Validators c)
      in case GetKeyPair cfg (Validators c) of
           (i, priv, pub) \<Rightarrow>
             c\<lparr>MyIndex := i, Priv := priv, Pub := pub,
               blockSet := False, preBlockSet := False, header := None, preHeader := None,
               ChangeViewPayloads := emptyReusableSlice (ChangeViewPayloads c) n,
               PreCommitPayloads :=
                 (if view = 0 then emptyReusableSlice (PreCommitPayloads c) n
                  else PreCommitPayloads c),
               CommitPayloads :=
                 (if view = 0 then emptyReusableSlice (CommitPayloads c) n
                  else CommitPayloads c),
               PreparationPayloads := emptyReusableSlice (PreparationPayloads c) n,
               Transactions := [], TransactionHashes := None, MissingTransactions := []\<rparr>)"

definition enterView ::
    "u8 \<Rightarrow> ('tx, 'b, 'pb, 'pub, 'priv) dbft \<Rightarrow> ('tx, 'b, 'pb, 'pub, 'priv) dbft" where
  "enterView view c = c\<lparr>PrimaryIndex := GetPrimaryIndex c view, ViewNumber := view\<rparr>"

definition noteOwn :: "('tx, 'b, 'pb, 'pub, 'priv) dbft act" where
  "noteOwn c =
     (if MyIndex c \<ge> 0
      then if nat (MyIndex c) < length (LastSeenMessage c)
           then Ok (c\<lparr>LastSeenMessage := (LastSeenMessage c)[nat (MyIndex c) :=
                      Some \<lparr>hvHeight = BlockIndex c, hvView = ViewNumber c\<rparr>]\<rparr>)
           else Stop IndexOutOfRange
      else Ok c)"

definition reset ::
    "('tx, 'b, 'pb, 'pub, 'priv) config \<Rightarrow> u8 \<Rightarrow> u64 \<Rightarrow> ('tx, 'b, 'pb, 'pub, 'priv) dbft act" where
  "reset cfg view ts c =
     (let c1 = resetBegin ts c;
          c2 = (if view = 0 then resetHeight cfg c1 else resetChangeViews view c1);
          c3 = resetRound cfg view c2
      in if Validators c3 = [] then Stop DivisionByZero else noteOwn (enterView view c3))"

subsection \<open>\<open>Fill\<close>\<close>

definition getTimestamp ::
    "('tx, 'b, 'pb, 'pub, 'priv) config \<Rightarrow> ('tx, 'b, 'pb, 'pub, 'priv) dbft \<Rightarrow> stop + u64" where
  "getTimestamp cfg c =
     (if TimestampIncrement cfg = 0 then Stop DivisionByZero
      else Ok (word_of_int (TimerNow cfg (log c)) div TimestampIncrement cfg * TimestampIncrement cfg))"

definition Fill ::
    "('tx, 'b, 'pb, 'pub, 'priv) config \<Rightarrow> bool \<Rightarrow> ('tx, 'b, 'pb, 'pub, 'priv) dbft
       \<Rightarrow> stop + bool \<times> ('tx, 'b, 'pb, 'pub, 'priv) dbft" where
  "Fill cfg force c =
     (let txx = GetVerified cfg (log c)
      in if cfgMaxTimePerBlock cfg \<noteq> None \<and> \<not> force \<and> txx = [] then Ok (False, c)
         else
           let ts = lastBlockTimestamp c + TimestampIncrement cfg;
               c1 = c\<lparr>Nonce := Rand cfg (log c),
                     TransactionHashes := Some (map (txHash cfg) txx),
                     Transactions := fold (\<lambda>tx. AList.update (txHash cfg tx) tx) txx (Transactions c),
                     Timestamp := ts\<rparr>
           in thenDo (getTimestamp cfg c1) (\<lambda>now.
                Ok (True, if now > ts then c1\<lparr>Timestamp := now\<rparr> else c1)))"

subsection \<open>Headers and blocks\<close>

definition MakeHeader ::
    "('tx, 'b, 'pb, 'pub, 'priv) config \<Rightarrow> ('tx, 'b, 'pb, 'pub, 'priv) dbft
       \<Rightarrow> 'b option \<times> ('tx, 'b, 'pb, 'pub, 'priv) dbft" where
  "MakeHeader cfg c =
     (if header c = None then
        if \<not> RequestSentOrReceived c then (None, c)
        else if isAntiMEVExtensionEnabled cfg c \<and> \<not> preBlockProcessed c then (None, c)
        else let h = NewBlockFromContext cfg c in (h, c\<lparr>header := h\<rparr>)
      else (header c, c))"

definition MakePreHeader ::
    "('tx, 'b, 'pb, 'pub, 'priv) config \<Rightarrow> ('tx, 'b, 'pb, 'pub, 'priv) dbft
       \<Rightarrow> 'pb option \<times> ('tx, 'b, 'pb, 'pub, 'priv) dbft" where
  "MakePreHeader cfg c =
     (if preHeader c = None then
        if \<not> RequestSentOrReceived c then (None, c)
        else let h = NewPreBlockFromContext cfg c in (h, c\<lparr>preHeader := h\<rparr>)
      else (preHeader c, c))"

definition proposedTransactions :: "('tx, 'b, 'pb, 'pub, 'priv) dbft \<Rightarrow> 'tx option list" where
  "proposedTransactions c = map (map_of (Transactions c)) (elems (TransactionHashes c))"

definition CreateBlock ::
    "('tx, 'b, 'pb, 'pub, 'priv) config \<Rightarrow> ('tx, 'b, 'pb, 'pub, 'priv) dbft
       \<Rightarrow> 'b option \<times> ('tx, 'b, 'pb, 'pub, 'priv) dbft" where
  "CreateBlock cfg c =
     (if blockSet c then (header c, c)
      else case MakeHeader cfg c of
             (None, c1) \<Rightarrow> (None, c1)
           | (Some h, c1) \<Rightarrow>
               let b = blockSetTransactions cfg (proposedTransactions c1) h
               in (Some b, c1\<lparr>header := Some b, blockSet := True\<rparr>))"

definition CreatePreBlock ::
    "('tx, 'b, 'pb, 'pub, 'priv) config \<Rightarrow> ('tx, 'b, 'pb, 'pub, 'priv) dbft
       \<Rightarrow> 'pb option \<times> ('tx, 'b, 'pb, 'pub, 'priv) dbft" where
  "CreatePreBlock cfg c =
     (if preBlockSet c then (preHeader c, c)
      else case MakePreHeader cfg c of
             (None, c1) \<Rightarrow> (None, c1)
           | (Some h, c1) \<Rightarrow>
               let b = preBlockSetTransactions cfg (proposedTransactions c1) h
               in (Some b, c1\<lparr>preHeader := Some b, preBlockSet := True\<rparr>))"

lemma emptyReusableSlice_eq [simp]: "emptyReusableSlice s n = replicate n None"
  by (auto simp: emptyReusableSlice_def map_replicate_const)

subsection \<open>What the parts of \<open>reset\<close> do to the fields\<close>

lemma resetBegin_sel:
  "BlockIndex (resetBegin ts c) = BlockIndex c"
  "Validators (resetBegin ts c) = Validators c"
  "CommitPayloads (resetBegin ts c) = CommitPayloads c"
  "PreCommitPayloads (resetBegin ts c) = PreCommitPayloads c"
  "ChangeViewPayloads (resetBegin ts c) = ChangeViewPayloads c"
  "blockProcessed (resetBegin ts c) = blockProcessed c"
  "preBlockProcessed (resetBegin ts c) = preBlockProcessed c"
  "LastSeenMessage (resetBegin ts c) = LastSeenMessage c"
  "dcache (resetBegin ts c) = dcache c"
  "log (resetBegin ts c) = log c"
  "recovering (resetBegin ts c) = recovering c"
  "lastBlockIndex (resetBegin ts c) = lastBlockIndex c"
  "lastBlockTime (resetBegin ts c) = lastBlockTime c"
  "lastBlockView (resetBegin ts c) = lastBlockView c"
  "rttEstimates (resetBegin ts c) = rttEstimates c"
  "timePerBlock (resetBegin ts c) = timePerBlock c"
  "maxTimePerBlock (resetBegin ts c) = maxTimePerBlock c"
  by (simp_all add: resetBegin_def)

lemma resetHeight_sel:
  "BlockIndex (resetHeight cfg c) = CurrentHeight cfg (log c) + 1"
  "Validators (resetHeight cfg c) = GetValidators cfg (log c)"
  "LastChangeViewPayloads (resetHeight cfg c) = replicate (length (GetValidators cfg (log c))) None"
  "LastSeenMessage (resetHeight cfg c) = replicate (length (GetValidators cfg (log c))) None"
  "\<not> blockProcessed (resetHeight cfg c)" "\<not> preBlockProcessed (resetHeight cfg c)"
  "dcache (resetHeight cfg c) = dcache c"
  "log (resetHeight cfg c) = log c"
  "recovering (resetHeight cfg c) = recovering c"
  "lastBlockIndex (resetHeight cfg c) = lastBlockIndex c"
  "lastBlockTime (resetHeight cfg c) = lastBlockTime c"
  "lastBlockView (resetHeight cfg c) = lastBlockView c"
  "rttEstimates (resetHeight cfg c) = rttEstimates c"
  by (simp_all add: resetHeight_def Let_def)

lemma resetChangeViews_sel:
  "length (LastChangeViewPayloads (resetChangeViews view c)) = ctxN c"
  "BlockIndex (resetChangeViews view c) = BlockIndex c"
  "Validators (resetChangeViews view c) = Validators c"
  "CommitPayloads (resetChangeViews view c) = CommitPayloads c"
  "PreCommitPayloads (resetChangeViews view c) = PreCommitPayloads c"
  "blockProcessed (resetChangeViews view c) = blockProcessed c"
  "preBlockProcessed (resetChangeViews view c) = preBlockProcessed c"
  "LastSeenMessage (resetChangeViews view c) = LastSeenMessage c"
  "dcache (resetChangeViews view c) = dcache c"
  "log (resetChangeViews view c) = log c"
  "recovering (resetChangeViews view c) = recovering c"
  "lastBlockIndex (resetChangeViews view c) = lastBlockIndex c"
  "lastBlockTime (resetChangeViews view c) = lastBlockTime c"
  "lastBlockView (resetChangeViews view c) = lastBlockView c"
  "rttEstimates (resetChangeViews view c) = rttEstimates c"
  "timePerBlock (resetChangeViews view c) = timePerBlock c"
  "maxTimePerBlock (resetChangeViews view c) = maxTimePerBlock c"
  by (simp_all add: resetChangeViews_def ctxN_def)

lemma resetRound_sel:
  "MyIndex (resetRound cfg view c) = fst (GetKeyPair cfg (Validators c))"
  "header (resetRound cfg view c) = None" "preHeader (resetRound cfg view c) = None"
  "\<not> blockSet (resetRound cfg view c)" "\<not> preBlockSet (resetRound cfg view c)"
  "ChangeViewPayloads (resetRound cfg view c) = replicate (ctxN c) None"
  "PreparationPayloads (resetRound cfg view c) = replicate (ctxN c) None"
  "CommitPayloads (resetRound cfg view c) =
     (if view = 0 then replicate (ctxN c) None else CommitPayloads c)"
  "PreCommitPayloads (resetRound cfg view c) =
     (if view = 0 then replicate (ctxN c) None else PreCommitPayloads c)"
  "Transactions (resetRound cfg view c) = []" "TransactionHashes (resetRound cfg view c) = None"
  "MissingTransactions (resetRound cfg view c) = []"
  "BlockIndex (resetRound cfg view c) = BlockIndex c"
  "Validators (resetRound cfg view c) = Validators c"
  "LastChangeViewPayloads (resetRound cfg view c) = LastChangeViewPayloads c"
  "LastSeenMessage (resetRound cfg view c) = LastSeenMessage c"
  "blockProcessed (resetRound cfg view c) = blockProcessed c"
  "preBlockProcessed (resetRound cfg view c) = preBlockProcessed c"
  "dcache (resetRound cfg view c) = dcache c"
  "log (resetRound cfg view c) = log c"
  "recovering (resetRound cfg view c) = recovering c"
  "lastBlockIndex (resetRound cfg view c) = lastBlockIndex c"
  "lastBlockTime (resetRound cfg view c) = lastBlockTime c"
  "lastBlockView (resetRound cfg view c) = lastBlockView c"
  "rttEstimates (resetRound cfg view c) = rttEstimates c"
  "timePerBlock (resetRound cfg view c) = timePerBlock c"
  "maxTimePerBlock (resetRound cfg view c) = maxTimePerBlock c"
  by (simp_all add: resetRound_def Let_def ctxN_def split: prod.splits)

lemmas reset_parts = resetBegin_sel resetHeight_sel resetChangeViews_sel resetRound_sel

text \<open>The state that \<open>reset\<close> builds before its last statement.\<close>

definition resetState ::
    "('tx, 'b, 'pb, 'pub, 'priv) config \<Rightarrow> u8 \<Rightarrow> u64 \<Rightarrow> ('tx, 'b, 'pb, 'pub, 'priv) dbft
       \<Rightarrow> ('tx, 'b, 'pb, 'pub, 'priv) dbft" where
  "resetState cfg view ts c =
     resetRound cfg view
       (if view = 0 then resetHeight cfg (resetBegin ts c) else resetChangeViews view (resetBegin ts c))"

lemma noteOwn_Ok:
  assumes "noteOwn c = Inr d"
  obtains seen where "length seen = length (LastSeenMessage c)" and "d = c\<lparr>LastSeenMessage := seen\<rparr>"
    and "MyIndex c < int (length seen)"
proof (cases "0 \<le> MyIndex c")
  case True
  let ?seen = "(LastSeenMessage c)[nat (MyIndex c) :=
                 Some \<lparr>hvHeight = BlockIndex c, hvView = ViewNumber c\<rparr>]"
  have lt: "nat (MyIndex c) < length (LastSeenMessage c)" and d: "c\<lparr>LastSeenMessage := ?seen\<rparr> = d"
    using assms True unfolding noteOwn_def by (simp_all split: if_split_asm)
  show thesis
    by (rule that[of ?seen]) (use lt True d in simp_all)
next
  case False
  have d: "c = d" using assms False unfolding noteOwn_def by (simp only: if_False sum.inject)
  show thesis
    by (rule that[of "LastSeenMessage c"]) (use False d in simp_all)
qed

lemma reset_OkE:
  assumes "reset cfg view ts c = Inr d"
  obtains seen where "ctxN (resetState cfg view ts c) \<noteq> 0"
    and "MyIndex (resetState cfg view ts c) < int (length seen)"
    and "length seen = length (LastSeenMessage (resetState cfg view ts c))"
    and "d = (enterView view (resetState cfg view ts c))\<lparr>LastSeenMessage := seen\<rparr>"
proof -
  let ?e = "enterView view (resetState cfg view ts c)"
  have ne: "Validators (resetState cfg view ts c) \<noteq> []" and own: "noteOwn ?e = Inr d"
    using assms unfolding reset_def resetState_def Let_def by (simp_all split: if_split_asm)
  have sel: "MyIndex ?e = MyIndex (resetState cfg view ts c)"
    "LastSeenMessage ?e = LastSeenMessage (resetState cfg view ts c)"
    by (simp_all add: enterView_def)
  obtain seen where seen: "length seen = length (LastSeenMessage ?e)" "d = ?e\<lparr>LastSeenMessage := seen\<rparr>"
    "MyIndex ?e < int (length seen)"
    by (rule noteOwn_Ok[OF own])
  show thesis
    by (rule that[of seen]) (use ne seen sel in \<open>simp_all add: ctxN_def\<close>)
qed

end
