(* ===== verification/Recovery_Message.thy ===== *)
theory Recovery_Message
  imports Payload
begin

section \<open>Recovery messages\<close>

text \<open>
  \<open>internal/consensus/recovery_message.go\<close>: how a recovery message is packed from the payloads of
  an epoch (\<open>AddPayload\<close>) and how the payloads are rebuilt from it on the receiving side.
\<close>

subsection \<open>Packing\<close>

text \<open>The hash of a payload (\<open>Payload.Hash\<close>) is the parameter \<open>payloadHash\<close>.\<close>

definition AddPayload ::
    "(payload \<Rightarrow> Uint256) \<Rightarrow> payload \<Rightarrow> recoveryMessage \<Rightarrow> stop + recoveryMessage" where
  "AddPayload payloadHash p m =
     (case cmType p of
        PrepareRequestType \<Rightarrow>
          (case GetPrepareRequest (body p) of
             None \<Rightarrow> Stop TypeAssertion
           | Some r \<Rightarrow> Ok (m\<lparr>rmPrepareRequest := Some r, rmPreparationHash := Some (payloadHash p)\<rparr>))
      | PrepareResponseType \<Rightarrow>
          Ok (m\<lparr>rmPreparationPayloads :=
                 rmPreparationPayloads m @ [\<lparr>prcValidatorIndex = validatorIndex p\<rparr>]\<rparr>)
      | ChangeViewType \<Rightarrow>
          Ok (m\<lparr>rmChangeViewPayloads :=
                 rmChangeViewPayloads m @
                   [\<lparr>cvcValidatorIndex = validatorIndex p, cvcOriginalViewNumber = viewNumber p,
                     cvcTimestamp = 0\<rparr>]\<rparr>)
      | PreCommitType \<Rightarrow>
          (case GetPreCommit (body p) of
             None \<Rightarrow> Stop TypeAssertion
           | Some c \<Rightarrow>
               Ok (m\<lparr>rmPreCommitPayloads :=
                      rmPreCommitPayloads m @
                        [\<lparr>pccViewNumber = viewNumber p, pccValidatorIndex = validatorIndex p,
                          pccData = preCommit_Data c\<rparr>]\<rparr>))
      | CommitType \<Rightarrow>
          (case GetCommit (body p) of
             None \<Rightarrow> Stop TypeAssertion
           | Some c \<Rightarrow>
               Ok (m\<lparr>rmCommitPayloads :=
                      rmCommitPayloads m @
                        [\<lparr>ccViewNumber = viewNumber p, ccValidatorIndex = validatorIndex p,
                          ccSignature = copyInto signatureSize (signature c)\<rparr>]\<rparr>))
      | _ \<Rightarrow> Ok m)"

text \<open>\<open>makeRecoveryMessage\<close> adds payloads in a loop.\<close>

fun AddPayloads ::
    "(payload \<Rightarrow> Uint256) \<Rightarrow> payload list \<Rightarrow> recoveryMessage \<Rightarrow> stop + recoveryMessage" where
  "AddPayloads payloadHash [] m = Ok m"
| "AddPayloads payloadHash (p # ps) m =
     thenDo (AddPayload payloadHash p m) (AddPayloads payloadHash ps)"

subsection \<open>Unpacking\<close>

text \<open>
  \<open>fromPayload\<close> builds a payload with the height and the view of the recovery message that
  carries it.
\<close>

definition fromPayload :: "MessageType \<Rightarrow> payload \<Rightarrow> consensusMessage \<Rightarrow> payload" where
  "fromPayload t recovery m =
     \<lparr>cmType = t, viewNumber = viewNumber recovery, body = m, version = 0, validatorIndex = 0,
      prevHash = 0, height = height recovery\<rparr>"

definition rm_GetPrepareRequest :: "recoveryMessage \<Rightarrow> payload \<Rightarrow> u16 \<Rightarrow> payload option" where
  "rm_GetPrepareRequest m p ind =
     (case rmPrepareRequest m of
        None \<Rightarrow> None
      | Some r \<Rightarrow>
          Some (SetValidatorIndex ind
            (fromPayload PrepareRequestType p
              (PrepareRequestMsg
                \<lparr>transactionHashes = transactionHashes r, reqNonce = reqNonce r,
                 reqTimestamp = nanoSecToSec (prepareRequest_Timestamp r)\<rparr>))))"

definition rm_GetPrepareResponses :: "recoveryMessage \<Rightarrow> payload \<Rightarrow> payload list" where
  "rm_GetPrepareResponses m p =
     (case rmPreparationHash m of
        None \<Rightarrow> []
      | Some h \<Rightarrow>
          map (\<lambda>resp. SetValidatorIndex (prcValidatorIndex resp)
                (fromPayload PrepareResponseType p (PrepareResponseMsg \<lparr>preparationHash = h\<rparr>)))
            (rmPreparationPayloads m))"

definition rm_GetChangeViews :: "recoveryMessage \<Rightarrow> payload \<Rightarrow> payload list" where
  "rm_GetChangeViews m p =
     map (\<lambda>cv. SetValidatorIndex (cvcValidatorIndex cv)
           (fromPayload ChangeViewType p
             (ChangeViewMsg \<lparr>newViewNumber = cvcOriginalViewNumber cv + 1,
                             cvTimestamp = cvcTimestamp cv\<rparr>)))
       (rmChangeViewPayloads m)"

fun mapPreCommits :: "payload \<Rightarrow> preCommitCompact list \<Rightarrow> stop + payload list" where
  "mapPreCommits p [] = Ok []"
| "mapPreCommits p (c # cs) =
     thenDo (uint32BE (pccData c)) (\<lambda>w.
     thenDo (mapPreCommits p cs) (\<lambda>rest.
       Ok (SetValidatorIndex (pccValidatorIndex c)
             (fromPayload PreCommitType p (PreCommitMsg \<lparr>magic = w\<rparr>)) # rest)))"

definition rm_GetPreCommits :: "recoveryMessage \<Rightarrow> payload \<Rightarrow> stop + payload list" where
  "rm_GetPreCommits m p = mapPreCommits p (rmPreCommitPayloads m)"

definition rm_GetCommits :: "recoveryMessage \<Rightarrow> payload \<Rightarrow> payload list" where
  "rm_GetCommits m p =
     map (\<lambda>c. SetValidatorIndex (ccValidatorIndex c)
           (fromPayload CommitType p (CommitMsg \<lparr>signature = ccSignature c\<rparr>)))
       (rmCommitPayloads m)"

subsection \<open>What the rebuilt payloads look like\<close>

lemma fromPayload_sel [simp]:
  "cmType (fromPayload t p m) = t"
  "viewNumber (fromPayload t p m) = viewNumber p"
  "body (fromPayload t p m) = m"
  "height (fromPayload t p m) = height p"
  by (simp_all add: fromPayload_def)

lemma wellTyped_SetValidatorIndex [simp]: "wellTyped (SetValidatorIndex i p) = wellTyped p"
  by (simp add: wellTyped_def)

lemma rm_GetPrepareRequest_Some:
  "rm_GetPrepareRequest m p ind = Some q \<Longrightarrow>
     cmType q = PrepareRequestType \<and> wellTyped q \<and> viewNumber q = viewNumber p
     \<and> height q = height p \<and> validatorIndex q = ind"
  by (auto simp: rm_GetPrepareRequest_def wellTyped_def split: option.splits)

lemma rm_GetPrepareResponses_mem:
  "q \<in> set (rm_GetPrepareResponses m p) \<Longrightarrow>
     cmType q = PrepareResponseType \<and> wellTyped q \<and> viewNumber q = viewNumber p \<and> height q = height p"
  by (auto simp: rm_GetPrepareResponses_def wellTyped_def split: option.splits)

lemma rm_GetChangeViews_mem:
  "q \<in> set (rm_GetChangeViews m p) \<Longrightarrow>
     cmType q = ChangeViewType \<and> wellTyped q \<and> viewNumber q = viewNumber p \<and> height q = height p"
  by (auto simp: rm_GetChangeViews_def wellTyped_def)

lemma mapPreCommits_mem:
  "mapPreCommits p cs = Inr qs \<Longrightarrow> q \<in> set qs \<Longrightarrow>
     cmType q = PreCommitType \<and> wellTyped q \<and> viewNumber q = viewNumber p \<and> height q = height p"
  by (induction p cs arbitrary: qs rule: mapPreCommits.induct)
    (auto simp: thenDo_Ok_iff wellTyped_def)

lemma rm_GetPreCommits_mem:
  "rm_GetPreCommits m p = Inr qs \<Longrightarrow> q \<in> set qs \<Longrightarrow>
     cmType q = PreCommitType \<and> wellTyped q \<and> viewNumber q = viewNumber p \<and> height q = height p"
  by (simp add: rm_GetPreCommits_def mapPreCommits_mem)

lemma uint32BE_no_fuel: "uint32BE bs \<noteq> Inl OutOfFuel"
  by (simp add: uint32BE_def)

lemma mapPreCommits_no_fuel: "mapPreCommits p cs \<noteq> Inl OutOfFuel"
  by (induction p cs rule: mapPreCommits.induct)
    (auto simp: thenDo_Stop_iff uint32BE_no_fuel)

lemma rm_GetCommits_mem:
  "q \<in> set (rm_GetCommits m p) \<Longrightarrow>
     cmType q = CommitType \<and> wellTyped q \<and> viewNumber q = viewNumber p \<and> height q = height p"
  by (auto simp: rm_GetCommits_def wellTyped_def)

lemma AddPayload_no_fuel: "AddPayload ph p m \<noteq> Inl OutOfFuel"
  by (auto simp: AddPayload_def split: MessageType.splits option.splits)

lemma AddPayloads_no_fuel: "AddPayloads ph ps m \<noteq> Inl OutOfFuel"
  by (induction ph ps m rule: AddPayloads.induct)
    (auto simp: thenDo_Stop_iff AddPayload_no_fuel)

lemma AddPayloads_append:
  "AddPayloads ph (ps @ qs) m = thenDo (AddPayloads ph ps m) (AddPayloads ph qs)"
  by (induction ps arbitrary: m) (simp_all add: thenDo_def split: sum.split)

subsection \<open>What a receiver rebuilds\<close>

text \<open>The payload as it comes out of a recovery message \<open>p\<close>: with its height and view.\<close>

definition carried :: "payload \<Rightarrow> payload \<Rightarrow> payload" where
  "carried p x = x\<lparr>viewNumber := viewNumber p, height := height p, version := 0, prevHash := 0\<rparr>"

definition carriedView :: "payload \<Rightarrow> payload \<Rightarrow> payload" where
  "carriedView p x =
     (carried p x)\<lparr>body := ChangeViewMsg \<lparr>newViewNumber = viewNumber x + 1, cvTimestamp = 0\<rparr>\<rparr>"

abbreviation ofType :: "MessageType \<Rightarrow> payload list \<Rightarrow> payload list" where
  "ofType t \<equiv> filter (\<lambda>x. cmType x = t)"

text \<open>The packed fields after adding \<open>ps\<close>.\<close>

definition packs :: "(payload \<Rightarrow> Uint256) \<Rightarrow> payload list \<Rightarrow> recoveryMessage \<Rightarrow> recoveryMessage \<Rightarrow> bool" where
  "packs ph ps m m' \<longleftrightarrow>
     rmPreparationPayloads m' =
       rmPreparationPayloads m @ map (\<lambda>x. \<lparr>prcValidatorIndex = validatorIndex x\<rparr>) (ofType PrepareResponseType ps)
     \<and> rmChangeViewPayloads m' =
       rmChangeViewPayloads m
       @ map (\<lambda>x. \<lparr>cvcValidatorIndex = validatorIndex x, cvcOriginalViewNumber = viewNumber x, cvcTimestamp = 0\<rparr>)
           (ofType ChangeViewType ps)
     \<and> rmPreCommitPayloads m' =
       rmPreCommitPayloads m
       @ map (\<lambda>x. \<lparr>pccViewNumber = viewNumber x, pccValidatorIndex = validatorIndex x,
                   pccData = preCommit_Data (the (GetPreCommit (body x)))\<rparr>)
           (ofType PreCommitType ps)
     \<and> rmCommitPayloads m' =
       rmCommitPayloads m
       @ map (\<lambda>x. \<lparr>ccViewNumber = viewNumber x, ccValidatorIndex = validatorIndex x,
                   ccSignature = copyInto signatureSize (signature (the (GetCommit (body x))))\<rparr>)
           (ofType CommitType ps)
     \<and> rmPrepareRequest m' =
       (if ofType PrepareRequestType ps = [] then rmPrepareRequest m
        else GetPrepareRequest (body (last (ofType PrepareRequestType ps))))
     \<and> rmPreparationHash m' =
       (if ofType PrepareRequestType ps = [] then rmPreparationHash m
        else Some (ph (last (ofType PrepareRequestType ps))))"

lemma AddPayload_packs: "AddPayload ph p m = Inr m' \<Longrightarrow> packs ph [p] m m'"
  by (auto simp: AddPayload_def packs_def split: MessageType.splits option.splits)

lemma packs_trans: "packs ph ps m m' \<Longrightarrow> packs ph qs m' m'' \<Longrightarrow> packs ph (ps @ qs) m m''"
  by (simp add: packs_def)

lemma AddPayloads_packs: "AddPayloads ph ps m = Inr m' \<Longrightarrow> packs ph ps m m'"
proof (induction ps arbitrary: m)
  case Nil
  then show ?case by (simp add: packs_def)
next
  case (Cons p ps)
  then obtain t where t: "AddPayload ph p m = Inr t" "AddPayloads ph ps t = Inr m'"
    by (auto simp: thenDo_Ok_iff)
  show ?case using packs_trans[OF AddPayload_packs[OF t(1)] Cons.IH[OF t(2)]] by simp
qed

lemma AddPayloads_Ok:
  "\<forall>p \<in> set ps. wellTyped p \<Longrightarrow> \<exists>m'. AddPayloads ph ps m = Inr m'"
proof (induction ps arbitrary: m)
  case (Cons p ps)
  have "\<exists>t. AddPayload ph p m = Inr t"
    using Cons.prems wellTyped_getters[of p]
    by (auto simp: AddPayload_def split: MessageType.splits)
  then show ?case using Cons by auto
qed simp

lemma mapPreCommits_carried:
  "\<forall>x \<in> set xs. wellTyped x \<and> cmType x = PreCommitType \<Longrightarrow>
     mapPreCommits p (map (\<lambda>x. \<lparr>pccViewNumber = viewNumber x, pccValidatorIndex = validatorIndex x,
                   pccData = preCommit_Data (the (GetPreCommit (body x)))\<rparr>) xs) = Ok (map (carried p) xs)"
proof (induction xs)
  case (Cons x xs)
  then obtain c where c: "body x = PreCommitMsg c" using wellTyped_getters(4) by auto
  then show ?case using Cons
    by (simp add: preCommit_Data_def uint32BE_put carried_def SetValidatorIndex_def fromPayload_def)
qed simp

lemma recovered_views:
  "AddPayloads ph ps (NewRecoveryMessage None) = Inr m \<Longrightarrow>
     map NewViewNumber (rm_GetChangeViews m q) = map (\<lambda>x. viewNumber x + 1) (ofType ChangeViewType ps)"
  using AddPayloads_packs[of ph ps "NewRecoveryMessage None" m]
  by (simp add: packs_def NewRecoveryMessage_def rm_GetChangeViews_def NewViewNumber_def)


definition samplePayloads :: "payload list" where
  "samplePayloads =
     [NewConsensusPayload CommitType 1 2 0 (CommitMsg (NewCommit [7])),
      NewConsensusPayload ChangeViewType 1 3 0 (ChangeViewMsg \<lparr>newViewNumber = 1, cvTimestamp = 5\<rparr>)]"


text \<open>
  C26. Recovered ChangeViews drift. Packing any well-typed payloads into a recovery message gives
  back each ChangeView as a request for the view after its sender's, but with the view of the
  recovery message \<open>p\<close> as its own. When the receiver packs what it recovered into a recovery message
  of its own, every such ChangeView comes out as a request for the view after \<open>p\<close>'s, whatever its
  sender asked for.
\<close>

theorem recovered_views_drift:
  assumes "\<forall>x \<in> set ps. wellTyped x"
  shows "\<exists>m m'. AddPayloads ph ps (NewRecoveryMessage None) = Ok m
    \<and> map NewViewNumber (rm_GetChangeViews m p) = map (\<lambda>x. viewNumber x + 1) (ofType ChangeViewType ps)
    \<and> AddPayloads ph (rm_GetChangeViews m p) (NewRecoveryMessage None) = Ok m'
    \<and> map NewViewNumber (rm_GetChangeViews m' q)
        = replicate (length (ofType ChangeViewType ps)) (viewNumber p + 1)"
proof -
  obtain m where m: "AddPayloads ph ps (NewRecoveryMessage None) = Inr m"
    using AddPayloads_Ok[OF assms] by blast
  have mem: "\<forall>x \<in> set (rm_GetChangeViews m p).
      cmType x = ChangeViewType \<and> wellTyped x \<and> viewNumber x = viewNumber p"
    using rm_GetChangeViews_mem by blast
  then obtain m' where m': "AddPayloads ph (rm_GetChangeViews m p) (NewRecoveryMessage None) = Inr m'"
    using AddPayloads_Ok by blast
  have first: "map NewViewNumber (rm_GetChangeViews m p) = map (\<lambda>x. viewNumber x + 1) (ofType ChangeViewType ps)"
    using recovered_views[OF m] .
  then have len: "length (rm_GetChangeViews m p) = length (ofType ChangeViewType ps)"
    by (metis length_map)
  have "ofType ChangeViewType (rm_GetChangeViews m p) = rm_GetChangeViews m p"
    using mem by (simp add: filter_id_conv)
  then have "map NewViewNumber (rm_GetChangeViews m' q)
      = map (\<lambda>x. viewNumber p + 1) (rm_GetChangeViews m p)"
    using recovered_views[OF m', of q] mem by simp
  then have "map NewViewNumber (rm_GetChangeViews m' q)
      = replicate (length (ofType ChangeViewType ps)) (viewNumber p + 1)"
    using len by (simp add: map_replicate_const)
  then show ?thesis using m m' first by simp
qed

theorem recovered_views_drift_witness:
  "\<exists>m m'. AddPayloads (\<lambda>x. 0) samplePayloads (NewRecoveryMessage None) = Ok m
    \<and> map NewViewNumber (rm_GetChangeViews m (NewConsensusPayload RecoveryMessageType 1 0 4 NilPayload)) = [1]
    \<and> AddPayloads (\<lambda>x. 0) (rm_GetChangeViews m (NewConsensusPayload RecoveryMessageType 1 0 4 NilPayload))
        (NewRecoveryMessage None) = Ok m'
    \<and> map NewViewNumber (rm_GetChangeViews m' (NewConsensusPayload RecoveryMessageType 1 0 4 NilPayload)) = [5]"
proof -
  let ?p = "NewConsensusPayload RecoveryMessageType 1 0 4 NilPayload"
  have w: "\<forall>x\<in>set samplePayloads. wellTyped x"
    by (simp add: samplePayloads_def wellTyped_def NewConsensusPayload_def)
  have "map (\<lambda>x. viewNumber x + 1) (ofType ChangeViewType samplePayloads) = [1]"
    and "viewNumber ?p + 1 = 5" and "length (ofType ChangeViewType samplePayloads) = 1"
    by (simp_all add: samplePayloads_def NewConsensusPayload_def)
  then show ?thesis
    using recovered_views_drift[OF w, of "\<lambda>x. 0" ?p ?p] by simp
qed

end
