(* ===== verification/Dbft_Send.thy ===== *)
theory Dbft_Send
  imports Dbft_Round Recovery_Message
begin

section \<open>Sending messages and checking quorums\<close>

text \<open>
  The statements of \<open>send.go\<close> and \<open>check.go\<close> that do not restart the consensus process, with
  \<open>processMissingTx\<close> and the two verification loops of \<open>dbft.go\<close>. \<open>broadcast\<close> sets the sender's
  index on the message it sends; the stored copy shares the object in Go, and already carries
  that index (\<open>SetValidatorIndex_own\<close>).
\<close>

subsection \<open>Broadcasting\<close>

definition broadcast :: "payload \<Rightarrow> ('tx, 'b, 'pb, 'pub, 'priv) dbft act" where
  "broadcast msg c = emit (EBroadcast (SetValidatorIndex (word_of_int (MyIndex c)) msg)) c"

text \<open>\<open>defaultNewConsensusPayload\<close> of \<open>internal/consensus\<close>.\<close>

definition ownPayload ::
    "('tx, 'b, 'pb, 'pub, 'priv) dbft \<Rightarrow> MessageType \<Rightarrow> consensusMessage \<Rightarrow> payload" where
  "ownPayload c t m = NewConsensusPayload t (BlockIndex c) (word_of_int (MyIndex c)) (ViewNumber c) m"

text \<open>\<open>uint64(d.Timer.Now().UnixNano())\<close>\<close>

definition nowNano ::
    "('tx, 'b, 'pb, 'pub, 'priv) config \<Rightarrow> ('tx, 'b, 'pb, 'pub, 'priv) dbft \<Rightarrow> u64" where
  "nowNano cfg c = word_of_int (TimerNow cfg (log c))"

subsection \<open>Constructing messages\<close>

definition makePrepareRequest ::
    "('tx, 'b, 'pb, 'pub, 'priv) config \<Rightarrow> bool \<Rightarrow> ('tx, 'b, 'pb, 'pub, 'priv) dbft
       \<Rightarrow> stop + payload option \<times> ('tx, 'b, 'pb, 'pub, 'priv) dbft" where
  "makePrepareRequest cfg force c =
     thenDo (Fill cfg force c) (\<lambda>(filled, c1).
       if \<not> filled then Ok (None, c1)
       else Ok (Some (ownPayload c1 PrepareRequestType (PrepareRequestMsg
                  (NewPrepareRequest (Timestamp c1) (Nonce c1) (TransactionHashes c1)))), c1))"

definition makeChangeView ::
    "('tx, 'b, 'pb, 'pub, 'priv) config \<Rightarrow> u64 \<Rightarrow> ChangeViewReason
       \<Rightarrow> ('tx, 'b, 'pb, 'pub, 'priv) dbft \<Rightarrow> payload \<times> ('tx, 'b, 'pb, 'pub, 'priv) dbft" where
  "makeChangeView cfg ts reason c =
     (let msg = ownPayload c ChangeViewType
                  (ChangeViewMsg (NewChangeView (ViewNumber c + 1) reason ts))
      in (msg, c\<lparr>ChangeViewPayloads := (ChangeViewPayloads c)[nat (MyIndex c) := Some msg]\<rparr>))"

definition makePrepareResponse ::
    "('tx, 'b, 'pb, 'pub, 'priv) config \<Rightarrow> ('tx, 'b, 'pb, 'pub, 'priv) dbft
       \<Rightarrow> stop + payload \<times> ('tx, 'b, 'pb, 'pub, 'priv) dbft" where
  "makePrepareResponse cfg c =
     (case slot (PreparationPayloads c) (PrimaryIndex c) of
        None \<Rightarrow> Stop NilDereference
      | Some req \<Rightarrow>
          let msg = ownPayload c PrepareResponseType
                      (PrepareResponseMsg (NewPrepareResponse (payloadHash cfg req)))
          in Ok (msg, c\<lparr>PreparationPayloads :=
                         (PreparationPayloads c)[nat (MyIndex c) := Some msg]\<rparr>))"

text \<open>\<open>makePreCommit\<close> and \<open>makeCommit\<close> return \<open>None\<close> where the code returns an error.\<close>

definition makePreCommit ::
    "('tx, 'b, 'pb, 'pub, 'priv) config \<Rightarrow> ('tx, 'b, 'pb, 'pub, 'priv) dbft
       \<Rightarrow> stop + payload option \<times> ('tx, 'b, 'pb, 'pub, 'priv) dbft" where
  "makePreCommit cfg c =
     (case slot (PreCommitPayloads c) (nat (MyIndex c)) of
        Some msg \<Rightarrow> Ok (Some msg, c)
      | None \<Rightarrow>
          (case CreatePreBlock cfg c of
             (None, c1) \<Rightarrow> Ok (None, c1)
           | (Some pb, c1) \<Rightarrow>
               (case preBlockSetData cfg (log c1) (Priv c1) pb of
                  None \<Rightarrow> Ok (None, c1)
                | Some pb' \<Rightarrow>
                    thenDo (NewPreCommit (preBlockData cfg pb')) (\<lambda>pc.
                      let c2 = c1\<lparr>preHeader := Some pb'\<rparr>
                      in Ok (Some (ownPayload c2 PreCommitType (PreCommitMsg pc)), c2)))))"

definition makeCommit ::
    "('tx, 'b, 'pb, 'pub, 'priv) config \<Rightarrow> ('tx, 'b, 'pb, 'pub, 'priv) dbft
       \<Rightarrow> payload option \<times> ('tx, 'b, 'pb, 'pub, 'priv) dbft" where
  "makeCommit cfg c =
     (case slot (CommitPayloads c) (nat (MyIndex c)) of
        Some msg \<Rightarrow> (Some msg, c)
      | None \<Rightarrow>
          (case MakeHeader cfg c of
             (None, c1) \<Rightarrow> (None, c1)
           | (Some b, c1) \<Rightarrow>
               (case blockSign cfg (log c1) (Priv c1) b of
                  None \<Rightarrow> (None, c1)
                | Some b' \<Rightarrow>
                    let c2 = c1\<lparr>header := Some b'\<rparr>
                    in (Some (ownPayload c2 CommitType (CommitMsg (NewCommit (blockSignature cfg b')))),
                        c2))))"

subsection \<open>Sending PreCommit and Commit\<close>

definition sendPreCommit ::
    "('tx, 'b, 'pb, 'pub, 'priv) config \<Rightarrow> ('tx, 'b, 'pb, 'pub, 'priv) dbft act" where
  "sendPreCommit cfg c =
     thenDo (makePreCommit cfg c) (\<lambda>(m, c1).
       case m of
         None \<Rightarrow> Ok c1
       | Some msg \<Rightarrow>
           broadcast msg
             (c1\<lparr>PreCommitPayloads := (PreCommitPayloads c1)[nat (MyIndex c1) := Some msg]\<rparr>))"

definition sendCommit ::
    "('tx, 'b, 'pb, 'pub, 'priv) config \<Rightarrow> ('tx, 'b, 'pb, 'pub, 'priv) dbft act" where
  "sendCommit cfg c =
     (case makeCommit cfg c of
        (None, c1) \<Rightarrow> Ok c1
      | (Some msg, c1) \<Rightarrow>
          broadcast msg (c1\<lparr>CommitPayloads := (CommitPayloads c1)[nat (MyIndex c1) := Some msg]\<rparr>))"

definition sendPrepareResponse ::
    "('tx, 'b, 'pb, 'pub, 'priv) config \<Rightarrow> ('tx, 'b, 'pb, 'pub, 'priv) dbft act" where
  "sendPrepareResponse cfg c =
     thenDo (makePrepareResponse cfg c) (\<lambda>(msg, c1). steps [emit EStopTxFlow, broadcast msg] c1)"

subsection \<open>Verifying stored payloads\<close>

text \<open>One iteration of each loop, and the loops over the indexes of the slices.\<close>

definition verifyPreCommitAt ::
    "('tx, 'b, 'pb, 'pub, 'priv) config \<Rightarrow> nat \<Rightarrow> ('tx, 'b, 'pb, 'pub, 'priv) dbft act" where
  "verifyPreCommitAt cfg i c =
     (case slot (PreCommitPayloads c) i of
        None \<Rightarrow> Ok c
      | Some m \<Rightarrow>
          if viewNumber m = ViewNumber c then
            (case CreatePreBlock cfg c of
               (None, c1) \<Rightarrow> Ok c1
             | (Some pb, c1) \<Rightarrow>
                 (case GetPreCommit (body m) of
                    None \<Rightarrow> Stop TypeAssertion
                  | Some pc \<Rightarrow>
                      if preBlockVerify cfg (Validators c1 ! unat (validatorIndex m))
                           (preCommit_Data pc) pb
                      then Ok c1
                      else Ok (c1\<lparr>PreCommitPayloads := (PreCommitPayloads c1)[i := None]\<rparr>)))
          else Ok c)"

definition verifyPreCommitPayloadsAgainstPreBlock ::
    "('tx, 'b, 'pb, 'pub, 'priv) config \<Rightarrow> ('tx, 'b, 'pb, 'pub, 'priv) dbft act" where
  "verifyPreCommitPayloadsAgainstPreBlock cfg c =
     (if \<not> hasAllTransactions c then Ok c
      else forEach (verifyPreCommitAt cfg) [0..<length (PreCommitPayloads c)] c)"

definition verifyCommitAt ::
    "('tx, 'b, 'pb, 'pub, 'priv) config \<Rightarrow> nat \<Rightarrow> ('tx, 'b, 'pb, 'pub, 'priv) dbft act" where
  "verifyCommitAt cfg i c =
     (case slot (CommitPayloads c) i of
        None \<Rightarrow> Ok c
      | Some m \<Rightarrow>
          if viewNumber m = ViewNumber c then
            (case MakeHeader cfg c of
               (None, c1) \<Rightarrow> Ok c1
             | (Some h, c1) \<Rightarrow>
                 (case GetCommit (body m) of
                    None \<Rightarrow> Stop TypeAssertion
                  | Some cm \<Rightarrow>
                      if blockVerify cfg (Validators c1 ! unat (validatorIndex m)) (signature cm) h
                      then Ok c1
                      else Ok (c1\<lparr>CommitPayloads := (CommitPayloads c1)[i := None]\<rparr>)))
          else Ok c)"

definition verifyCommitPayloadsAgainstHeader ::
    "('tx, 'b, 'pb, 'pub, 'priv) config \<Rightarrow> ('tx, 'b, 'pb, 'pub, 'priv) dbft act" where
  "verifyCommitPayloadsAgainstHeader cfg c =
     forEach (verifyCommitAt cfg) [0..<length (CommitPayloads c)] c"

subsection \<open>Checking quorums\<close>

text \<open>The number of stored payloads that are of the current view.\<close>

definition countView :: "u8 \<Rightarrow> payload option list \<Rightarrow> nat" where
  "countView v ms = length (filter (\<lambda>m. viewNumber m = v) (present ms))"

definition checkCommit ::
    "('tx, 'b, 'pb, 'pub, 'priv) config \<Rightarrow> ('tx, 'b, 'pb, 'pub, 'priv) dbft act" where
  "checkCommit cfg c =
     (if \<not> hasAllTransactions c then Ok c
      else if countView (ViewNumber c) (CommitPayloads c) < ctxM c then Ok c
      else case CreateBlock cfg c of
             (None, c1) \<Rightarrow> Stop NilDereference
           | (Some b, c1) \<Rightarrow>
               let ok = ProcessBlock cfg (log c1) b
               in thenDo (emit (EProcessBlock b ok) c1) (\<lambda>c2.
                    if ok then Ok (c2\<lparr>blockProcessed := True\<rparr>)
                    else if isAntiMEVExtensionEnabled cfg c2 then Ok c2
                    else Stop LoggerFatal))"

text \<open>
  The middle of \<open>checkPreCommit\<close>: the PreBlock is handed to the user once per height; the flag
  says whether the handler goes on.
\<close>

definition processPreBlock ::
    "('tx, 'b, 'pb, 'pub, 'priv) config \<Rightarrow> 'pb option \<Rightarrow> ('tx, 'b, 'pb, 'pub, 'priv) dbft
       \<Rightarrow> stop + bool \<times> ('tx, 'b, 'pb, 'pub, 'priv) dbft" where
  "processPreBlock cfg preBlock c =
     (if preBlockProcessed c then Ok (True, c)
      else case preBlock of
             None \<Rightarrow> Stop NilDereference
           | Some pb \<Rightarrow>
               let ok = ProcessPreBlock cfg (log c) pb;
                   c1 = c\<lparr>log := EProcessPreBlock pb ok # log c\<rparr>
               in if ok then Ok (True, c1\<lparr>preBlockProcessed := True\<rparr>) else Ok (False, c1))"

definition checkPreCommit ::
    "('tx, 'b, 'pb, 'pub, 'priv) config \<Rightarrow> ('tx, 'b, 'pb, 'pub, 'priv) dbft act" where
  "checkPreCommit cfg c =
     (if \<not> hasAllTransactions c then Ok c
      else if countView (ViewNumber c) (PreCommitPayloads c) < ctxM c then Ok c
      else case CreatePreBlock cfg c of
             (pb, c1) \<Rightarrow>
               thenDo (processPreBlock cfg pb c1) (\<lambda>(go, c2).
                 if go \<and> PreCommitSent cfg c2 then
                   steps [verifyCommitPayloadsAgainstHeader cfg, sendCommit cfg,
                          (\<lambda>c. changeTimer (timePerBlock c) c), checkCommit cfg] c2
                 else Ok c2))"

definition hasRequest :: "payload option list \<Rightarrow> bool" where
  "hasRequest ms \<longleftrightarrow> (\<exists>m \<in> set (present ms). cmType m = PrepareRequestType)"

text \<open>The time at which the preparations of a view were first checked.\<close>

definition noteBlockTime ::
    "('tx, 'b, 'pb, 'pub, 'priv) config \<Rightarrow> ('tx, 'b, 'pb, 'pub, 'priv) dbft
       \<Rightarrow> ('tx, 'b, 'pb, 'pub, 'priv) dbft" where
  "noteBlockTime cfg c =
     (if lastBlockIndex c \<noteq> BlockIndex c \<or> lastBlockView c \<noteq> ViewNumber c
      then c\<lparr>lastBlockTime := TimerNow cfg (log c),
              lastBlockIndex := BlockIndex c, lastBlockView := ViewNumber c\<rparr>
      else c)"

definition checkPrepare ::
    "('tx, 'b, 'pb, 'pub, 'priv) config \<Rightarrow> ('tx, 'b, 'pb, 'pub, 'priv) dbft act" where
  "checkPrepare cfg c0 =
     (let c = noteBlockTime cfg c0
      in if \<not> hasAllTransactions c then Ok c
         else if hasRequest (PreparationPayloads c)
              \<and> countView (ViewNumber c) (PreparationPayloads c) \<ge> ctxM c
         then if isAntiMEVExtensionEnabled cfg c
              then steps [sendPreCommit cfg, (\<lambda>c. changeTimer (timePerBlock c) c),
                          checkPreCommit cfg] c
              else steps [sendCommit cfg, (\<lambda>c. changeTimer (timePerBlock c) c), checkCommit cfg] c
         else Ok c)"

subsection \<open>Sending PrepareRequest\<close>

text \<open>The part of \<open>sendPrepareRequest\<close> after the message was made.\<close>

definition proposeRequest ::
    "('tx, 'b, 'pb, 'pub, 'priv) config \<Rightarrow> payload \<Rightarrow> ('tx, 'b, 'pb, 'pub, 'priv) dbft act" where
  "proposeRequest cfg msg =
     steps
       [unsubscribeFromTransactions,
        (\<lambda>c. Ok (c\<lparr>PreparationPayloads := (PreparationPayloads c)[nat (MyIndex c) := Some msg]\<rparr>)),
        broadcast msg,
        (\<lambda>c. Ok (c\<lparr>prepareSentTime := TimerNow cfg (log c)\<rparr>)),
        (\<lambda>c. changeTimer
               (if ViewNumber c = 0
                then wrap64 (shl64 (timePerBlock c) (unat (ViewNumber c + 1)) - timePerBlock c)
                else shl64 (timePerBlock c) (unat (ViewNumber c + 1))) c),
        checkPrepare cfg]"

definition sendPrepareRequest ::
    "('tx, 'b, 'pb, 'pub, 'priv) config \<Rightarrow> bool \<Rightarrow> ('tx, 'b, 'pb, 'pub, 'priv) dbft act" where
  "sendPrepareRequest cfg force c =
     thenDo (makePrepareRequest cfg force c) (\<lambda>(m, c1).
       case m of
         Some msg \<Rightarrow> proposeRequest cfg msg c1
       | None \<Rightarrow>
           thenDo (subscribeForTransactions c1) (\<lambda>c2.
           thenDo (makePrepareRequest cfg force c2) (\<lambda>(m', c3).
             case m' of
               Some msg \<Rightarrow> proposeRequest cfg msg c3
             | None \<Rightarrow> changeTimer (wrap64 (maxTimePerBlock c3 - timePerBlock c3)) c3)))"

subsection \<open>Missing transactions and recovery\<close>

definition lookupProposed ::
    "('tx, 'b, 'pb, 'pub, 'priv) config \<Rightarrow> Uint256 \<Rightarrow> ('tx, 'b, 'pb, 'pub, 'priv) dbft act" where
  "lookupProposed cfg h c =
     (if map_of (Transactions c) h \<noteq> None then Ok c
      else case GetTx cfg (log c) h of
             None \<Rightarrow> Ok (c\<lparr>MissingTransactions := MissingTransactions c @ [h]\<rparr>)
           | Some tx \<Rightarrow> Ok (c\<lparr>Transactions := AList.update h tx (Transactions c)\<rparr>))"

definition processMissingTx ::
    "('tx, 'b, 'pb, 'pub, 'priv) config \<Rightarrow> ('tx, 'b, 'pb, 'pub, 'priv) dbft act" where
  "processMissingTx cfg c =
     thenDo (forEach (lookupProposed cfg) (elems (TransactionHashes c)) c) (\<lambda>c1.
       if MissingTransactions c1 \<noteq> [] then emit (ERequestTx (MissingTransactions c1)) c1 else Ok c1)"

definition sendRecoveryRequest ::
    "('tx, 'b, 'pb, 'pub, 'priv) config \<Rightarrow> ('tx, 'b, 'pb, 'pub, 'priv) dbft act" where
  "sendRecoveryRequest cfg c =
     steps
       [(\<lambda>c. if RequestSentOrReceived c \<and> \<not> hasAllTransactions c then processMissingTx cfg c else Ok c),
        (\<lambda>c. broadcast (ownPayload c RecoveryRequestType
                (RecoveryRequestMsg (NewRecoveryRequest (nowNano cfg c)))) c)] c"

definition recoveryPayloads ::
    "('tx, 'b, 'pb, 'pub, 'priv) config \<Rightarrow> ('tx, 'b, 'pb, 'pub, 'priv) dbft \<Rightarrow> payload list" where
  "recoveryPayloads cfg c =
     present (PreparationPayloads c) @ present (LastChangeViewPayloads c)
     @ (if PreCommitSent cfg c then present (PreCommitPayloads c) else [])
     @ (if CommitSent cfg c then present (CommitPayloads c) else [])"

definition makeRecoveryMessage ::
    "('tx, 'b, 'pb, 'pub, 'priv) config \<Rightarrow> ('tx, 'b, 'pb, 'pub, 'priv) dbft \<Rightarrow> stop + payload" where
  "makeRecoveryMessage cfg c =
     thenDo (AddPayloads (payloadHash cfg) (recoveryPayloads cfg c) (NewRecoveryMessage None))
       (\<lambda>r. Ok (ownPayload c RecoveryMessageType (RecoveryMessageMsg r)))"

definition sendRecoveryMessage ::
    "('tx, 'b, 'pb, 'pub, 'priv) config \<Rightarrow> ('tx, 'b, 'pb, 'pub, 'priv) dbft act" where
  "sendRecoveryMessage cfg c = thenDo (makeRecoveryMessage cfg c) (\<lambda>msg. broadcast msg c)"

end
