(* ===== verification/Dbft_Core.thy ===== *)
theory Dbft_Core
  imports Dbft_Send
begin

section \<open>The consensus process\<close>

text \<open>
  \<open>dbft.go\<close>, with \<open>sendChangeView\<close> (\<open>send.go\<close>) and \<open>checkChangeView\<close> (\<open>check.go\<close>): the handlers
  and the interface of the library. \<open>OnReceive\<close> calls itself, through the replay of cached
  messages when the view changes and through the payloads of a recovery message. The handlers
  take the function to call, \<open>rcv\<close>, as an argument, and \<open>OnReceiveN\<close> closes the recursion with a
  bound on its nesting depth; \<open>Dbft_Fuel\<close> shows that \<open>maxNesting\<close> always suffices.
\<close>

subsection \<open>Starting a round\<close>

text \<open>\<open>range\<close> over a map visits the entries in the order of the environment's choice.\<close>

definition mapOrder ::
    "('tx, 'b, 'pb, 'pub, 'priv) config \<Rightarrow> ('tx, 'b, 'pb, 'pub, 'priv) dbft
       \<Rightarrow> (u16 \<times> payload) list \<Rightarrow> payload list" where
  "mapOrder cfg c kvs =
     (let ms = map snd kvs; xs = MapIter cfg (log c) ms in if mset xs = mset ms then xs else ms)"

definition replayBox ::
    "('tx, 'b, 'pb, 'pub, 'priv) config \<Rightarrow> (payload \<Rightarrow> ('tx, 'b, 'pb, 'pub, 'priv) dbft act)
       \<Rightarrow> (u16 \<times> payload) list \<Rightarrow> ('tx, 'b, 'pb, 'pub, 'priv) dbft act" where
  "replayBox cfg rcv kvs c = forEach rcv (mapOrder cfg c kvs) c"

definition replayCached ::
    "('tx, 'b, 'pb, 'pub, 'priv) config \<Rightarrow> (payload \<Rightarrow> ('tx, 'b, 'pb, 'pub, 'priv) dbft act)
       \<Rightarrow> ('tx, 'b, 'pb, 'pub, 'priv) dbft act" where
  "replayCached cfg rcv c =
     (case getHeight (BlockIndex c) (dcache c) of
        (None, ca) \<Rightarrow> Ok (c\<lparr>dcache := ca\<rparr>)
      | (Some b, ca) \<Rightarrow>
          steps [replayBox cfg rcv (inPrepare b), replayBox cfg rcv (inChViews b),
                 replayBox cfg rcv (inPreCommit b), replayBox cfg rcv (inCommit b)]
            (c\<lparr>dcache := ca\<rparr>))"

definition roundTimeout ::
    "('tx, 'b, 'pb, 'pub, 'priv) config \<Rightarrow> u8 \<Rightarrow> ('tx, 'b, 'pb, 'pub, 'priv) dbft \<Rightarrow> duration" where
  "roundTimeout cfg view c =
     (let t0 = (if IsPrimary c \<and> \<not> recovering c
                then (if view = 0 then timePerBlock c else 0)
                else shl64 (timePerBlock c) (unat (ViewNumber c + 1)))
      in if lastBlockIndex c + 1 = BlockIndex c
         then let diff = time_sub (TimerNow cfg (log c)) (lastBlockTime c);
                  t1 = wrap64 (t0 - diff);
                  t2 = wrap64 (t1 - go_div (avg (rttEstimates c)) 2)
              in max 0 t2
         else t0)"

definition initializeConsensus ::
    "('tx, 'b, 'pb, 'pub, 'priv) config \<Rightarrow> (payload \<Rightarrow> ('tx, 'b, 'pb, 'pub, 'priv) dbft act)
       \<Rightarrow> u8 \<Rightarrow> u64 \<Rightarrow> ('tx, 'b, 'pb, 'pub, 'priv) dbft act" where
  "initializeConsensus cfg rcv view ts =
     steps [reset cfg view ts, emit EStopTxFlow, replayCached cfg rcv,
            (\<lambda>c. if WatchOnly cfg c then Ok c else changeTimer (roundTimeout cfg view c) c)]"

subsection \<open>Changing the view\<close>

text \<open>\<open>checkChangeView\<close> (\<open>check.go\<close>) and \<open>sendChangeView\<close> (\<open>send.go\<close>).\<close>

definition countChangeViews :: "u8 \<Rightarrow> payload option list \<Rightarrow> nat" where
  "countChangeViews view ms = length (filter (\<lambda>m. NewViewNumber m \<ge> view) (present ms))"

definition agreeChangeView ::
    "('tx, 'b, 'pb, 'pub, 'priv) config \<Rightarrow> u8 \<Rightarrow> ('tx, 'b, 'pb, 'pub, 'priv) dbft act" where
  "agreeChangeView cfg view c =
     (if WatchOnly cfg c then Ok c
      else case slot (ChangeViewPayloads c) (nat (MyIndex c)) of
             None \<Rightarrow> Ok c
           | Some msg \<Rightarrow>
               if NewViewNumber msg < view
               then (case makeChangeView cfg (nowNano cfg c) CVChangeAgreement c of
                       (cv, c1) \<Rightarrow> broadcast cv c1)
               else Ok c)"

definition checkChangeView ::
    "('tx, 'b, 'pb, 'pub, 'priv) config \<Rightarrow> (payload \<Rightarrow> ('tx, 'b, 'pb, 'pub, 'priv) dbft act)
       \<Rightarrow> u8 \<Rightarrow> ('tx, 'b, 'pb, 'pub, 'priv) dbft act" where
  "checkChangeView cfg rcv view c =
     (if ViewNumber c \<ge> view then Ok c
      else if countChangeViews view (ChangeViewPayloads c) < ctxM c then Ok c
      else steps [agreeChangeView cfg view,
                  (\<lambda>c. initializeConsensus cfg rcv view (lastBlockTimestamp c) c)] c)"

definition requestChangeView ::
    "('tx, 'b, 'pb, 'pub, 'priv) config \<Rightarrow> ChangeViewReason \<Rightarrow> ('tx, 'b, 'pb, 'pub, 'priv) dbft act" where
  "requestChangeView cfg reason c =
     (case makeChangeView cfg (nowNano cfg c) reason c of
        (msg, c1) \<Rightarrow> steps [emit EStopTxFlow, broadcast msg] c1)"

definition sendChangeView ::
    "('tx, 'b, 'pb, 'pub, 'priv) config \<Rightarrow> (payload \<Rightarrow> ('tx, 'b, 'pb, 'pub, 'priv) dbft act)
       \<Rightarrow> ChangeViewReason \<Rightarrow> ('tx, 'b, 'pb, 'pub, 'priv) dbft act" where
  "sendChangeView cfg rcv reason c =
     (if WatchOnly cfg c then Ok c
      else
        let newView = ViewNumber c + 1
        in thenDo (changeTimer (shl64 (timePerBlock c) (unat (newView + 1))) c) (\<lambda>c1.
             if reason = CVTimeout \<and> CountCommitted c1 + CountFailed c1 > ctxF c1
             then sendRecoveryRequest cfg c1
             else
               let reason' = (if \<not> hasAllTransactions c1 \<and> reason = CVTimeout
                              then CVTxNotFound else reason)
               in steps [requestChangeView cfg reason', checkChangeView cfg rcv newView] c1))"

subsection \<open>The proposed block\<close>

definition createAndCheckBlock ::
    "('tx, 'b, 'pb, 'pub, 'priv) config \<Rightarrow> (payload \<Rightarrow> ('tx, 'b, 'pb, 'pub, 'priv) dbft act)
       \<Rightarrow> ('tx, 'b, 'pb, 'pub, 'priv) dbft \<Rightarrow> stop + bool \<times> ('tx, 'b, 'pb, 'pub, 'priv) dbft" where
  "createAndCheckBlock cfg rcv c =
     (let (ok, c1) =
        (if isAntiMEVExtensionEnabled cfg c
         then (case CreatePreBlock cfg c of (b, c1) \<Rightarrow> (VerifyPreBlock cfg (log c1) b, c1))
         else (case CreateBlock cfg c of (b, c1) \<Rightarrow> (VerifyBlock cfg (log c1) b, c1)))
      in if ok then Ok (True, c1)
         else thenDo (sendChangeView cfg rcv CVTxInvalid c1) (\<lambda>c2. Ok (False, c2)))"

definition addTransaction ::
    "('tx, 'b, 'pb, 'pub, 'priv) config \<Rightarrow> (payload \<Rightarrow> ('tx, 'b, 'pb, 'pub, 'priv) dbft act)
       \<Rightarrow> 'tx \<Rightarrow> ('tx, 'b, 'pb, 'pub, 'priv) dbft act" where
  "addTransaction cfg rcv tx c0 =
     (let c = c0\<lparr>Transactions := AList.update (txHash cfg tx) tx (Transactions c0)\<rparr>
      in if \<not> hasAllTransactions c then Ok c
         else if IsPrimary c \<or> WatchOnly cfg c then Ok c
         else thenDo (createAndCheckBlock cfg rcv c) (\<lambda>(ok, c1).
                if \<not> ok then Ok c1
                else steps [verifyPreCommitPayloadsAgainstPreBlock cfg, extendTimer cfg 2,
                            sendPrepareResponse cfg, checkPrepare cfg] c1))"

subsection \<open>Preparation handlers\<close>

definition dropOtherResponse ::
    "('tx, 'b, 'pb, 'pub, 'priv) config \<Rightarrow> payload \<Rightarrow> nat \<Rightarrow> ('tx, 'b, 'pb, 'pub, 'priv) dbft act" where
  "dropOtherResponse cfg msg i c =
     (case slot (PreparationPayloads c) i of
        None \<Rightarrow> Ok c
      | Some m \<Rightarrow>
          if cmType m = PrepareResponseType then
            (case GetPrepareResponse (body m) of
               None \<Rightarrow> Stop TypeAssertion
             | Some r \<Rightarrow>
                 if preparationHash r \<noteq> payloadHash cfg msg
                 then Ok (c\<lparr>PreparationPayloads := (PreparationPayloads c)[i := None]\<rparr>)
                 else Ok c)
          else Ok c)"

definition updateExistingPayloads ::
    "('tx, 'b, 'pb, 'pub, 'priv) config \<Rightarrow> payload \<Rightarrow> ('tx, 'b, 'pb, 'pub, 'priv) dbft act" where
  "updateExistingPayloads cfg msg c =
     thenDo (forEach (dropOtherResponse cfg msg) [0..<length (PreparationPayloads c)] c) (\<lambda>c1.
       if isAntiMEVExtensionEnabled cfg c1
       then verifyPreCommitPayloadsAgainstPreBlock cfg c1
       else verifyCommitPayloadsAgainstHeader cfg c1)"

definition acceptProposal :: "prepareRequest \<Rightarrow> ('tx, 'b, 'pb, 'pub, 'priv) dbft act" where
  "acceptProposal p c =
     Ok (c\<lparr>Timestamp := prepareRequest_Timestamp p, Nonce := reqNonce p,
           TransactionHashes := transactionHashes p\<rparr>)"

definition onPrepareRequest ::
    "('tx, 'b, 'pb, 'pub, 'priv) config \<Rightarrow> (payload \<Rightarrow> ('tx, 'b, 'pb, 'pub, 'priv) dbft act)
       \<Rightarrow> payload \<Rightarrow> ('tx, 'b, 'pb, 'pub, 'priv) dbft act" where
  "onPrepareRequest cfg rcv msg c =
     (if RequestSentOrReceived c then Ok c
      else if ViewNumber c \<noteq> viewNumber msg then Ok c
      else if unat (validatorIndex msg) \<noteq> GetPrimaryIndex c (ViewNumber c) then Ok c
      else if \<not> VerifyPrepareRequest cfg (log c) msg
      then sendChangeView cfg rcv CVBlockRejectedByPolicy c
      else thenDo (extendTimer cfg 2 c) (\<lambda>c1.
        case GetPrepareRequest (body msg) of
          None \<Rightarrow> Stop TypeAssertion
        | Some p \<Rightarrow>
            thenDo (steps
              [acceptProposal p, processMissingTx cfg, updateExistingPayloads cfg msg,
               (\<lambda>c. Ok (c\<lparr>PreparationPayloads :=
                         (PreparationPayloads c)[unat (validatorIndex msg) := Some msg]\<rparr>))] c1)
              (\<lambda>c2.
                if \<not> hasAllTransactions c2 then Ok c2
                else thenDo (createAndCheckBlock cfg rcv c2) (\<lambda>(ok, c3).
                  if \<not> ok \<or> WatchOnly cfg c3 then Ok c3
                  else steps [sendPrepareResponse cfg, checkPrepare cfg] c3))))"

definition acceptPrepareResponse ::
    "('tx, 'b, 'pb, 'pub, 'priv) config \<Rightarrow> ('tx, 'b, 'pb, 'pub, 'priv) dbft act" where
  "acceptPrepareResponse cfg =
     steps
       [(\<lambda>c. if IsPrimary c \<and> prepareSentTime c \<noteq> zeroTime \<and> \<not> recovering c
             then Ok (c\<lparr>rttEstimates :=
                       addTime (time_sub (ClockNow cfg (log c)) (prepareSentTime c)) (rttEstimates c)\<rparr>)
             else Ok c),
        extendTimer cfg 2,
        (\<lambda>c. if \<not> WatchOnly cfg c \<and> \<not> CommitSent cfg c
                \<and> (\<not> isAntiMEVExtensionEnabled cfg c \<or> \<not> PreCommitSent cfg c)
                \<and> RequestSentOrReceived c
             then checkPrepare cfg c else Ok c)]"

definition onPrepareResponse ::
    "('tx, 'b, 'pb, 'pub, 'priv) config \<Rightarrow> payload \<Rightarrow> ('tx, 'b, 'pb, 'pub, 'priv) dbft act" where
  "onPrepareResponse cfg msg c =
     (let i = unat (validatorIndex msg)
      in if ViewNumber c \<noteq> viewNumber msg then Ok c
         else if i = GetPrimaryIndex c (ViewNumber c) then Ok c
         else if slot (PreparationPayloads c) i \<noteq> None
              \<or> ViewChanging cfg c \<and> \<not> MoreThanFNodesCommittedOrLost c then Ok c
         else if \<not> VerifyPrepareResponse cfg (log c) msg then Ok c
         else
           let c1 = c\<lparr>PreparationPayloads := (PreparationPayloads c)[i := Some msg]\<rparr>
           in case slot (PreparationPayloads c1) (GetPrimaryIndex c1 (ViewNumber c1)) of
                None \<Rightarrow> acceptPrepareResponse cfg c1
              | Some m \<Rightarrow>
                  (case GetPrepareRequest (body m) of
                     None \<Rightarrow> Stop TypeAssertion
                   | Some _ \<Rightarrow>
                       (case GetPrepareResponse (body msg) of
                          None \<Rightarrow> Stop TypeAssertion
                        | Some r \<Rightarrow>
                            if preparationHash r \<noteq> payloadHash cfg m
                            then Ok (c1\<lparr>PreparationPayloads := (PreparationPayloads c1)[i := None]\<rparr>)
                            else acceptPrepareResponse cfg c1)))"

subsection \<open>ChangeView, PreCommit and Commit handlers\<close>

definition onRecoveryRequest ::
    "('tx, 'b, 'pb, 'pub, 'priv) config \<Rightarrow> payload \<Rightarrow> ('tx, 'b, 'pb, 'pub, 'priv) dbft act" where
  "onRecoveryRequest cfg msg c =
     (if WatchOnly cfg c then Ok c
      else if \<not> CommitSent cfg c \<and> (\<not> isAntiMEVExtensionEnabled cfg c \<or> \<not> PreCommitSent cfg c)
           \<and> go_rem (MyIndex c - int (unat (validatorIndex msg)) + int (ctxN c) - 1) (int (ctxN c))
               > int (ctxF c)
      then Ok c
      else sendRecoveryMessage cfg c)"

definition onChangeView ::
    "('tx, 'b, 'pb, 'pub, 'priv) config \<Rightarrow> (payload \<Rightarrow> ('tx, 'b, 'pb, 'pub, 'priv) dbft act)
       \<Rightarrow> payload \<Rightarrow> ('tx, 'b, 'pb, 'pub, 'priv) dbft act" where
  "onChangeView cfg rcv msg c =
     (case GetChangeView (body msg) of
        None \<Rightarrow> Stop TypeAssertion
      | Some p \<Rightarrow>
          if newViewNumber p \<le> ViewNumber c then onRecoveryRequest cfg msg c
          else if CommitSent cfg c \<or> PreCommitSent cfg c then sendRecoveryMessage cfg c
          else if (case slot (ChangeViewPayloads c) (unat (validatorIndex msg)) of
                     None \<Rightarrow> False
                   | Some m \<Rightarrow> newViewNumber p < NewViewNumber m)
          then Ok c
          else checkChangeView cfg rcv (newViewNumber p)
                 (c\<lparr>ChangeViewPayloads :=
                     (ChangeViewPayloads c)[unat (validatorIndex msg) := Some msg]\<rparr>))"

definition onPreCommit ::
    "('tx, 'b, 'pb, 'pub, 'priv) config \<Rightarrow> payload \<Rightarrow> ('tx, 'b, 'pb, 'pub, 'priv) dbft act" where
  "onPreCommit cfg msg c =
     (let i = unat (validatorIndex msg);
          drop = (\<lambda>c. Ok (c\<lparr>PreCommitPayloads := (PreCommitPayloads c)[i := None]\<rparr>))
      in if slot (PreCommitPayloads c) i \<noteq> None then Ok c
         else
           let c1 = c\<lparr>PreCommitPayloads := (PreCommitPayloads c)[i := Some msg]\<rparr>
           in if ViewNumber c1 \<noteq> viewNumber msg then Ok c1
              else if \<not> VerifyPreCommit cfg (log c1) msg then drop c1
              else thenDo (extendTimer cfg 4 c1) (\<lambda>c2.
                if \<not> hasAllTransactions c2 then Ok c2
                else case CreatePreBlock cfg c2 of
                       (None, c3) \<Rightarrow> Ok c3
                     | (Some pb, c3) \<Rightarrow>
                         (case GetPreCommit (body msg) of
                            None \<Rightarrow> Stop TypeAssertion
                          | Some pc \<Rightarrow>
                              if preBlockVerify cfg (Validators c3 ! i) (preCommit_Data pc) pb
                              then checkPreCommit cfg c3
                              else drop c3)))"

definition onCommit ::
    "('tx, 'b, 'pb, 'pub, 'priv) config \<Rightarrow> payload \<Rightarrow> ('tx, 'b, 'pb, 'pub, 'priv) dbft act" where
  "onCommit cfg msg c =
     (let i = unat (validatorIndex msg);
          drop = (\<lambda>c. Ok (c\<lparr>CommitPayloads := (CommitPayloads c)[i := None]\<rparr>))
      in if slot (CommitPayloads c) i \<noteq> None then Ok c
         else
           let c1 = c\<lparr>CommitPayloads := (CommitPayloads c)[i := Some msg]\<rparr>
           in if ViewNumber c1 \<noteq> viewNumber msg then Ok c1
              else if \<not> VerifyCommit cfg (log c1) msg then drop c1
              else thenDo (extendTimer cfg 4 c1) (\<lambda>c2.
                case MakeHeader cfg c2 of
                  (None, c3) \<Rightarrow> Ok c3
                | (Some h, c3) \<Rightarrow>
                    (case GetCommit (body msg) of
                       None \<Rightarrow> Stop TypeAssertion
                     | Some cm \<Rightarrow>
                         if blockVerify cfg (Validators c3 ! i) (signature cm) h
                         then checkCommit cfg c3
                         else drop c3)))"

subsection \<open>Recovery messages\<close>

definition recoverPreparations ::
    "(payload \<Rightarrow> ('tx, 'b, 'pb, 'pub, 'priv) dbft act) \<Rightarrow> recoveryMessage \<Rightarrow> payload
       \<Rightarrow> ('tx, 'b, 'pb, 'pub, 'priv) dbft act" where
  "recoverPreparations rcv r msg =
     steps
       [(\<lambda>c. if \<not> RequestSentOrReceived c
             then (case rm_GetPrepareRequest r msg (of_nat (PrimaryIndex c)) of
                     None \<Rightarrow> Ok c
                   | Some prepReq \<Rightarrow> rcv prepReq c)
             else Ok c),
        forEach rcv (rm_GetPrepareResponses r msg)]"

definition recoverCommits ::
    "(payload \<Rightarrow> ('tx, 'b, 'pb, 'pub, 'priv) dbft act) \<Rightarrow> recoveryMessage \<Rightarrow> payload
       \<Rightarrow> ('tx, 'b, 'pb, 'pub, 'priv) dbft act" where
  "recoverCommits rcv r msg c =
     thenDo (rm_GetPreCommits r msg) (\<lambda>pcs.
       steps [forEach rcv pcs, forEach rcv (rm_GetCommits r msg)] c)"

definition recoverAll ::
    "('tx, 'b, 'pb, 'pub, 'priv) config \<Rightarrow> (payload \<Rightarrow> ('tx, 'b, 'pb, 'pub, 'priv) dbft act)
       \<Rightarrow> recoveryMessage \<Rightarrow> payload \<Rightarrow> ('tx, 'b, 'pb, 'pub, 'priv) dbft act" where
  "recoverAll cfg rcv r msg c0 =
     (if viewNumber msg > ViewNumber c0 \<and> (CommitSent cfg c0 \<or> PreCommitSent cfg c0) then Ok c0
      else
        steps
          [(\<lambda>c. if viewNumber msg > ViewNumber c then forEach rcv (rm_GetChangeViews r msg) c
                else Ok c),
           (\<lambda>c. if viewNumber msg = ViewNumber c
                   \<and> (\<not> ViewChanging cfg c \<or> MoreThanFNodesCommittedOrLost c)
                   \<and> \<not> CommitSent cfg c
                   \<and> (\<not> isAntiMEVExtensionEnabled cfg c \<or> \<not> PreCommitSent cfg c)
                then recoverPreparations rcv r msg c else Ok c),
           (\<lambda>c. if viewNumber msg \<le> ViewNumber c then recoverCommits rcv r msg c else Ok c)] c0)"

text \<open>The deferred function clears \<open>recovering\<close> on every return.\<close>

definition onRecoveryMessage ::
    "('tx, 'b, 'pb, 'pub, 'priv) config \<Rightarrow> (payload \<Rightarrow> ('tx, 'b, 'pb, 'pub, 'priv) dbft act)
       \<Rightarrow> payload \<Rightarrow> ('tx, 'b, 'pb, 'pub, 'priv) dbft act" where
  "onRecoveryMessage cfg rcv msg c =
     (case GetRecoveryMessage (body msg) of
        None \<Rightarrow> Stop TypeAssertion
      | Some r \<Rightarrow>
          steps [(\<lambda>c. Ok (c\<lparr>recovering := True\<rparr>)), recoverAll cfg rcv r msg,
                 (\<lambda>c. Ok (c\<lparr>recovering := False\<rparr>))] c)"

subsection \<open>\<open>OnReceive\<close>\<close>

definition dispatch ::
    "('tx, 'b, 'pb, 'pub, 'priv) config \<Rightarrow> (payload \<Rightarrow> ('tx, 'b, 'pb, 'pub, 'priv) dbft act)
       \<Rightarrow> payload \<Rightarrow> ('tx, 'b, 'pb, 'pub, 'priv) dbft act" where
  "dispatch cfg rcv msg c =
     (case cmType msg of
        ChangeViewType \<Rightarrow> onChangeView cfg rcv msg c
      | PrepareRequestType \<Rightarrow> onPrepareRequest cfg rcv msg c
      | PrepareResponseType \<Rightarrow> onPrepareResponse cfg msg c
      | CommitType \<Rightarrow> onCommit cfg msg c
      | PreCommitType \<Rightarrow>
          if \<not> isAntiMEVExtensionEnabled cfg c then Ok c else onPreCommit cfg msg c
      | RecoveryRequestType \<Rightarrow> onRecoveryRequest cfg msg c
      | RecoveryMessageType \<Rightarrow> onRecoveryMessage cfg rcv msg c
      | UnknownType _ \<Rightarrow> Ok c)"

definition noteSeen :: "payload \<Rightarrow> ('tx, 'b, 'pb, 'pub, 'priv) dbft \<Rightarrow> ('tx, 'b, 'pb, 'pub, 'priv) dbft" where
  "noteSeen msg c =
     (if (case slot (LastSeenMessage c) (unat (validatorIndex msg)) of
            None \<Rightarrow> True
          | Some hv \<Rightarrow> hvHeight hv < height msg \<or> hvView hv < viewNumber msg)
      then c\<lparr>LastSeenMessage := (LastSeenMessage c)[unat (validatorIndex msg) :=
             Some \<lparr>hvHeight = height msg, hvView = viewNumber msg\<rparr>]\<rparr>
      else c)"

definition receive ::
    "('tx, 'b, 'pb, 'pub, 'priv) config \<Rightarrow> (payload \<Rightarrow> ('tx, 'b, 'pb, 'pub, 'priv) dbft act)
       \<Rightarrow> payload \<Rightarrow> ('tx, 'b, 'pb, 'pub, 'priv) dbft act" where
  "receive cfg rcv msg c =
     (if unat (validatorIndex msg) \<ge> length (Validators c) then Ok c
      else if body msg = NilPayload then Ok c
      else if height msg < BlockIndex c then Ok c
      else if height msg > BlockIndex c
           \<or> (viewNumber msg > ViewNumber c \<and> cmType msg \<noteq> ChangeViewType
               \<and> cmType msg \<noteq> RecoveryMessageType)
      then Ok (c\<lparr>dcache := addMessage msg (dcache c)\<rparr>)
      else
        let c1 = noteSeen msg c
        in if BlockSent c1 \<and> cmType msg \<noteq> RecoveryRequestType then Ok c1
           else dispatch cfg rcv msg c1)"

fun OnReceiveN ::
    "('tx, 'b, 'pb, 'pub, 'priv) config \<Rightarrow> nat \<Rightarrow> payload \<Rightarrow> ('tx, 'b, 'pb, 'pub, 'priv) dbft act" where
  "OnReceiveN cfg 0 msg c = Stop OutOfFuel"
| "OnReceiveN cfg (Suc n) msg c = receive cfg (OnReceiveN cfg n) msg c"

text \<open>
  Each nested call either leaves a recovery message for one of its payloads or happens in a
  higher view, and views have 8 bits.
\<close>

definition maxNesting :: nat where
  "maxNesting = 258"

definition OnReceive ::
    "('tx, 'b, 'pb, 'pub, 'priv) config \<Rightarrow> payload \<Rightarrow> ('tx, 'b, 'pb, 'pub, 'priv) dbft act" where
  "OnReceive cfg = OnReceiveN cfg maxNesting"

subsection \<open>Timeouts and transactions\<close>

definition onTimeout ::
    "('tx, 'b, 'pb, 'pub, 'priv) config \<Rightarrow> (payload \<Rightarrow> ('tx, 'b, 'pb, 'pub, 'priv) dbft act)
       \<Rightarrow> u32 \<Rightarrow> u8 \<Rightarrow> bool \<Rightarrow> ('tx, 'b, 'pb, 'pub, 'priv) dbft act" where
  "onTimeout cfg rcv h view force c =
     (if WatchOnly cfg c \<or> BlockSent c then Ok c
      else if h \<noteq> BlockIndex c \<or> view \<noteq> ViewNumber c then Ok c
      else if IsPrimary c \<and> \<not> RequestSentOrReceived c
      then sendPrepareRequest cfg (ViewNumber c \<noteq> 0 \<or> txSubscriptionOn c \<or> force) c
      else if (IsPrimary c \<and> RequestSentOrReceived c) \<or> IsBackup c then
        if CommitSent cfg c \<or> PreCommitSent cfg c
        then steps [sendRecoveryMessage cfg, (\<lambda>c. changeTimer (shl64 (timePerBlock c) 1) c)] c
        else if ViewNumber c = 0 \<and> cfgMaxTimePerBlock cfg \<noteq> None \<and> IsBackup c \<and> force
        then steps [(\<lambda>c. changeTimer (shl64 (timePerBlock c) 1) c), unsubscribeFromTransactions] c
        else if ViewNumber c = 0 \<and> cfgMaxTimePerBlock cfg \<noteq> None \<and> IsBackup c
             \<and> \<not> txSubscriptionOn c \<and> GetVerified cfg (log c) = []
        then steps [subscribeForTransactions,
                    (\<lambda>c. changeTimer (wrap64 (shl64 (maxTimePerBlock c) 1 - shl64 (timePerBlock c) 1)) c)] c
        else sendChangeView cfg rcv CVTimeout c
      else Ok c)"

text \<open>
  \<open>Timer.Height\<close> and \<open>Timer.View\<close>: those of the last \<open>Timer.Reset\<close>, which the default timer of
  package \<open>timer\<close> starts from 0.
\<close>

fun timerHeight :: "('tx, 'b, 'pb) effect list \<Rightarrow> u32" where
  "timerHeight [] = 0"
| "timerHeight (e # es) = (case e of ETimerReset h v d \<Rightarrow> h | _ \<Rightarrow> timerHeight es)"

fun timerView :: "('tx, 'b, 'pb) effect list \<Rightarrow> u8" where
  "timerView [] = 0"
| "timerView (e # es) = (case e of ETimerReset h v d \<Rightarrow> v | _ \<Rightarrow> timerView es)"

text \<open>\<open>slices.Index\<close>, and \<open>slices.Delete\<close> of one element, which panics out of range.\<close>

fun sliceIndex :: "'a list \<Rightarrow> 'a \<Rightarrow> nat option" where
  "sliceIndex [] x = None"
| "sliceIndex (y # ys) x = (if y = x then Some 0 else map_option Suc (sliceIndex ys x))"

definition sliceDelete :: "'a list \<Rightarrow> nat \<Rightarrow> stop + 'a list" where
  "sliceDelete xs i =
     (if i < length xs then Ok (take i xs @ drop (Suc i) xs) else Stop IndexOutOfRange)"

definition onTransaction ::
    "('tx, 'b, 'pb, 'pub, 'priv) config \<Rightarrow> (payload \<Rightarrow> ('tx, 'b, 'pb, 'pub, 'priv) dbft act)
       \<Rightarrow> 'tx \<Rightarrow> ('tx, 'b, 'pb, 'pub, 'priv) dbft act" where
  "onTransaction cfg rcv tx c =
     (if \<not> IsBackup c \<or> NotAcceptingPayloadsDueToViewChanging cfg c
         \<or> \<not> RequestSentOrReceived c \<or> ResponseSent cfg c \<or> PreCommitSent cfg c
         \<or> CommitSent cfg c \<or> BlockSent c \<or> MissingTransactions c = [] then Ok c
      else case sliceIndex (MissingTransactions c) (txHash cfg tx) of
             None \<Rightarrow> Ok c
           | Some i \<Rightarrow>
               thenDo (addTransaction cfg rcv tx c) (\<lambda>c1.
                 if MissingTransactions c1 = [] then Ok c1
                 else thenDo (sliceDelete (MissingTransactions c1) i) (\<lambda>ms.
                   Ok (c1\<lparr>MissingTransactions := ms\<rparr>))))"

subsection \<open>The interface of the library\<close>

text \<open>Every call is first recorded in the history.\<close>

definition start ::
    "('tx, 'b, 'pb, 'pub, 'priv) config \<Rightarrow> u64 \<Rightarrow> ('tx, 'b, 'pb, 'pub, 'priv) dbft act" where
  "start cfg ts =
     steps [(\<lambda>c. Ok (c\<lparr>dcache := newCache\<rparr>)), initializeConsensus cfg (OnReceive cfg) 0 ts,
            (\<lambda>c. if IsPrimary c then sendPrepareRequest cfg True c else Ok c)]"

definition resetNode ::
    "('tx, 'b, 'pb, 'pub, 'priv) config \<Rightarrow> u64 \<Rightarrow> ('tx, 'b, 'pb, 'pub, 'priv) dbft act" where
  "resetNode cfg ts = initializeConsensus cfg (OnReceive cfg) 0 ts"

definition onNewTransaction ::
    "('tx, 'b, 'pb, 'pub, 'priv) config \<Rightarrow> ('tx, 'b, 'pb, 'pub, 'priv) dbft act" where
  "onNewTransaction cfg c =
     (if \<not> txSubscriptionOn c then Ok c
      else onTimeout cfg (OnReceive cfg) (timerHeight (log c)) (timerView (log c)) True c)"

fun runCall ::
    "('tx, 'b, 'pb, 'pub, 'priv) config \<Rightarrow> 'tx call \<Rightarrow> ('tx, 'b, 'pb, 'pub, 'priv) dbft act" where
  "runCall cfg (CallStart ts) c = start cfg ts c"
| "runCall cfg (CallReset ts) c = resetNode cfg ts c"
| "runCall cfg (CallTransaction tx) c = onTransaction cfg (OnReceive cfg) tx c"
| "runCall cfg (CallTimeout h v) c = onTimeout cfg (OnReceive cfg) h v False c"
| "runCall cfg CallNewTransaction c = onNewTransaction cfg c"
| "runCall cfg (CallReceive m) c = OnReceive cfg m c"

definition exec ::
    "('tx, 'b, 'pb, 'pub, 'priv) config \<Rightarrow> 'tx call \<Rightarrow> ('tx, 'b, 'pb, 'pub, 'priv) dbft act" where
  "exec cfg a c = thenDo (emit (ECall a) c) (runCall cfg a)"

text \<open>
  The states a node passes through: it is created by \<open>New\<close>, started once, and then takes any
  calls but \<open>Start\<close>.
\<close>

inductive reachable :: "('tx, 'b, 'pb, 'pub, 'priv) config \<Rightarrow> ('tx, 'b, 'pb, 'pub, 'priv) dbft \<Rightarrow> bool"
  for cfg where
  reach_start: "exec cfg (CallStart ts) (newDbft cfg) = Inr c \<Longrightarrow> reachable cfg c"
| reach_call: "reachable cfg c \<Longrightarrow> (\<And>ts. a \<noteq> CallStart ts) \<Longrightarrow> exec cfg a c = Inr c' \<Longrightarrow> reachable cfg c'"

end
