(* ===== verification/Node_Step.thy ===== *)
theory Node_Step
  imports Dbft_Core
begin

section \<open>The protocol as a transition system\<close>

text \<open>
  An abstract description of what a node may do between two heights, in terms of its stored
  payloads and its history only: \<open>lstep\<close> collects the steps inside a view, \<open>nstep\<close> adds the
  change of view and the acceptance of a block. Each rule carries the conditions under which
  the handlers take the step. \<open>Refinement\<close> shows that every handler is a sequence of such
  steps, so the invariants of the node are proved here, rule by rule.
\<close>

subsection \<open>Well-formed states\<close>

text \<open>
  Every payload of a table is filed under its sender and satisfies \<open>P\<close>; the tables have one slot
  per validator and hold payloads of the current height.
\<close>

definition filed :: "(payload \<Rightarrow> bool) \<Rightarrow> payload option list \<Rightarrow> bool" where
  "filed P ms \<longleftrightarrow>
     list_all (\<lambda>i. case slot ms i of None \<Rightarrow> True | Some m \<Rightarrow> validatorIndex m = of_nat i \<and> P m)
       [0..<length ms]"

definition tables_ok :: "('tx, 'b, 'pb, 'pub, 'priv) dbft \<Rightarrow> bool" where
  "tables_ok c \<longleftrightarrow>
     length (PreparationPayloads c) = ctxN c \<and> length (PreCommitPayloads c) = ctxN c
     \<and> length (CommitPayloads c) = ctxN c \<and> length (ChangeViewPayloads c) = ctxN c
     \<and> length (LastChangeViewPayloads c) = ctxN c \<and> length (LastSeenMessage c) = ctxN c
     \<and> filed (\<lambda>m. (cmType m = PrepareRequestType \<or> cmType m = PrepareResponseType)
                 \<and> viewNumber m = ViewNumber c \<and> height m = BlockIndex c) (PreparationPayloads c)
     \<and> filed (\<lambda>m. cmType m = PreCommitType \<and> height m = BlockIndex c) (PreCommitPayloads c)
     \<and> filed (\<lambda>m. cmType m = CommitType \<and> height m = BlockIndex c) (CommitPayloads c)
     \<and> filed (\<lambda>m. cmType m = ChangeViewType \<and> height m = BlockIndex c) (ChangeViewPayloads c)"

definition wf ::
    "('tx, 'b, 'pb, 'pub, 'priv) config \<Rightarrow> ('tx, 'b, 'pb, 'pub, 'priv) dbft \<Rightarrow> bool" where
  "wf cfg c \<longleftrightarrow>
     0 < ctxN c \<and> tables_ok c
     \<and> MyIndex c = fst (GetKeyPair cfg (Validators c)) \<and> MyIndex c < int (ctxN c)
     \<and> PrimaryIndex c = GetPrimaryIndex c (ViewNumber c)
     \<and> (header c \<noteq> None \<longrightarrow> RequestSentOrReceived c)
     \<and> (header c \<noteq> None \<longrightarrow> isAntiMEVExtensionEnabled cfg c \<longrightarrow> preBlockProcessed c)
     \<and> (preHeader c \<noteq> None \<longrightarrow> RequestSentOrReceived c)
     \<and> (blockSet c \<longrightarrow> header c \<noteq> None) \<and> (preBlockSet c \<longrightarrow> preHeader c \<noteq> None)
     \<and> cache_ok (dcache c)"

lemma filed_iff:
  "filed P ms \<longleftrightarrow> (\<forall>i m. slot ms i = Some m \<longrightarrow> validatorIndex m = of_nat i \<and> P m)"
proof
  assume f: "filed P ms"
  show "\<forall>i m. slot ms i = Some m \<longrightarrow> validatorIndex m = of_nat i \<and> P m"
  proof (intro allI impI)
    fix i m
    assume m: "slot ms i = Some m"
    then have "i \<in> set [0..<length ms]" by (simp add: slot_in_range)
    with f m show "validatorIndex m = of_nat i \<and> P m"
      unfolding filed_def list_all_iff by fastforce
  qed
qed (simp add: filed_def list_all_iff split: option.split)

lemma filedD: "filed P ms \<Longrightarrow> slot ms i = Some m \<Longrightarrow> validatorIndex m = of_nat i \<and> P m"
  by (simp add: filed_iff)

lemma filed_put:
  "filed P ms \<Longrightarrow> validatorIndex m = of_nat i \<Longrightarrow> P m \<Longrightarrow> filed P (ms[i := Some m])"
  by (simp add: filed_iff slot_update)

lemma filed_drop: "filed P ms \<Longrightarrow> filed P (ms[i := None])"
  by (simp add: filed_iff slot_update)

lemma filed_replicate [simp]: "filed P (replicate n None)"
  by (simp add: filed_iff)

text \<open>The node may speak: it is an active validator, or the primary.\<close>

definition speaks ::
    "('tx, 'b, 'pb, 'pub, 'priv) config \<Rightarrow> ('tx, 'b, 'pb, 'pub, 'priv) dbft \<Rightarrow> bool" where
  "speaks cfg c \<longleftrightarrow> 0 \<le> MyIndex c \<and> (\<not> WatchOnly cfg c \<or> IsPrimary c)"

subsection \<open>Quiet steps\<close>

text \<open>
  A quiet step keeps everything the protocol depends on and records only effects that are
  neither a Commit nor a block.
\<close>

definition sameCore ::
    "('tx, 'b, 'pb, 'pub, 'priv) dbft \<Rightarrow> ('tx, 'b, 'pb, 'pub, 'priv) dbft \<Rightarrow> bool" where
  "sameCore c d \<longleftrightarrow>
     BlockIndex d = BlockIndex c \<and> ViewNumber d = ViewNumber c \<and> Validators d = Validators c
     \<and> MyIndex d = MyIndex c \<and> PrimaryIndex d = PrimaryIndex c
     \<and> PreparationPayloads d = PreparationPayloads c \<and> PreCommitPayloads d = PreCommitPayloads c
     \<and> CommitPayloads d = CommitPayloads c \<and> ChangeViewPayloads d = ChangeViewPayloads c
     \<and> LastChangeViewPayloads d = LastChangeViewPayloads c
     \<and> header d = header c \<and> blockSet d = blockSet c
     \<and> preHeader d = preHeader c \<and> preBlockSet d = preBlockSet c
     \<and> blockProcessed d = blockProcessed c \<and> preBlockProcessed d = preBlockProcessed c"

fun isHeightCall :: "'tx call \<Rightarrow> bool" where
  "isHeightCall (CallStart _) = True"
| "isHeightCall (CallReset _) = True"
| "isHeightCall _ = False"

text \<open>What the node did since the last \<open>Start\<close> or \<open>Reset\<close>, newest first.\<close>

definition sameHeight :: "('tx, 'b, 'pb) effect \<Rightarrow> bool" where
  "sameHeight e \<longleftrightarrow> (case e of ECall a \<Rightarrow> \<not> isHeightCall a | _ \<Rightarrow> True)"

definition heightLog :: "('tx, 'b, 'pb) effect list \<Rightarrow> ('tx, 'b, 'pb) effect list" where
  "heightLog es = takeWhile sameHeight es"

lemma sameHeight_simps [simp]:
  "sameHeight (ECall a) \<longleftrightarrow> \<not> isHeightCall a" "sameHeight (EBroadcast m)"
  "sameHeight (ETimerReset h v t)" "sameHeight (ETimerExtend t)" "sameHeight EStopTxFlow"
  "sameHeight (ERequestTx hs)" "sameHeight ESubscribeForTxs" "sameHeight (EProcessPreBlock pb ok)"
  "sameHeight (EProcessBlock b ok)"
  by (simp_all add: sameHeight_def)

lemma heightLog_append: "(\<And>e. e \<in> set es \<Longrightarrow> sameHeight e) \<Longrightarrow> heightLog (es @ l) = es @ heightLog l"
  by (simp add: heightLog_def)

lemma heightLog_Cons [simp]: "heightLog (e # l) = (if sameHeight e then e # heightLog l else [])"
  by (simp add: heightLog_def)

definition quietEffect ::
    "('tx, 'b, 'pb, 'pub, 'priv) config \<Rightarrow> ('tx, 'b, 'pb, 'pub, 'priv) dbft
       \<Rightarrow> ('tx, 'b, 'pb) effect \<Rightarrow> bool" where
  "quietEffect cfg c e \<longleftrightarrow>
     (case e of
        EBroadcast m \<Rightarrow>
          speaks cfg c \<and> cmType m \<noteq> CommitType \<and> validatorIndex m = word_of_int (MyIndex c)
          \<and> height m = BlockIndex c
      | EProcessBlock _ _ \<Rightarrow> False
      | ECall a \<Rightarrow> \<not> isHeightCall a
      | _ \<Rightarrow> True)"

definition quiet ::
    "('tx, 'b, 'pb, 'pub, 'priv) config \<Rightarrow> ('tx, 'b, 'pb, 'pub, 'priv) dbft
       \<Rightarrow> ('tx, 'b, 'pb, 'pub, 'priv) dbft \<Rightarrow> bool" where
  "quiet cfg c d \<longleftrightarrow>
     sameCore c d \<and> length (LastSeenMessage d) = length (LastSeenMessage c)
     \<and> (cache_ok (dcache c) \<longrightarrow> cache_ok (dcache d))
     \<and> (\<exists>es. log d = es @ log c \<and> (\<forall>e \<in> set es. quietEffect cfg c e))"

subsection \<open>Steps inside a view\<close>

inductive lstep ::
    "('tx, 'b, 'pb, 'pub, 'priv) config \<Rightarrow> ('tx, 'b, 'pb, 'pub, 'priv) dbft
       \<Rightarrow> ('tx, 'b, 'pb, 'pub, 'priv) dbft \<Rightarrow> bool"
  for cfg where
  lquiet: "quiet cfg c d \<Longrightarrow> lstep cfg c d"
| lprepare: "i < ctxN c \<Longrightarrow> validatorIndex m = of_nat i \<Longrightarrow>
     cmType m = PrepareRequestType \<or> cmType m = PrepareResponseType \<Longrightarrow>
     viewNumber m = ViewNumber c \<Longrightarrow> height m = BlockIndex c \<Longrightarrow>
     slot (PreparationPayloads c) i = None \<or> int i = MyIndex c \<Longrightarrow>
     lstep cfg c (c\<lparr>PreparationPayloads := (PreparationPayloads c)[i := Some m]\<rparr>)"
| lunprepare: "i \<noteq> PrimaryIndex c \<Longrightarrow>
     lstep cfg c (c\<lparr>PreparationPayloads := (PreparationPayloads c)[i := None]\<rparr>)"
| lchangeview: "\<not> blockProcessed c \<Longrightarrow> i < ctxN c \<Longrightarrow> validatorIndex m = of_nat i \<Longrightarrow>
     cmType m = ChangeViewType \<Longrightarrow> height m = BlockIndex c \<Longrightarrow>
     lstep cfg c (c\<lparr>ChangeViewPayloads := (ChangeViewPayloads c)[i := Some m]\<rparr>)"
| lprecommit: "\<not> blockProcessed c \<Longrightarrow> isAntiMEVExtensionEnabled cfg c \<Longrightarrow> i < ctxN c \<Longrightarrow>
     validatorIndex m = of_nat i \<Longrightarrow> cmType m = PreCommitType \<Longrightarrow> height m = BlockIndex c \<Longrightarrow>
     slot (PreCommitPayloads c) i = None \<Longrightarrow>
     lstep cfg c (c\<lparr>PreCommitPayloads := (PreCommitPayloads c)[i := Some m]\<rparr>)"
| lunprecommit: "\<not> blockProcessed c \<Longrightarrow>
     lstep cfg c (c\<lparr>PreCommitPayloads := (PreCommitPayloads c)[i := None]\<rparr>)"
| lcommit: "\<not> blockProcessed c \<Longrightarrow> i < ctxN c \<Longrightarrow> validatorIndex m = of_nat i \<Longrightarrow>
     cmType m = CommitType \<Longrightarrow> height m = BlockIndex c \<Longrightarrow> slot (CommitPayloads c) i = None \<Longrightarrow>
     lstep cfg c (c\<lparr>CommitPayloads := (CommitPayloads c)[i := Some m]\<rparr>)"
| luncommit: "\<not> blockProcessed c \<Longrightarrow> isAntiMEVExtensionEnabled cfg c \<Longrightarrow>
     lstep cfg c (c\<lparr>CommitPayloads := (CommitPayloads c)[i := None]\<rparr>)"
| lheader: "RequestSentOrReceived c \<Longrightarrow> \<not> blockProcessed c \<Longrightarrow>
     (isAntiMEVExtensionEnabled cfg c \<Longrightarrow> preBlockProcessed c) \<Longrightarrow>
     (x \<Longrightarrow> h \<noteq> None) \<Longrightarrow> lstep cfg c (c\<lparr>header := h, blockSet := x\<rparr>)"
| lpreheader: "RequestSentOrReceived c \<Longrightarrow> (x \<Longrightarrow> h \<noteq> None) \<Longrightarrow>
     lstep cfg c (c\<lparr>preHeader := h, preBlockSet := x\<rparr>)"
| lpreprocessed: "isAntiMEVExtensionEnabled cfg c \<Longrightarrow>
     ctxM c \<le> countView (ViewNumber c) (PreCommitPayloads c) \<Longrightarrow>
     log c = EProcessPreBlock pb True # es \<Longrightarrow>
     lstep cfg c (c\<lparr>preBlockProcessed := True\<rparr>)"
| lsaycommit: "speaks cfg c \<Longrightarrow> slot (CommitPayloads c) (nat (MyIndex c)) = Some m \<Longrightarrow>
     lstep cfg c (c\<lparr>log := EBroadcast (SetValidatorIndex (word_of_int (MyIndex c)) m) # log c\<rparr>)"

subsection \<open>Steps of a height\<close>

text \<open>
  A \<open>kstep\<close> stays in the view: a local step, or the acceptance of a block. An \<open>nstep\<close> may also
  change the view.
\<close>

inductive kstep ::
    "('tx, 'b, 'pb, 'pub, 'priv) config \<Rightarrow> ('tx, 'b, 'pb, 'pub, 'priv) dbft
       \<Rightarrow> ('tx, 'b, 'pb, 'pub, 'priv) dbft \<Rightarrow> bool"
  for cfg where
  klocal: "lstep cfg c d \<Longrightarrow> kstep cfg c d"
| kblock: "\<not> blockProcessed c \<Longrightarrow> hasAllTransactions c \<Longrightarrow> header c = Some b \<Longrightarrow>
     ctxM c \<le> countView (ViewNumber c) (CommitPayloads c) \<Longrightarrow>
     kstep cfg c (c\<lparr>log := EProcessBlock b ok # log c, blockProcessed := ok\<rparr>)"

inductive nstep ::
    "('tx, 'b, 'pb, 'pub, 'priv) config \<Rightarrow> ('tx, 'b, 'pb, 'pub, 'priv) dbft
       \<Rightarrow> ('tx, 'b, 'pb, 'pub, 'priv) dbft \<Rightarrow> bool"
  for cfg where
  nview_same: "kstep cfg c d \<Longrightarrow> nstep cfg c d"
| nview_change: "\<not> blockProcessed c \<Longrightarrow> ViewNumber c < view \<Longrightarrow>
     ctxM c \<le> countChangeViews view (ChangeViewPayloads c) \<Longrightarrow>
     reset cfg view ts c = Inr d \<Longrightarrow> nstep cfg c d"

inductive_cases lstepE: "lstep cfg c d"

inductive_cases kstepE: "kstep cfg c d"

inductive_cases nstepE: "nstep cfg c d"

abbreviation lsteps ::
    "('tx, 'b, 'pb, 'pub, 'priv) config \<Rightarrow> ('tx, 'b, 'pb, 'pub, 'priv) dbft
       \<Rightarrow> ('tx, 'b, 'pb, 'pub, 'priv) dbft \<Rightarrow> bool" where
  "lsteps cfg \<equiv> (lstep cfg)\<^sup>*\<^sup>*"

abbreviation ksteps ::
    "('tx, 'b, 'pb, 'pub, 'priv) config \<Rightarrow> ('tx, 'b, 'pb, 'pub, 'priv) dbft
       \<Rightarrow> ('tx, 'b, 'pb, 'pub, 'priv) dbft \<Rightarrow> bool" where
  "ksteps cfg \<equiv> (kstep cfg)\<^sup>*\<^sup>*"

abbreviation nsteps ::
    "('tx, 'b, 'pb, 'pub, 'priv) config \<Rightarrow> ('tx, 'b, 'pb, 'pub, 'priv) dbft
       \<Rightarrow> ('tx, 'b, 'pb, 'pub, 'priv) dbft \<Rightarrow> bool" where
  "nsteps cfg \<equiv> (nstep cfg)\<^sup>*\<^sup>*"

lemma lsteps_ksteps: "lsteps cfg c d \<Longrightarrow> ksteps cfg c d"
  by (rule rtranclp_mono[THEN predicate2D]) (auto intro: klocal)

lemma ksteps_nsteps: "ksteps cfg c d \<Longrightarrow> nsteps cfg c d"
  by (rule rtranclp_mono[THEN predicate2D]) (auto intro: nview_same)

subsection \<open>The primary's index\<close>

lemma GetPrimaryIndex_mod:
  assumes "0 < ctxN c"
  shows "int (GetPrimaryIndex c v) = (uint (BlockIndex c) - uint v) mod int (ctxN c)"
proof -
  let ?n = "int (length (Validators c))" and ?a = "uint (BlockIndex c) - uint v"
  have n: "0 < ?n" using assms by (simp add: ctxN_def)
  show ?thesis
  proof (cases "0 \<le> ?a")
    case True
    with n show ?thesis by (simp add: GetPrimaryIndex_def go_rem_nonneg ctxN_def Let_def)
  next
    case False
    then have neg: "?a < 0" by simp
    have r: "go_rem ?a ?n = - ((- ?a) mod ?n)"
      using go_rem_neg[OF neg n] .
    have m: "?a mod ?n = (if (- ?a) mod ?n = 0 then 0 else ?n - (- ?a) mod ?n)"
      using zmod_zminus1_eq_if[of "- ?a" ?n] by simp
    have b: "0 \<le> (- ?a) mod ?n" "(- ?a) mod ?n < ?n"
      using n by simp_all
    show ?thesis
      unfolding GetPrimaryIndex_def Let_def r ctxN_def m
      using b by auto
  qed
qed

lemma GetPrimaryIndex_less:
  assumes "0 < ctxN c"
  shows "GetPrimaryIndex c v < ctxN c"
proof -
  have "(uint (BlockIndex c) - uint v) mod int (ctxN c) < int (ctxN c)"
    using assms by (intro pos_mod_bound) simp
  then show ?thesis
    unfolding GetPrimaryIndex_mod[OF assms, symmetric] by (simp only: of_nat_less_iff)
qed

text \<open>The index depends on the height, the number of validators and the view only.\<close>

definition primaryOf :: "u32 \<Rightarrow> nat \<Rightarrow> u8 \<Rightarrow> nat" where
  "primaryOf h n v = nat ((uint h - uint v) mod int n)"

lemma GetPrimaryIndex_eq: "0 < ctxN c \<Longrightarrow> GetPrimaryIndex c v = primaryOf (BlockIndex c) (ctxN c) v"
  using GetPrimaryIndex_mod[of c v] by (simp add: primaryOf_def flip: nat_int)

lemma GetPrimaryIndex_cong:
  "BlockIndex d = BlockIndex c \<Longrightarrow> Validators d = Validators c \<Longrightarrow> GetPrimaryIndex d v = GetPrimaryIndex c v"
  unfolding GetPrimaryIndex_def by (simp only:)

lemma wf_primary: "wf cfg c \<Longrightarrow> PrimaryIndex c < ctxN c"
  by (simp add: wf_def GetPrimaryIndex_less)

subsection \<open>\<open>reset\<close>\<close>

text \<open>What a successful \<open>reset\<close> leaves behind.\<close>

lemma reset_Ok:
  assumes "reset cfg view ts c = Inr d"
  shows "0 < ctxN d" and "ViewNumber d = view"
    and "MyIndex d = fst (GetKeyPair cfg (Validators d))" and "MyIndex d < int (length (LastSeenMessage d))"
    and "PrimaryIndex d = GetPrimaryIndex d view"
    and "PreparationPayloads d = replicate (ctxN d) None"
    and "ChangeViewPayloads d = replicate (ctxN d) None"
    and "header d = None" "preHeader d = None" "\<not> blockSet d" "\<not> preBlockSet d"
    and "dcache d = dcache c" and "log d = log c"
    and "MissingTransactions d = []" "TransactionHashes d = None" "Transactions d = []"
    and "recovering d = recovering c"
proof -
  obtain seen where n: "ctxN (resetState cfg view ts c) \<noteq> 0"
    and i: "MyIndex (resetState cfg view ts c) < int (length seen)"
    and d: "d = (enterView view (resetState cfg view ts c))\<lparr>LastSeenMessage := seen\<rparr>"
    by (rule reset_OkE[OF assms])
  show "PrimaryIndex d = GetPrimaryIndex d view"
    by (simp add: d enterView_def GetPrimaryIndex_def Let_def)
  show "0 < ctxN d" using n by (simp add: d enterView_def ctxN_def)
  show "MyIndex d < int (length (LastSeenMessage d))" using i by (simp add: d enterView_def)
qed (rule reset_OkE[OF assms], simp add: resetState_def enterView_def reset_parts ctxN_def)+

lemma reset_view_Ok:
  assumes "reset cfg view ts c = Inr d" and "view \<noteq> 0"
  shows "BlockIndex d = BlockIndex c" and "Validators d = Validators c"
    and "CommitPayloads d = CommitPayloads c" and "PreCommitPayloads d = PreCommitPayloads c"
    and "blockProcessed d = blockProcessed c" and "preBlockProcessed d = preBlockProcessed c"
    and "length (LastSeenMessage d) = length (LastSeenMessage c)"
    and "length (LastChangeViewPayloads d) = ctxN c"
  by (rule reset_OkE[OF assms(1)], simp add: assms(2) resetState_def enterView_def reset_parts ctxN_def)+

lemma reset_height_Ok:
  assumes "reset cfg 0 ts c = Inr d"
  shows "CommitPayloads d = replicate (ctxN d) None" and "PreCommitPayloads d = replicate (ctxN d) None"
    and "LastChangeViewPayloads d = replicate (ctxN d) None"
    and "length (LastSeenMessage d) = ctxN d"
    and "\<not> blockProcessed d" and "\<not> preBlockProcessed d"
    and "BlockIndex d = CurrentHeight cfg (log c) + 1" and "Validators d = GetValidators cfg (log c)"
  by (rule reset_OkE[OF assms], simp add: resetState_def enterView_def reset_parts ctxN_def)+

lemma reset_height_wf:
  assumes "reset cfg 0 ts c = Inr d" and "cache_ok (dcache c)"
  shows "wf cfg d"
  using reset_Ok[OF assms(1)] reset_height_Ok[OF assms(1)] assms(2)
  by (simp add: wf_def tables_ok_def)

lemma reset_view_wf:
  assumes "reset cfg view ts c = Inr d" and "view \<noteq> 0" and "wf cfg c"
  shows "wf cfg d"
  using reset_Ok[OF assms(1)] reset_view_Ok[OF assms(1,2)] assms(3)
  by (simp add: wf_def tables_ok_def ctxN_def)

subsection \<open>Steps keep well-formedness\<close>

lemma lstep_frame_all:
  assumes "lstep cfg c d"
  shows "BlockIndex d = BlockIndex c \<and> ViewNumber d = ViewNumber c \<and> Validators d = Validators c
    \<and> MyIndex d = MyIndex c \<and> PrimaryIndex d = PrimaryIndex c \<and> blockProcessed d = blockProcessed c
    \<and> (preBlockProcessed c \<longrightarrow> preBlockProcessed d)"
  using assms by cases (simp_all add: quiet_def sameCore_def)

lemma lstep_frame:
  assumes "lstep cfg c d"
  shows "BlockIndex d = BlockIndex c" "ViewNumber d = ViewNumber c" "Validators d = Validators c"
    "MyIndex d = MyIndex c" "PrimaryIndex d = PrimaryIndex c" "blockProcessed d = blockProcessed c"
  using lstep_frame_all[OF assms] by blast+

lemma lsteps_frame:
  assumes "lsteps cfg c d"
  shows "BlockIndex d = BlockIndex c" "ViewNumber d = ViewNumber c" "Validators d = Validators c"
    "MyIndex d = MyIndex c" "PrimaryIndex d = PrimaryIndex c" "blockProcessed d = blockProcessed c"
  using assms by (induction rule: rtranclp_induct) (simp_all add: lstep_frame)

text \<open>What an update has to respect to keep a state well formed.\<close>

lemma wf_keep:
  assumes "wf cfg c"
    and "BlockIndex d = BlockIndex c" "ViewNumber d = ViewNumber c" "Validators d = Validators c"
    and "MyIndex d = MyIndex c" "PrimaryIndex d = PrimaryIndex c"
    and "tables_ok d"
    and "header d \<noteq> None \<longrightarrow> RequestSentOrReceived d"
    and "header d \<noteq> None \<longrightarrow> isAntiMEVExtensionEnabled cfg c \<longrightarrow> preBlockProcessed d"
    and "preHeader d \<noteq> None \<longrightarrow> RequestSentOrReceived d"
    and "blockSet d \<longrightarrow> header d \<noteq> None" and "preBlockSet d \<longrightarrow> preHeader d \<noteq> None"
    and "cache_ok (dcache d)"
  shows "wf cfg d"
proof -
  have n: "ctxN d = ctxN c" by (simp only: ctxN_def assms(4))
  have p: "GetPrimaryIndex d v = GetPrimaryIndex c v" for v
    by (rule GetPrimaryIndex_cong[OF assms(2,4)])
  have a: "isAntiMEVExtensionEnabled cfg d = isAntiMEVExtensionEnabled cfg c"
    by (simp only: isAntiMEVExtensionEnabled_def assms(2))
  show ?thesis
    using assms(1,7-13) unfolding wf_def n p a assms(2-6) by blast
qed

lemma wf_fields:
  assumes "wf cfg c"
  shows "0 < ctxN c" "tables_ok c"
    "MyIndex c = fst (GetKeyPair cfg (Validators c))" "MyIndex c < int (ctxN c)"
    "PrimaryIndex c = GetPrimaryIndex c (ViewNumber c)"
    "header c \<noteq> None \<longrightarrow> RequestSentOrReceived c"
    "header c \<noteq> None \<longrightarrow> isAntiMEVExtensionEnabled cfg c \<longrightarrow> preBlockProcessed c"
    "preHeader c \<noteq> None \<longrightarrow> RequestSentOrReceived c"
    "blockSet c \<longrightarrow> header c \<noteq> None" "preBlockSet c \<longrightarrow> preHeader c \<noteq> None"
    "cache_ok (dcache c)"
  using assms unfolding wf_def by blast+

lemma tables_fields:
  assumes "tables_ok c"
  shows "length (PreparationPayloads c) = ctxN c" "length (PreCommitPayloads c) = ctxN c"
    "length (CommitPayloads c) = ctxN c" "length (ChangeViewPayloads c) = ctxN c"
    "length (LastChangeViewPayloads c) = ctxN c" "length (LastSeenMessage c) = ctxN c"
  using assms unfolding tables_ok_def by blast+

lemmas wf_tables = tables_fields[OF wf_fields(2)]

lemma tables_ok_sameCore:
  assumes "sameCore c d" "length (LastSeenMessage d) = length (LastSeenMessage c)" "tables_ok c"
  shows "tables_ok d"
  using assms by (simp add: tables_ok_def ctxN_def sameCore_def)

lemma tables_ok_upd:
  "tables_ok c \<Longrightarrow> tables_ok (c\<lparr>header := h, blockSet := x\<rparr>)"
  "tables_ok c \<Longrightarrow> tables_ok (c\<lparr>preHeader := ph, preBlockSet := x\<rparr>)"
  "tables_ok c \<Longrightarrow> tables_ok (c\<lparr>preBlockProcessed := x\<rparr>)"
  "tables_ok c \<Longrightarrow> tables_ok (c\<lparr>log := es\<rparr>)"
  "tables_ok c \<Longrightarrow> tables_ok (c\<lparr>log := es, blockProcessed := x\<rparr>)"
  by (simp_all add: tables_ok_def ctxN_def)

lemma tables_ok_put:
  "tables_ok c \<Longrightarrow> validatorIndex m = of_nat i \<Longrightarrow>
     cmType m = PrepareRequestType \<or> cmType m = PrepareResponseType \<Longrightarrow>
     viewNumber m = ViewNumber c \<Longrightarrow> height m = BlockIndex c \<Longrightarrow>
     tables_ok (c\<lparr>PreparationPayloads := (PreparationPayloads c)[i := Some m]\<rparr>)"
  "tables_ok c \<Longrightarrow> validatorIndex m = of_nat i \<Longrightarrow> cmType m = PreCommitType \<Longrightarrow>
     height m = BlockIndex c \<Longrightarrow>
     tables_ok (c\<lparr>PreCommitPayloads := (PreCommitPayloads c)[i := Some m]\<rparr>)"
  "tables_ok c \<Longrightarrow> validatorIndex m = of_nat i \<Longrightarrow> cmType m = CommitType \<Longrightarrow>
     height m = BlockIndex c \<Longrightarrow>
     tables_ok (c\<lparr>CommitPayloads := (CommitPayloads c)[i := Some m]\<rparr>)"
  "tables_ok c \<Longrightarrow> validatorIndex m = of_nat i \<Longrightarrow> cmType m = ChangeViewType \<Longrightarrow>
     height m = BlockIndex c \<Longrightarrow>
     tables_ok (c\<lparr>ChangeViewPayloads := (ChangeViewPayloads c)[i := Some m]\<rparr>)"
  "tables_ok c \<Longrightarrow> tables_ok (c\<lparr>PreparationPayloads := (PreparationPayloads c)[i := None]\<rparr>)"
  "tables_ok c \<Longrightarrow> tables_ok (c\<lparr>PreCommitPayloads := (PreCommitPayloads c)[i := None]\<rparr>)"
  "tables_ok c \<Longrightarrow> tables_ok (c\<lparr>CommitPayloads := (CommitPayloads c)[i := None]\<rparr>)"
  by (simp_all add: tables_ok_def ctxN_def filed_put filed_drop)

lemma RequestSentOrReceived_put:
  "RequestSentOrReceived c \<Longrightarrow>
     RequestSentOrReceived (c\<lparr>PreparationPayloads := (PreparationPayloads c)[i := Some m]\<rparr>)"
  "RequestSentOrReceived c \<Longrightarrow> i \<noteq> PrimaryIndex c \<Longrightarrow>
     RequestSentOrReceived (c\<lparr>PreparationPayloads := (PreparationPayloads c)[i := None]\<rparr>)"
  by (simp_all add: RequestSentOrReceived_def slot_update)

lemma RequestSentOrReceived_upd:
  "RequestSentOrReceived (c\<lparr>PreCommitPayloads := a\<rparr>) = RequestSentOrReceived c"
  "RequestSentOrReceived (c\<lparr>CommitPayloads := a\<rparr>) = RequestSentOrReceived c"
  "RequestSentOrReceived (c\<lparr>ChangeViewPayloads := a\<rparr>) = RequestSentOrReceived c"
  "RequestSentOrReceived (c\<lparr>header := h\<rparr>) = RequestSentOrReceived c"
  "RequestSentOrReceived (c\<lparr>preHeader := ph\<rparr>) = RequestSentOrReceived c"
  "RequestSentOrReceived (c\<lparr>blockSet := x\<rparr>) = RequestSentOrReceived c"
  "RequestSentOrReceived (c\<lparr>preBlockSet := x\<rparr>) = RequestSentOrReceived c"
  "RequestSentOrReceived (c\<lparr>blockProcessed := x\<rparr>) = RequestSentOrReceived c"
  "RequestSentOrReceived (c\<lparr>preBlockProcessed := x\<rparr>) = RequestSentOrReceived c"
  "RequestSentOrReceived (c\<lparr>log := es\<rparr>) = RequestSentOrReceived c"
  by (simp_all add: RequestSentOrReceived_def)

lemma RequestSentOrReceived_cong:
  "PreparationPayloads d = PreparationPayloads c \<Longrightarrow> PrimaryIndex d = PrimaryIndex c \<Longrightarrow>
     RequestSentOrReceived d = RequestSentOrReceived c"
  by (simp add: RequestSentOrReceived_def)

lemma quiet_wf:
  assumes "quiet cfg c d" and "wf cfg c"
  shows "wf cfg d"
proof -
  have q: "sameCore c d" "length (LastSeenMessage d) = length (LastSeenMessage c)"
    "cache_ok (dcache d)"
    using assms(1) wf_fields(11)[OF assms(2)] by (simp_all add: quiet_def)
  have r: "RequestSentOrReceived d = RequestSentOrReceived c"
    by (rule RequestSentOrReceived_cong) (use q(1) in \<open>simp_all only: sameCore_def\<close>)
  have t: "tables_ok d"
    by (rule tables_ok_sameCore[OF q(1,2) wf_fields(2)[OF assms(2)]])
  note sc = q(1)[unfolded sameCore_def] and f = wf_fields[OF assms(2)]
  show ?thesis
    by (rule wf_keep[OF assms(2)]) (simp_all only: sc q(2,3) r t, (rule f)+)
qed

lemma lstep_wf:
  assumes "lstep cfg c d" and "wf cfg c"
  shows "wf cfg d"
proof -
  note f = wf_fields[OF assms(2)]
  show ?thesis
    using assms(1)
  proof cases
    case lquiet
    then show ?thesis using assms(2) by (rule quiet_wf)
  next
    case (lprepare i m)
    then show ?thesis
      by (intro wf_keep[OF assms(2)])
        (simp_all add: f RequestSentOrReceived_put(1) tables_ok_put)
  next
    case (lunprepare i)
    then show ?thesis
      by (intro wf_keep[OF assms(2)])
        (simp_all add: f RequestSentOrReceived_put(2) tables_ok_put)
  qed (intro wf_keep[OF assms(2)]; simp add: f RequestSentOrReceived_upd tables_ok_put tables_ok_upd)+
qed

lemma kstep_wf:
  assumes "kstep cfg c d" and "wf cfg c"
  shows "wf cfg d"
  using assms(1)
proof cases
  case klocal
  then show ?thesis using assms(2) by (rule lstep_wf)
next
  case (kblock b ok)
  then show ?thesis
    by (intro wf_keep[OF assms(2)])
      (simp_all add: wf_fields[OF assms(2)] RequestSentOrReceived_upd tables_ok_upd)
qed

lemma nstep_wf:
  assumes "nstep cfg c d" and "wf cfg c"
  shows "wf cfg d"
  using assms(1)
proof cases
  case nview_same
  then show ?thesis using assms(2) by (rule kstep_wf)
next
  case (nview_change view ts)
  then have "view \<noteq> 0" by auto
  with nview_change show ?thesis using assms(2) by (blast intro: reset_view_wf)
qed

lemma ksteps_wf: "ksteps cfg c d \<Longrightarrow> wf cfg c \<Longrightarrow> wf cfg d"
  by (induction rule: rtranclp_induct) (auto intro: kstep_wf)

lemma nsteps_wf: "nsteps cfg c d \<Longrightarrow> wf cfg c \<Longrightarrow> wf cfg d"
  by (induction rule: rtranclp_induct) (auto intro: nstep_wf)

text \<open>Inside a height the block index and the validators stay, and the view never goes back.\<close>

lemma kstep_frame_all:
  assumes "kstep cfg c d"
  shows "BlockIndex d = BlockIndex c \<and> Validators d = Validators c \<and> ViewNumber d = ViewNumber c
    \<and> MyIndex d = MyIndex c \<and> PrimaryIndex d = PrimaryIndex c
    \<and> (blockProcessed c \<longrightarrow> blockProcessed d) \<and> (preBlockProcessed c \<longrightarrow> preBlockProcessed d)"
  using assms
proof cases
  case klocal
  then show ?thesis using lstep_frame_all by blast
next
  case (kblock b ok)
  then show ?thesis by simp
qed

lemma kstep_frame:
  assumes "kstep cfg c d"
  shows "BlockIndex d = BlockIndex c" "Validators d = Validators c" "ViewNumber d = ViewNumber c"
    "MyIndex d = MyIndex c" "PrimaryIndex d = PrimaryIndex c"
    "blockProcessed c \<longrightarrow> blockProcessed d" "preBlockProcessed c \<longrightarrow> preBlockProcessed d"
  using kstep_frame_all[OF assms] by blast+

lemma ksteps_frame:
  assumes "ksteps cfg c d"
  shows "BlockIndex d = BlockIndex c" "Validators d = Validators c" "ViewNumber d = ViewNumber c"
    "MyIndex d = MyIndex c" "PrimaryIndex d = PrimaryIndex c"
    "blockProcessed c \<longrightarrow> blockProcessed d" "preBlockProcessed c \<longrightarrow> preBlockProcessed d"
  using assms by (induction rule: rtranclp_induct) (simp_all add: kstep_frame)

lemma nstep_frame_all:
  assumes "nstep cfg c d"
  shows "BlockIndex d = BlockIndex c \<and> Validators d = Validators c \<and> ViewNumber c \<le> ViewNumber d
    \<and> (blockProcessed c \<longrightarrow> blockProcessed d) \<and> (preBlockProcessed c \<longrightarrow> preBlockProcessed d)"
  using assms
proof cases
  case nview_same
  then show ?thesis using kstep_frame_all by fastforce
next
  case (nview_change view ts)
  then have "view \<noteq> 0" by auto
  with nview_change show ?thesis
    using reset_view_Ok(1,2,5,6)[of cfg view ts c d] reset_Ok(2)[of cfg view ts c d] by auto
qed

lemma nstep_frame:
  assumes "nstep cfg c d"
  shows "BlockIndex d = BlockIndex c" "Validators d = Validators c" "ViewNumber c \<le> ViewNumber d"
    "blockProcessed c \<longrightarrow> blockProcessed d" "preBlockProcessed c \<longrightarrow> preBlockProcessed d"
  using nstep_frame_all[OF assms] by blast+

lemma nsteps_frame:
  assumes "nsteps cfg c d"
  shows "BlockIndex d = BlockIndex c" "Validators d = Validators c" "ViewNumber c \<le> ViewNumber d"
    "blockProcessed c \<longrightarrow> blockProcessed d" "preBlockProcessed c \<longrightarrow> preBlockProcessed d"
  using assms
  by (induction rule: rtranclp_induct) (auto simp: nstep_frame intro: order_trans nstep_frame(3))

lemma nsteps_MyIndex: "nsteps cfg c d \<Longrightarrow> wf cfg c \<Longrightarrow> MyIndex d = MyIndex c"
  using nsteps_wf[of cfg c d] nsteps_frame(2)[of cfg c d] by (simp add: wf_def)

lemma nsteps_amev:
  "nsteps cfg c d \<Longrightarrow> isAntiMEVExtensionEnabled cfg d = isAntiMEVExtensionEnabled cfg c"
  using nsteps_frame(1)[of cfg c d] by (simp add: isAntiMEVExtensionEnabled_def)

lemma lsteps_amev:
  "lsteps cfg c d \<Longrightarrow> isAntiMEVExtensionEnabled cfg d = isAntiMEVExtensionEnabled cfg c"
  using lsteps_frame(1)[of cfg c d] by (simp add: isAntiMEVExtensionEnabled_def)

lemma lsteps_speaks: "lsteps cfg c d \<Longrightarrow> speaks cfg d = speaks cfg c"
  using lsteps_frame[of cfg c d] by (simp add: speaks_def WatchOnly_def IsPrimary_def)

lemma lsteps_WatchOnly: "lsteps cfg c d \<Longrightarrow> WatchOnly cfg d = WatchOnly cfg c"
  using lsteps_frame(4)[of cfg c d] by (simp add: WatchOnly_def)

lemma lsteps_wf: "lsteps cfg c d \<Longrightarrow> wf cfg c \<Longrightarrow> wf cfg d"
  using lsteps_ksteps ksteps_wf by blast

end
