(* ===== verification/Send_Steps.thy ===== *)
theory Send_Steps
  imports Node_Step
begin

section \<open>The statements of \<open>send.go\<close> and \<open>check.go\<close> as steps\<close>

text \<open>
  Every statement of \<open>Dbft_Round\<close> and \<open>Dbft_Send\<close> is a sequence of steps of \<open>Node_Step\<close>, under the
  conditions its callers establish.
\<close>

lemmas steps_trans = rtranclp_trans

lemma lstep_lsteps: "lstep cfg c d \<Longrightarrow> lsteps cfg c d"
  by (rule r_into_rtranclp)

text \<open>Changes of fields that the protocol steps do not look at.\<close>

lemma silent_lsteps:
  assumes "sameCore c d" and "length (LastSeenMessage d) = length (LastSeenMessage c)"
    and "cache_ok (dcache c) \<Longrightarrow> cache_ok (dcache d)" and "log d = log c"
  shows "lsteps cfg c d"
  using assms by (intro lstep_lsteps lquiet) (simp add: quiet_def)

lemma quietEffect_simps [simp]:
  "quietEffect cfg c (EBroadcast m) \<longleftrightarrow>
     speaks cfg c \<and> cmType m \<noteq> CommitType \<and> validatorIndex m = word_of_int (MyIndex c)
     \<and> height m = BlockIndex c"
  "\<not> quietEffect cfg c (EProcessBlock b ok)"
  "quietEffect cfg c (ECall a) \<longleftrightarrow> \<not> isHeightCall a"
  "quietEffect cfg c (ETimerReset h v t)" "quietEffect cfg c (ETimerExtend t)"
  "quietEffect cfg c EStopTxFlow" "quietEffect cfg c (ERequestTx hs)"
  "quietEffect cfg c ESubscribeForTxs" "quietEffect cfg c (EProcessPreBlock pb ok)"
  by (simp_all add: quietEffect_def)

lemma emit_lsteps:
  assumes "emit e c = Inr d" and "quietEffect cfg c e"
  shows "lsteps cfg c d"
proof -
  have "d = c\<lparr>log := e # log c\<rparr>" using assms(1) by (simp add: emit_def)
  then have "quiet cfg c d"
    using assms(2) by (simp add: quiet_def sameCore_def)
  then show ?thesis by (intro lstep_lsteps lquiet)
qed

lemma changeTimer_lsteps: "changeTimer t c = Inr d \<Longrightarrow> lsteps cfg c d"
  unfolding changeTimer_def by (erule emit_lsteps) simp

lemma stopTxFlow_lsteps: "emit EStopTxFlow c = Inr d \<Longrightarrow> lsteps cfg c d"
  by (erule emit_lsteps) simp

lemma extendTimer_lsteps: "extendTimer cfg n c = Inr d \<Longrightarrow> lsteps cfg c d"
  unfolding extendTimer_def
  by (auto split: if_splits elim!: emit_lsteps)

lemma subscribeForTransactions_lsteps:
  assumes "subscribeForTransactions c = Inr d"
  shows "lsteps cfg c d"
proof -
  have "d = c\<lparr>txSubscriptionOn := True, log := ESubscribeForTxs # log c\<rparr>"
    using assms by (simp add: subscribeForTransactions_def)
  then have "quiet cfg c d" by (simp add: quiet_def sameCore_def)
  then show ?thesis by (intro lstep_lsteps lquiet)
qed

lemma unsubscribe_lsteps: "unsubscribeFromTransactions c = Inr d \<Longrightarrow> lsteps cfg c d"
  by (rule silent_lsteps) (auto simp: unsubscribeFromTransactions_def sameCore_def)

lemma broadcast_lsteps:
  "broadcast m c = Inr d \<Longrightarrow> speaks cfg c \<Longrightarrow> cmType m \<noteq> CommitType \<Longrightarrow>
     height m = BlockIndex c \<Longrightarrow> lsteps cfg c d"
  unfolding broadcast_def by (erule emit_lsteps) simp

lemma ownPayload_sel [simp]:
  "cmType (ownPayload c t m) = t" "viewNumber (ownPayload c t m) = ViewNumber c"
  "body (ownPayload c t m) = m" "validatorIndex (ownPayload c t m) = word_of_int (MyIndex c)"
  "height (ownPayload c t m) = BlockIndex c"
  by (simp_all add: ownPayload_def)

lemma speaks_index: "speaks cfg c \<Longrightarrow> 0 \<le> MyIndex c"
  by (simp add: speaks_def)

lemma own_slot:
  assumes "wf cfg c" and "0 \<le> MyIndex c"
  shows "nat (MyIndex c) < ctxN c" and "(word_of_int (MyIndex c) :: u16) = of_nat (nat (MyIndex c))"
    and "int (nat (MyIndex c)) = MyIndex c"
  using wf_fields(4)[OF assms(1)] assms(2) by simp_all

subsection \<open>Headers and blocks\<close>

lemma header_lsteps:
  assumes "\<not> blockProcessed c" "RequestSentOrReceived c"
    and "isAntiMEVExtensionEnabled cfg c \<Longrightarrow> preBlockProcessed c" and "x \<Longrightarrow> h \<noteq> None"
  shows "lsteps cfg c (c\<lparr>header := h, blockSet := x\<rparr>)"
  using assms by (intro lstep_lsteps lheader) simp_all

lemma preHeader_lsteps:
  assumes "RequestSentOrReceived c" and "x \<Longrightarrow> h \<noteq> None"
  shows "lsteps cfg c (c\<lparr>preHeader := h, preBlockSet := x\<rparr>)"
  using assms by (intro lstep_lsteps lpreheader) simp_all

text \<open>When only the header changes, the flag is kept.\<close>

lemma MakeHeader_eq:
  "MakeHeader cfg c = (h, d) \<Longrightarrow> d = c\<lparr>header := header d, blockSet := blockSet c\<rparr>"
  by (auto simp: MakeHeader_def Let_def split: if_splits)

lemma MakeHeader_lsteps:
  assumes "MakeHeader cfg c = (h, d)" and "wf cfg c" and "\<not> blockProcessed c"
  shows "lsteps cfg c d" and "h \<noteq> None \<Longrightarrow> header d = h"
    and "h \<noteq> None \<Longrightarrow> RequestSentOrReceived d"
    and "h \<noteq> None \<Longrightarrow> isAntiMEVExtensionEnabled cfg d \<Longrightarrow> preBlockProcessed d"
proof -
  have *: "lsteps cfg c d \<and> (h \<noteq> None \<longrightarrow> header d = h)"
  proof (cases "header c = None \<and> RequestSentOrReceived c
      \<and> (isAntiMEVExtensionEnabled cfg c \<longrightarrow> preBlockProcessed c)")
    case True
    then have d: "d = c\<lparr>header := h\<rparr>"
      using assms(1) by (auto simp: MakeHeader_def Let_def)
    have "\<not> blockSet c" using True wf_fields(9)[OF assms(2)] by simp
    then have "c\<lparr>header := h\<rparr> = c\<lparr>header := h, blockSet := False\<rparr>" by simp
    then show ?thesis
      using header_lsteps[OF assms(3), of cfg False h] True d by simp
  next
    case False
    then have "d = c \<and> (h \<noteq> None \<longrightarrow> header c = h)"
      using assms(1) by (auto simp: MakeHeader_def split: if_splits)
    then show ?thesis by simp
  qed
  then show "lsteps cfg c d" and h: "h \<noteq> None \<Longrightarrow> header d = h" by blast+
  then have w: "wf cfg d" using lsteps_wf assms(2) by blast
  show "h \<noteq> None \<Longrightarrow> RequestSentOrReceived d"
    and "h \<noteq> None \<Longrightarrow> isAntiMEVExtensionEnabled cfg d \<Longrightarrow> preBlockProcessed d"
    using wf_fields(6,7)[OF w] h by auto
qed

lemma CreateBlock_lsteps:
  assumes "CreateBlock cfg c = (h, d)" and "wf cfg c" and "\<not> blockProcessed c"
  shows "lsteps cfg c d" and "h \<noteq> None \<Longrightarrow> header d = h"
proof -
  have "lsteps cfg c d \<and> (h \<noteq> None \<longrightarrow> header d = h)"
  proof (cases "blockSet c")
    case True
    then show ?thesis using assms(1) by (auto simp: CreateBlock_def)
  next
    case False
    obtain h1 c1 where m: "MakeHeader cfg c = (h1, c1)" by fastforce
    note s = MakeHeader_lsteps[OF m assms(2,3)]
    have nb: "\<not> blockProcessed c1" using lsteps_frame(6)[OF s(1)] assms(3) by simp
    show ?thesis
    proof (cases h1)
      case None
      then show ?thesis using assms(1) False m s(1) by (simp add: CreateBlock_def)
    next
      case (Some b1)
      let ?b = "blockSetTransactions cfg (proposedTransactions c1) b1"
      have "CreateBlock cfg c = (Some ?b, c1\<lparr>header := Some ?b, blockSet := True\<rparr>)"
        by (simp add: CreateBlock_def Let_def False m Some)
      then have d: "h = Some ?b" "d = c1\<lparr>header := Some ?b, blockSet := True\<rparr>"
        using assms(1) by simp_all
      have "lsteps cfg c1 (c1\<lparr>header := Some ?b, blockSet := True\<rparr>)"
        using s(3,4) Some nb by (intro header_lsteps) simp_all
      then show ?thesis using rtranclp_trans[OF s(1)] d by simp
    qed
  qed
  then show "lsteps cfg c d" and "h \<noteq> None \<Longrightarrow> header d = h" by blast+
qed

lemma CreateBlock_kept:
  "CreateBlock cfg c = (h, d) \<Longrightarrow> CommitPayloads d = CommitPayloads c
     \<and> hasAllTransactions d = hasAllTransactions c"
  by (auto simp: CreateBlock_def MakeHeader_def Let_def hasAllTransactions_def
      split: if_splits option.splits prod.splits)

lemma MakePreHeader_lsteps:
  assumes "MakePreHeader cfg c = (h, d)" and "wf cfg c"
  shows "lsteps cfg c d" and "h \<noteq> None \<Longrightarrow> preHeader d = h" and "h \<noteq> None \<Longrightarrow> RequestSentOrReceived d"
proof -
  have *: "lsteps cfg c d \<and> (h \<noteq> None \<longrightarrow> preHeader d = h)"
  proof (cases "preHeader c = None \<and> RequestSentOrReceived c")
    case True
    then have d: "d = c\<lparr>preHeader := h\<rparr>"
      using assms(1) by (auto simp: MakePreHeader_def Let_def)
    have "\<not> preBlockSet c" using True wf_fields(10)[OF assms(2)] by simp
    then have "c\<lparr>preHeader := h\<rparr> = c\<lparr>preHeader := h, preBlockSet := False\<rparr>" by simp
    then show ?thesis
      using preHeader_lsteps[of c False h cfg] True d by simp
  next
    case False
    then have "d = c \<and> (h \<noteq> None \<longrightarrow> preHeader c = h)"
      using assms(1) by (auto simp: MakePreHeader_def split: if_splits)
    then show ?thesis by simp
  qed
  then show "lsteps cfg c d" and h: "h \<noteq> None \<Longrightarrow> preHeader d = h" by blast+
  then have w: "wf cfg d" using lsteps_wf assms(2) by blast
  show "h \<noteq> None \<Longrightarrow> RequestSentOrReceived d"
    using wf_fields(8)[OF w] h by auto
qed

lemma CreatePreBlock_lsteps:
  assumes "CreatePreBlock cfg c = (h, d)" and "wf cfg c"
  shows "lsteps cfg c d" and "h \<noteq> None \<Longrightarrow> preHeader d = h"
proof -
  have "lsteps cfg c d \<and> (h \<noteq> None \<longrightarrow> preHeader d = h)"
  proof (cases "preBlockSet c")
    case True
    then show ?thesis using assms(1) by (auto simp: CreatePreBlock_def)
  next
    case False
    obtain h1 c1 where m: "MakePreHeader cfg c = (h1, c1)" by fastforce
    note s = MakePreHeader_lsteps[OF m assms(2)]
    show ?thesis
    proof (cases h1)
      case None
      then show ?thesis using assms(1) False m s(1) by (simp add: CreatePreBlock_def)
    next
      case (Some b1)
      let ?b = "preBlockSetTransactions cfg (proposedTransactions c1) b1"
      have "CreatePreBlock cfg c = (Some ?b, c1\<lparr>preHeader := Some ?b, preBlockSet := True\<rparr>)"
        by (simp add: CreatePreBlock_def Let_def False m Some)
      then have d: "h = Some ?b" "d = c1\<lparr>preHeader := Some ?b, preBlockSet := True\<rparr>"
        using assms(1) by simp_all
      have "lsteps cfg c1 (c1\<lparr>preHeader := Some ?b, preBlockSet := True\<rparr>)"
        using s(3) Some by (intro preHeader_lsteps) simp_all
      then show ?thesis using rtranclp_trans[OF s(1)] d by simp
    qed
  qed
  then show "lsteps cfg c d" and "h \<noteq> None \<Longrightarrow> preHeader d = h" by blast+
qed

lemma CreatePreBlock_kept:
  "CreatePreBlock cfg c = (h, d) \<Longrightarrow> PreCommitPayloads d = PreCommitPayloads c
     \<and> CommitPayloads d = CommitPayloads c \<and> PreparationPayloads d = PreparationPayloads c
     \<and> hasAllTransactions d = hasAllTransactions c \<and> preBlockProcessed d = preBlockProcessed c"
  by (auto simp: CreatePreBlock_def MakePreHeader_def Let_def hasAllTransactions_def
      split: if_splits option.splits prod.splits)

subsection \<open>Own payloads\<close>

text \<open>Storing a payload and dropping one.\<close>

lemma put_preCommit_lsteps:
  assumes "wf cfg c" "0 \<le> MyIndex c" "\<not> blockProcessed c" "isAntiMEVExtensionEnabled cfg c"
    and "slot (PreCommitPayloads c) (nat (MyIndex c)) \<noteq> None \<Longrightarrow>
           slot (PreCommitPayloads c) (nat (MyIndex c)) = Some m"
    and "cmType m = PreCommitType" "height m = BlockIndex c"
    and "validatorIndex m = word_of_int (MyIndex c)"
  shows "lsteps cfg c (c\<lparr>PreCommitPayloads := (PreCommitPayloads c)[nat (MyIndex c) := Some m]\<rparr>)"
proof (cases "slot (PreCommitPayloads c) (nat (MyIndex c))")
  case None
  show ?thesis
    using assms(2-4,6-8) own_slot(1)[OF assms(1,2)] None by (intro lstep_lsteps lprecommit) simp_all
next
  case (Some m')
  then have "(PreCommitPayloads c)[nat (MyIndex c) := Some m] = PreCommitPayloads c"
    using assms(5) by (auto simp: slot_def split: if_splits intro: list_update_same_conv[THEN iffD2])
  then show ?thesis by simp
qed

lemma put_commit_lsteps:
  assumes "wf cfg c" "0 \<le> MyIndex c" "\<not> blockProcessed c"
    and "slot (CommitPayloads c) (nat (MyIndex c)) \<noteq> None \<Longrightarrow>
           slot (CommitPayloads c) (nat (MyIndex c)) = Some m"
    and "cmType m = CommitType" "height m = BlockIndex c"
    and "validatorIndex m = word_of_int (MyIndex c)"
  shows "lsteps cfg c (c\<lparr>CommitPayloads := (CommitPayloads c)[nat (MyIndex c) := Some m]\<rparr>)"
proof (cases "slot (CommitPayloads c) (nat (MyIndex c))")
  case None
  show ?thesis
    using assms(2,3,5-7) own_slot(1)[OF assms(1,2)] None by (intro lstep_lsteps lcommit) simp_all
next
  case (Some m')
  then have "(CommitPayloads c)[nat (MyIndex c) := Some m] = CommitPayloads c"
    using assms(4) by (auto simp: slot_def split: if_splits intro: list_update_same_conv[THEN iffD2])
  then show ?thesis by simp
qed

lemma stored_preCommit:
  assumes "wf cfg c" and "slot (PreCommitPayloads c) i = Some m"
  shows "cmType m = PreCommitType" "height m = BlockIndex c" "validatorIndex m = of_nat i"
  using wf_fields(2)[OF assms(1)] filedD[OF _ assms(2)] unfolding tables_ok_def by blast+

lemma stored_commit:
  assumes "wf cfg c" and "slot (CommitPayloads c) i = Some m"
  shows "cmType m = CommitType" "height m = BlockIndex c" "validatorIndex m = of_nat i"
  using wf_fields(2)[OF assms(1)] filedD[OF _ assms(2)] unfolding tables_ok_def by blast+

lemma stored_changeView:
  assumes "wf cfg c" and "slot (ChangeViewPayloads c) i = Some m"
  shows "cmType m = ChangeViewType" "height m = BlockIndex c" "validatorIndex m = of_nat i"
  using wf_fields(2)[OF assms(1)] filedD[OF _ assms(2)] unfolding tables_ok_def by blast+

text \<open>The message that \<open>makePreCommit\<close> and \<open>makeCommit\<close> return fits the node's own slot.\<close>

lemma makePreCommit_lsteps:
  assumes "makePreCommit cfg c = Inr (mo, d)" and "wf cfg c" and "0 \<le> MyIndex c"
  shows "lsteps cfg c d"
    and "mo = Some m \<Longrightarrow> (slot (PreCommitPayloads d) (nat (MyIndex d)) \<noteq> None \<longrightarrow>
           slot (PreCommitPayloads d) (nat (MyIndex d)) = Some m)
         \<and> cmType m = PreCommitType \<and> height m = BlockIndex d
         \<and> validatorIndex m = word_of_int (MyIndex d)"
proof -
  let ?own = "\<lambda>d m. (slot (PreCommitPayloads d) (nat (MyIndex d)) \<noteq> None \<longrightarrow>
           slot (PreCommitPayloads d) (nat (MyIndex d)) = Some m)
         \<and> cmType m = PreCommitType \<and> height m = BlockIndex d
         \<and> validatorIndex m = word_of_int (MyIndex d)"
  have "lsteps cfg c d \<and> (\<forall>m. mo = Some m \<longrightarrow> ?own d m)"
  proof (cases "slot (PreCommitPayloads c) (nat (MyIndex c))")
    case (Some m)
    then show ?thesis
      using assms(1) stored_preCommit[OF assms(2) Some] own_slot[OF assms(2,3)]
      by (auto simp: makePreCommit_def)
  next
    case None
    obtain b c1 where b: "CreatePreBlock cfg c = (b, c1)" by fastforce
    note s = CreatePreBlock_lsteps[OF b assms(2)]
    note w1 = lsteps_wf[OF s(1) assms(2)]
    show ?thesis
    proof (cases "mo")
      case mo: None
      then have "d = c1"
        using assms(1) None b
        by (auto simp: makePreCommit_def thenDo_Ok_iff Let_def split: option.splits)
      then show ?thesis using s(1) mo by simp
    next
      case mo: (Some m)
      obtain pb pb' pc where pb: "b = Some pb" and d: "d = c1\<lparr>preHeader := Some pb'\<rparr>"
        and m: "m = ownPayload d PreCommitType (PreCommitMsg pc)"
        using assms(1) None b mo
        by (auto simp: makePreCommit_def thenDo_Ok_iff Let_def split: option.splits)
      have h: "preHeader c1 = Some pb" using s(2) pb by simp
      have "lsteps cfg c1 (c1\<lparr>preHeader := Some pb', preBlockSet := preBlockSet c1\<rparr>)"
        using wf_fields(8)[OF w1] h by (intro preHeader_lsteps) simp_all
      then have "lsteps cfg c d" using rtranclp_trans[OF s(1)] d by simp
      moreover have "PreCommitPayloads d = PreCommitPayloads c" "MyIndex d = MyIndex c"
        using CreatePreBlock_kept[OF b] lsteps_frame(4)[OF s(1)] d by simp_all
      ultimately show ?thesis using None m mo by simp
    qed
  qed
  then show "lsteps cfg c d" and "mo = Some m \<Longrightarrow> ?own d m" by blast+
qed

lemma makeCommit_lsteps:
  assumes "makeCommit cfg c = (mo, d)" and "wf cfg c" and "0 \<le> MyIndex c" and "\<not> blockProcessed c"
  shows "lsteps cfg c d"
    and "mo = Some m \<Longrightarrow> (slot (CommitPayloads d) (nat (MyIndex d)) \<noteq> None \<longrightarrow>
           slot (CommitPayloads d) (nat (MyIndex d)) = Some m)
         \<and> cmType m = CommitType \<and> height m = BlockIndex d
         \<and> validatorIndex m = word_of_int (MyIndex d)"
proof -
  let ?own = "\<lambda>d m. (slot (CommitPayloads d) (nat (MyIndex d)) \<noteq> None \<longrightarrow>
           slot (CommitPayloads d) (nat (MyIndex d)) = Some m)
         \<and> cmType m = CommitType \<and> height m = BlockIndex d
         \<and> validatorIndex m = word_of_int (MyIndex d)"
  have "lsteps cfg c d \<and> (\<forall>m. mo = Some m \<longrightarrow> ?own d m)"
  proof (cases "slot (CommitPayloads c) (nat (MyIndex c))")
    case (Some m)
    then show ?thesis
      using assms(1) stored_commit[OF assms(2) Some] own_slot[OF assms(2,3)]
      by (auto simp: makeCommit_def)
  next
    case None
    obtain b c1 where b: "MakeHeader cfg c = (b, c1)" by fastforce
    note s = MakeHeader_lsteps[OF b assms(2,4)]
    show ?thesis
    proof (cases "mo")
      case mo: None
      then have "d = c1"
        using assms(1) None b by (auto simp: makeCommit_def Let_def split: option.splits)
      then show ?thesis using s(1) mo by simp
    next
      case mo: (Some m)
      obtain pb pb' where pb: "b = Some pb" and d: "d = c1\<lparr>header := Some pb'\<rparr>"
        and m: "m = ownPayload d CommitType (CommitMsg (NewCommit (blockSignature cfg pb')))"
        using assms(1) None b mo by (auto simp: makeCommit_def Let_def split: option.splits)
      have "lsteps cfg c1 (c1\<lparr>header := Some pb', blockSet := blockSet c1\<rparr>)"
        using s(3,4) pb lsteps_frame(6)[OF s(1)] assms(4) by (intro header_lsteps) simp_all
      then have "lsteps cfg c d" using rtranclp_trans[OF s(1)] d by simp
      moreover have "CommitPayloads d = CommitPayloads c"
        by (subst d, subst MakeHeader_eq[OF b]) simp
      moreover have "MyIndex d = MyIndex c"
        using lsteps_frame(4)[OF s(1)] d by simp
      ultimately show ?thesis using None m mo by simp
    qed
  qed
  then show "lsteps cfg c d" and "mo = Some m \<Longrightarrow> ?own d m" by blast+
qed

lemma sendPreCommit_lsteps:
  assumes "sendPreCommit cfg c = Inr d" and "wf cfg c" and "speaks cfg c"
    and "\<not> blockProcessed c" and "isAntiMEVExtensionEnabled cfg c"
  shows "lsteps cfg c d"
proof -
  obtain mo c1 where mk: "makePreCommit cfg c = Inr (mo, c1)"
    using assms(1) by (auto simp: sendPreCommit_def thenDo_Ok_iff)
  note i = speaks_index[OF assms(3)]
  note s = makePreCommit_lsteps[OF mk assms(2) i]
  show ?thesis
  proof (cases mo)
    case None
    then show ?thesis using assms(1) mk s(1) by (simp add: sendPreCommit_def)
  next
    case (Some m)
    let ?c2 = "c1\<lparr>PreCommitPayloads := (PreCommitPayloads c1)[nat (MyIndex c1) := Some m]\<rparr>"
    have b: "broadcast m ?c2 = Inr d"
      using assms(1) mk Some by (simp add: sendPreCommit_def)
    have p: "lsteps cfg c1 ?c2"
      using s(2)[OF Some] lsteps_wf[OF s(1) assms(2)] lsteps_frame[OF s(1)] lsteps_amev[OF s(1)] i assms(4,5)
      by (intro put_preCommit_lsteps) simp_all
    have "lsteps cfg ?c2 d"
      using s(2)[OF Some] lsteps_speaks[OF rtranclp_trans[OF s(1) p]] lsteps_frame(1)[OF p] assms(3)
      by (intro broadcast_lsteps[OF b]) simp_all
    then show ?thesis using rtranclp_trans[OF rtranclp_trans[OF s(1) p]] by blast
  qed
qed

lemma sendCommit_lsteps:
  assumes "sendCommit cfg c = Inr d" and "wf cfg c" and "speaks cfg c" and "\<not> blockProcessed c"
  shows "lsteps cfg c d"
proof -
  obtain mo c1 where mk: "makeCommit cfg c = (mo, c1)" by fastforce
  note i = speaks_index[OF assms(3)]
  note s = makeCommit_lsteps[OF mk assms(2) i assms(4)]
  note w1 = lsteps_wf[OF s(1) assms(2)]
  show ?thesis
  proof (cases mo)
    case None
    then show ?thesis using assms(1) mk s(1) by (simp add: sendCommit_def)
  next
    case (Some m)
    let ?c2 = "c1\<lparr>CommitPayloads := (CommitPayloads c1)[nat (MyIndex c1) := Some m]\<rparr>"
    have i1: "0 \<le> MyIndex c1" using i lsteps_frame(4)[OF s(1)] by simp
    have p: "lsteps cfg c1 ?c2"
      using s(2)[OF Some] w1 lsteps_frame[OF s(1)] i assms(4)
      by (intro put_commit_lsteps) simp_all
    have d: "d = ?c2\<lparr>log := EBroadcast (SetValidatorIndex (word_of_int (MyIndex ?c2)) m) # log ?c2\<rparr>"
      using assms(1) mk Some by (simp add: sendCommit_def broadcast_def emit_def)
    have "lstep cfg ?c2 d"
      unfolding d
    proof (rule lsaycommit)
      show "speaks cfg ?c2"
        using lsteps_speaks[OF rtranclp_trans[OF s(1) p]] assms(3) by simp
      show "slot (CommitPayloads ?c2) (nat (MyIndex ?c2)) = Some m"
        using own_slot(1)[OF w1 i1] wf_tables(3)[OF w1] by simp
    qed
    then show ?thesis using rtranclp_trans[OF s(1) p] by (rule rtranclp.rtrancl_into_rtrancl[rotated])
  qed
qed

lemma sendPrepareResponse_lsteps:
  assumes "sendPrepareResponse cfg c = Inr d" and "wf cfg c" and "speaks cfg c"
  shows "lsteps cfg c d"
proof -
  note i = speaks_index[OF assms(3)] and o = own_slot[OF assms(2) speaks_index[OF assms(3)]]
  obtain m c1 c2 where mk: "makePrepareResponse cfg c = Inr (m, c1)"
    and e: "emit EStopTxFlow c1 = Inr c2" and b: "broadcast m c2 = Inr d"
    using assms(1) by (auto simp: sendPrepareResponse_def thenDo_Ok_iff)
  obtain r where m: "m = ownPayload c PrepareResponseType (PrepareResponseMsg r)"
    and c1: "c1 = c\<lparr>PreparationPayloads := (PreparationPayloads c)[nat (MyIndex c) := Some m]\<rparr>"
    using mk by (auto simp: makePrepareResponse_def Let_def split: option.splits)
  have s1: "lsteps cfg c c1"
    unfolding c1 using o(1) i by (intro lstep_lsteps lprepare) (simp_all add: m)
  note s2 = stopTxFlow_lsteps[OF e, of cfg]
  have "lsteps cfg c2 d"
    using m lsteps_speaks[OF rtranclp_trans[OF s1 s2]] lsteps_frame(1)[OF rtranclp_trans[OF s1 s2]] assms(3)
    by (intro broadcast_lsteps[OF b]) simp_all
  then show ?thesis using rtranclp_trans[OF rtranclp_trans[OF s1 s2]] by blast
qed

subsection \<open>Verification loops and quorum checks\<close>

lemma drop_preCommit_lsteps:
  "\<not> blockProcessed c \<Longrightarrow> lsteps cfg c (c\<lparr>PreCommitPayloads := (PreCommitPayloads c)[i := None]\<rparr>)"
  by (intro lstep_lsteps lunprecommit)

lemma drop_commit_lsteps:
  "\<not> blockProcessed c \<Longrightarrow> isAntiMEVExtensionEnabled cfg c \<Longrightarrow>
     lsteps cfg c (c\<lparr>CommitPayloads := (CommitPayloads c)[i := None]\<rparr>)"
  by (intro lstep_lsteps luncommit)

text \<open>A loop of local steps is a sequence of local steps.\<close>

lemma forEach_lsteps:
  assumes "\<And>x t u. wf cfg t \<Longrightarrow> \<not> blockProcessed t \<Longrightarrow>
      isAntiMEVExtensionEnabled cfg t = isAntiMEVExtensionEnabled cfg c \<Longrightarrow>
      f x t = Inr u \<Longrightarrow> lsteps cfg t u"
    and "wf cfg c" and "\<not> blockProcessed c" and "forEach f xs c = Inr d"
  shows "lsteps cfg c d"
proof -
  let ?P = "\<lambda>t. wf cfg t \<and> \<not> blockProcessed t
              \<and> isAntiMEVExtensionEnabled cfg t = isAntiMEVExtensionEnabled cfg c"
  have "lsteps cfg c d \<and> ?P d"
  proof (rule forEach_rel[where R = "lsteps cfg" and P = ?P and f = f and xs = xs])
    fix x t u
    assume "?P t" and "f x t = Inr u"
    then have s: "lsteps cfg t u" using assms(1) by blast
    with \<open>?P t\<close> show "lsteps cfg t u \<and> ?P u"
      using lsteps_wf[OF s] lsteps_frame(6)[OF s] lsteps_amev[OF s] by simp
  qed (use assms(2-4) in \<open>auto intro: rtranclp_trans\<close>)
  then show ?thesis by blast
qed

lemma verifyPreCommitAt_lsteps:
  assumes "verifyPreCommitAt cfg i c = Inr d" and "wf cfg c" and "\<not> blockProcessed c"
  shows "lsteps cfg c d"
proof -
  obtain b c1 where b: "CreatePreBlock cfg c = (b, c1)" by fastforce
  note s = CreatePreBlock_lsteps(1)[OF b assms(2)]
  have nb: "\<not> blockProcessed c1" using lsteps_frame(6)[OF s] assms(3) by simp
  have "d = c \<or> d = c1 \<or> d = c1\<lparr>PreCommitPayloads := (PreCommitPayloads c1)[i := None]\<rparr>"
    using assms(1) b by (auto simp: verifyPreCommitAt_def split: option.splits if_splits)
  then show ?thesis
    using s rtranclp_trans[OF s drop_preCommit_lsteps[OF nb]] by blast
qed

lemma verifyPreCommitPayloads_lsteps:
  assumes "verifyPreCommitPayloadsAgainstPreBlock cfg c = Inr d" and "wf cfg c"
    and "\<not> blockProcessed c"
  shows "lsteps cfg c d"
proof (cases "hasAllTransactions c")
  case True
  then have l: "forEach (verifyPreCommitAt cfg) [0..<length (PreCommitPayloads c)] c = Inr d"
    using assms(1) by (simp add: verifyPreCommitPayloadsAgainstPreBlock_def)
  show ?thesis
    by (rule forEach_lsteps[OF _ assms(2,3) l]) (rule verifyPreCommitAt_lsteps)
next
  case False
  then show ?thesis using assms(1) by (simp add: verifyPreCommitPayloadsAgainstPreBlock_def)
qed

lemma verifyCommitAt_lsteps:
  assumes "verifyCommitAt cfg i c = Inr d" and "wf cfg c" and "\<not> blockProcessed c"
    and "isAntiMEVExtensionEnabled cfg c"
  shows "lsteps cfg c d"
proof -
  obtain b c1 where b: "MakeHeader cfg c = (b, c1)" by fastforce
  note s = MakeHeader_lsteps(1)[OF b assms(2,3)]
  have nb: "\<not> blockProcessed c1" using lsteps_frame(6)[OF s] assms(3) by simp
  have a: "isAntiMEVExtensionEnabled cfg c1" using lsteps_amev[OF s] assms(4) by simp
  have "d = c \<or> d = c1 \<or> d = c1\<lparr>CommitPayloads := (CommitPayloads c1)[i := None]\<rparr>"
    using assms(1) b by (auto simp: verifyCommitAt_def split: option.splits if_splits)
  then show ?thesis
    using s rtranclp_trans[OF s drop_commit_lsteps[OF nb a]] by blast
qed

lemma verifyCommitPayloads_lsteps:
  assumes "verifyCommitPayloadsAgainstHeader cfg c = Inr d" and "wf cfg c"
    and "\<not> blockProcessed c" and "isAntiMEVExtensionEnabled cfg c"
  shows "lsteps cfg c d"
  by (rule forEach_lsteps[OF _ assms(2,3) assms(1)[unfolded verifyCommitPayloadsAgainstHeader_def]])
    (rule verifyCommitAt_lsteps, use assms(4) in simp_all)

text \<open>Without a header the loop does nothing.\<close>

lemma verifyCommitPayloads_noop:
  assumes "wf cfg c" and "\<not> RequestSentOrReceived c"
  shows "verifyCommitPayloadsAgainstHeader cfg c = Inr c"
proof -
  have "header c = None" using assms wf_fields(6)[OF assms(1)] by blast
  then have "verifyCommitAt cfg i c = Inr c" for i
    using assms(2) by (simp add: verifyCommitAt_def MakeHeader_def split: option.split)
  then have "forEach (verifyCommitAt cfg) xs c = Inr c" for xs
    by (induction xs) simp_all
  then show ?thesis by (simp add: verifyCommitPayloadsAgainstHeader_def)
qed

lemma checkCommit_ksteps:
  assumes "checkCommit cfg c = Inr d" and "wf cfg c" and "\<not> blockProcessed c"
  shows "ksteps cfg c d"
proof (cases "hasAllTransactions c \<and> ctxM c \<le> countView (ViewNumber c) (CommitPayloads c)")
  case True
  obtain b c1 where b: "CreateBlock cfg c = (b, c1)" by fastforce
  note s = CreateBlock_lsteps[OF b assms(2,3)]
  have nb: "\<not> blockProcessed c1" using lsteps_frame(6)[OF s(1)] assms(3) by simp
  have q: "hasAllTransactions c1" "ctxM c1 \<le> countView (ViewNumber c1) (CommitPayloads c1)"
    using True CreateBlock_kept[OF b] lsteps_frame[OF s(1)] by (simp_all add: ctxM_def ctxF_def)
  obtain bl where bl: "b = Some bl"
    using assms(1) True b by (cases b) (simp_all add: checkCommit_def)
  let ?ok = "ProcessBlock cfg (log c1) bl"
  have "d = c1\<lparr>log := EProcessBlock bl ?ok # log c1, blockProcessed := ?ok\<rparr>"
    using assms(1) True b bl nb
    by (auto simp: checkCommit_def emit_def Let_def split: if_splits)
  moreover have "kstep cfg c1 (c1\<lparr>log := EProcessBlock bl ?ok # log c1, blockProcessed := ?ok\<rparr>)"
    using nb q s(2) bl by (intro kblock) simp_all
  ultimately show ?thesis
    using rtranclp.rtrancl_into_rtrancl[OF lsteps_ksteps[OF s(1)]] by simp
next
  case False
  then show ?thesis using assms(1) by (auto simp: checkCommit_def split: if_splits)
qed

lemma processPreBlock_lsteps:
  assumes "processPreBlock cfg pb c = Inr (go, d)"
    and "isAntiMEVExtensionEnabled cfg c"
    and "ctxM c \<le> countView (ViewNumber c) (PreCommitPayloads c)"
  shows "lsteps cfg c d"
proof (cases "preBlockProcessed c")
  case True
  then show ?thesis using assms(1) by (simp add: processPreBlock_def)
next
  case False
  then obtain b where b: "pb = Some b"
    using assms(1) by (cases pb) (simp_all add: processPreBlock_def)
  let ?c1 = "c\<lparr>log := EProcessPreBlock b (ProcessPreBlock cfg (log c) b) # log c\<rparr>"
  have s: "lsteps cfg c ?c1"
    by (rule emit_lsteps[of "EProcessPreBlock b (ProcessPreBlock cfg (log c) b)"]) (simp_all add: emit_def)
  have "lsteps cfg ?c1 (?c1\<lparr>preBlockProcessed := True\<rparr>)" if "ProcessPreBlock cfg (log c) b"
    using assms(2,3) that
    by (intro lstep_lsteps lpreprocessed[of _ _ b "log c"])
      (simp_all add: isAntiMEVExtensionEnabled_def ctxM_def ctxF_def)
  moreover have "d = ?c1 \<or> (ProcessPreBlock cfg (log c) b \<and> d = ?c1\<lparr>preBlockProcessed := True\<rparr>)"
    using assms(1) False b by (auto simp: processPreBlock_def Let_def split: if_splits)
  ultimately show ?thesis using s rtranclp_trans[OF s] by blast
qed

lemma speaks_active: "wf cfg c \<Longrightarrow> \<not> WatchOnly cfg c \<Longrightarrow> speaks cfg c"
  by (simp add: WatchOnly_def speaks_def)

lemma checkPreCommit_ksteps:
  assumes "checkPreCommit cfg c = Inr d" and "wf cfg c" and "\<not> blockProcessed c"
    and "isAntiMEVExtensionEnabled cfg c"
  shows "ksteps cfg c d"
proof (cases "hasAllTransactions c \<and> ctxM c \<le> countView (ViewNumber c) (PreCommitPayloads c)")
  case True
  obtain pb c1 where pb: "CreatePreBlock cfg c = (pb, c1)" by fastforce
  note s1 = CreatePreBlock_lsteps(1)[OF pb assms(2)]
  obtain go c2 where p: "processPreBlock cfg pb c1 = Inr (go, c2)"
    using assms(1) True pb by (auto simp: checkPreCommit_def thenDo_Ok_iff)
  have "ctxM c1 \<le> countView (ViewNumber c1) (PreCommitPayloads c1)"
    using True CreatePreBlock_kept[OF pb] lsteps_frame[OF s1] by (simp add: ctxM_def ctxF_def)
  then have "lsteps cfg c1 c2"
    using p lsteps_amev[OF s1] assms(4) by (intro processPreBlock_lsteps) simp_all
  then have s2: "lsteps cfg c c2" using s1 by (rule rtranclp_trans[rotated])
  note w2 = lsteps_wf[OF s2 assms(2)]
  show ?thesis
  proof (cases "go \<and> PreCommitSent cfg c2")
    case False
    then show ?thesis
      using assms(1) True pb p lsteps_ksteps[OF s2] by (auto simp: checkPreCommit_def split: if_splits)
  next
    case go: True
    obtain c3 c4 c5 where v: "verifyCommitPayloadsAgainstHeader cfg c2 = Inr c3"
      and sc: "sendCommit cfg c3 = Inr c4" and ct: "changeTimer (timePerBlock c4) c4 = Inr c5"
      and cc: "checkCommit cfg c5 = Inr d"
      using assms(1) True pb p go by (auto simp: checkPreCommit_def thenDo_Ok_iff)
    have s3: "lsteps cfg c2 c3"
      using v w2 lsteps_frame(6)[OF s2] lsteps_amev[OF s2] assms(3,4)
      by (intro verifyCommitPayloads_lsteps) simp_all
    note s3' = rtranclp_trans[OF s2 s3]
    have "speaks cfg c3"
      using lsteps_speaks[OF s3] speaks_active[OF w2] go by (simp add: PreCommitSent_def)
    then have s4: "lsteps cfg c3 c4"
      using sc lsteps_wf[OF s3' assms(2)] lsteps_frame(6)[OF s3'] assms(3)
      by (intro sendCommit_lsteps) simp_all
    note s5 = rtranclp_trans[OF rtranclp_trans[OF s3' s4] changeTimer_lsteps[OF ct, of cfg]]
    have "ksteps cfg c5 d"
      using cc lsteps_wf[OF s5 assms(2)] lsteps_frame(6)[OF s5] assms(3)
      by (intro checkCommit_ksteps) simp_all
    then show ?thesis using lsteps_ksteps[OF s5] by (rule rtranclp_trans[rotated])
  qed
next
  case False
  then show ?thesis using assms(1) by (auto simp: checkPreCommit_def split: if_splits)
qed

lemma checkPrepare_ksteps:
  assumes "checkPrepare cfg c = Inr d" and "wf cfg c" and "\<not> blockProcessed c" and "speaks cfg c"
  shows "ksteps cfg c d"
proof -
  define c1 where "c1 = noteBlockTime cfg c"
  have s1: "lsteps cfg c c1"
    unfolding c1_def noteBlockTime_def by (auto intro!: silent_lsteps simp: sameCore_def)
  note w1 = lsteps_wf[OF s1 assms(2)]
  have f1: "\<not> blockProcessed c1" "speaks cfg c1"
    using lsteps_frame(6)[OF s1] lsteps_speaks[OF s1] assms(3,4) by simp_all
  show ?thesis
  proof (cases "hasAllTransactions c1 \<and> hasRequest (PreparationPayloads c1)
      \<and> ctxM c1 \<le> countView (ViewNumber c1) (PreparationPayloads c1)")
    case False
    then have "d = c1"
      using assms(1) by (auto simp: checkPrepare_def Let_def c1_def[symmetric] split: if_splits)
    then show ?thesis using lsteps_ksteps[OF s1] by simp
  next
    case quorum: True
    show ?thesis
    proof (cases "isAntiMEVExtensionEnabled cfg c1")
      case True
      obtain c2 c3 where "sendPreCommit cfg c1 = Inr c2"
        and ct: "changeTimer (timePerBlock c2) c2 = Inr c3" and cp: "checkPreCommit cfg c3 = Inr d"
        using assms(1) quorum True
        by (auto simp: checkPrepare_def Let_def c1_def[symmetric] thenDo_Ok_iff)
      then have "lsteps cfg c1 c2"
        using w1 f1 True by (intro sendPreCommit_lsteps) simp_all
      note s3 = rtranclp_trans[OF rtranclp_trans[OF s1 this] changeTimer_lsteps[OF ct, of cfg]]
      have "ksteps cfg c3 d"
        using cp lsteps_wf[OF s3 assms(2)] lsteps_frame(6)[OF s3] lsteps_amev[OF s3]
          lsteps_amev[OF s1] True assms(3)
        by (intro checkPreCommit_ksteps) simp_all
      then show ?thesis using lsteps_ksteps[OF s3] by (rule rtranclp_trans[rotated])
    next
      case False
      obtain c2 c3 where "sendCommit cfg c1 = Inr c2"
        and ct: "changeTimer (timePerBlock c2) c2 = Inr c3" and cc: "checkCommit cfg c3 = Inr d"
        using assms(1) quorum False
        by (auto simp: checkPrepare_def Let_def c1_def[symmetric] thenDo_Ok_iff)
      then have "lsteps cfg c1 c2"
        using w1 f1 by (intro sendCommit_lsteps) simp_all
      note s3 = rtranclp_trans[OF rtranclp_trans[OF s1 this] changeTimer_lsteps[OF ct, of cfg]]
      have "ksteps cfg c3 d"
        using cc lsteps_wf[OF s3 assms(2)] lsteps_frame(6)[OF s3] assms(3)
        by (intro checkCommit_ksteps) simp_all
      then show ?thesis using lsteps_ksteps[OF s3] by (rule rtranclp_trans[rotated])
    qed
  qed
qed

subsection \<open>Proposals, missing transactions, recovery\<close>

lemma Fill_lsteps:
  assumes "Fill cfg force c = Inr (ok, d)"
  shows "lsteps cfg c d"
proof (cases "cfgMaxTimePerBlock cfg \<noteq> None \<and> \<not> force \<and> GetVerified cfg (log c) = []")
  case True
  then show ?thesis using assms by (simp add: Fill_def)
next
  case False
  define c1 where "c1 = c\<lparr>Nonce := Rand cfg (log c),
      TransactionHashes := Some (map (txHash cfg) (GetVerified cfg (log c))),
      Transactions := fold (\<lambda>tx. AList.update (txHash cfg tx) tx) (GetVerified cfg (log c)) (Transactions c),
      Timestamp := lastBlockTimestamp c + TimestampIncrement cfg\<rparr>"
  have "Fill cfg force c = thenDo (getTimestamp cfg c1) (\<lambda>now.
          Inr (True, if now > lastBlockTimestamp c + TimestampIncrement cfg
                     then c1\<lparr>Timestamp := now\<rparr> else c1))"
    unfolding Fill_def Let_def c1_def[symmetric] using False by (simp only: if_False)
  with assms have "thenDo (getTimestamp cfg c1) (\<lambda>now.
          Inr (True, if now > lastBlockTimestamp c + TimestampIncrement cfg
                     then c1\<lparr>Timestamp := now\<rparr> else c1)) = Inr (ok, d)"
    by (simp only:)
  then obtain now where "d = c1 \<or> d = c1\<lparr>Timestamp := now\<rparr>"
    by (auto simp: thenDo_Ok_iff split: if_splits)
  moreover have "lsteps cfg c c1"
    unfolding c1_def by (rule silent_lsteps) (simp_all add: sameCore_def)
  moreover have "lsteps cfg c (c1\<lparr>Timestamp := now\<rparr>)"
    unfolding c1_def by (rule silent_lsteps) (simp_all add: sameCore_def)
  ultimately show ?thesis by blast
qed

lemma makePrepareRequest_lsteps:
  assumes "makePrepareRequest cfg force c = Inr (mo, d)"
  shows "lsteps cfg c d"
    and "mo = Some m \<Longrightarrow> cmType m = PrepareRequestType \<and> viewNumber m = ViewNumber d
           \<and> height m = BlockIndex d \<and> validatorIndex m = word_of_int (MyIndex d)"
  using assms Fill_lsteps
  by (auto simp: makePrepareRequest_def thenDo_Ok_iff split: if_splits)

lemma proposeRequest_ksteps:
  assumes "proposeRequest cfg m c = Inr d" and "wf cfg c" and "\<not> blockProcessed c" and "speaks cfg c"
    and m: "cmType m = PrepareRequestType" "viewNumber m = ViewNumber c" "height m = BlockIndex c"
      "validatorIndex m = word_of_int (MyIndex c)"
  shows "ksteps cfg c d"
proof -
  obtain c1 c2 c3 c4 c5 where 1: "unsubscribeFromTransactions c = Inr c1"
    and 2: "c2 = c1\<lparr>PreparationPayloads := (PreparationPayloads c1)[nat (MyIndex c1) := Some m]\<rparr>"
    and 3: "broadcast m c2 = Inr c3"
    and 4: "c4 = c3\<lparr>prepareSentTime := TimerNow cfg (log c3)\<rparr>"
    and 5: "changeTimer (if ViewNumber c4 = 0
                then wrap64 (shl64 (timePerBlock c4) (unat (ViewNumber c4 + 1)) - timePerBlock c4)
                else shl64 (timePerBlock c4) (unat (ViewNumber c4 + 1))) c4 = Inr c5"
    and 6: "checkPrepare cfg c5 = Inr d"
    using assms(1) by (auto simp: proposeRequest_def thenDo_Ok_iff)
  note s1 = unsubscribe_lsteps[OF 1, of cfg]
  note f1 = lsteps_frame[OF s1] lsteps_wf[OF s1 assms(2)]
  have i1: "0 \<le> MyIndex c1" using speaks_index[OF assms(4)] f1 by simp
  have "lsteps cfg c1 c2"
    unfolding 2 using own_slot(1)[OF f1(7) i1] i1 m f1
    by (intro lstep_lsteps lprepare) simp_all
  note s2 = rtranclp_trans[OF s1 this]
  have "lsteps cfg c2 c3"
    using lsteps_speaks[OF s2] lsteps_frame(1)[OF s2] assms(4) m by (intro broadcast_lsteps[OF 3]) simp_all
  note s3 = rtranclp_trans[OF s2 this]
  have "lsteps cfg c3 c4"
    unfolding 4 by (rule silent_lsteps) (simp_all add: sameCore_def)
  note s5 = rtranclp_trans[OF rtranclp_trans[OF s3 this] changeTimer_lsteps[OF 5, of cfg]]
  have "ksteps cfg c5 d"
    using lsteps_wf[OF s5 assms(2)] lsteps_frame(6)[OF s5] lsteps_speaks[OF s5] assms(3,4)
    by (intro checkPrepare_ksteps[OF 6]) simp_all
  then show ?thesis using lsteps_ksteps[OF s5] by (rule rtranclp_trans[rotated])
qed

lemma sendPrepareRequest_ksteps:
  assumes "sendPrepareRequest cfg force c = Inr d" and "wf cfg c" and "\<not> blockProcessed c"
    and "speaks cfg c"
  shows "ksteps cfg c d"
proof -
  have propose: "ksteps cfg c d"
    if s: "lsteps cfg c c1" and mk: "makePrepareRequest cfg force c1 = Inr (Some m, c2)"
      and p: "proposeRequest cfg m c2 = Inr d" for c1 c2 m
  proof -
    note s2 = rtranclp_trans[OF s makePrepareRequest_lsteps(1)[OF mk]]
    have "ksteps cfg c2 d"
      using lsteps_wf[OF s2 assms(2)] lsteps_frame(6)[OF s2] lsteps_speaks[OF s2] assms(3,4)
        makePrepareRequest_lsteps(2)[OF mk]
      by (intro proposeRequest_ksteps[OF p]) simp_all
    then show ?thesis using lsteps_ksteps[OF s2] by (rule rtranclp_trans[rotated])
  qed
  obtain mo c1 where mk: "makePrepareRequest cfg force c = Inr (mo, c1)"
    using assms(1) by (auto simp: sendPrepareRequest_def thenDo_Ok_iff)
  show ?thesis
  proof (cases mo)
    case (Some m)
    then have "proposeRequest cfg m c1 = Inr d" using assms(1) mk by (simp add: sendPrepareRequest_def)
    then show ?thesis using propose[of c m c1] mk Some by simp
  next
    case None
    obtain c2 mo' c3 where sb: "subscribeForTransactions c1 = Inr c2"
      and mk': "makePrepareRequest cfg force c2 = Inr (mo', c3)"
      and d: "(case mo' of Some msg \<Rightarrow> proposeRequest cfg msg c3
               | None \<Rightarrow> changeTimer (wrap64 (maxTimePerBlock c3 - timePerBlock c3)) c3) = Inr d"
      using assms(1) mk None by (auto simp: sendPrepareRequest_def thenDo_Ok_iff)
    note s = rtranclp_trans[OF makePrepareRequest_lsteps(1)[OF mk] subscribeForTransactions_lsteps[OF sb]]
    show ?thesis
    proof (cases mo')
      case (Some m)
      then show ?thesis using propose[OF s] mk' d by simp
    next
      case no: None
      then have "lsteps cfg c3 d" using d changeTimer_lsteps by simp
      then show ?thesis
        using rtranclp_trans[OF rtranclp_trans[OF s makePrepareRequest_lsteps(1)[OF mk']]]
        by (intro lsteps_ksteps) blast
    qed
  qed
qed

lemma lookupProposed_lsteps: "lookupProposed cfg h c = Inr d \<Longrightarrow> lsteps cfg c d"
  by (rule silent_lsteps) (auto simp: lookupProposed_def sameCore_def split: if_splits option.splits)

lemma lookupProposed_kept:
  "lookupProposed cfg h c = Inr d \<Longrightarrow> PreparationPayloads d = PreparationPayloads c"
  by (auto simp: lookupProposed_def split: if_splits option.splits)

lemma processMissingTx_lsteps:
  assumes "processMissingTx cfg c = Inr d"
  shows "lsteps cfg c d \<and> PreparationPayloads d = PreparationPayloads c"
proof -
  let ?R = "\<lambda>c d. lsteps cfg c d \<and> PreparationPayloads d = PreparationPayloads c"
  obtain c1 where l: "forEach (lookupProposed cfg) (elems (TransactionHashes c)) c = Inr c1"
    and e: "(if MissingTransactions c1 \<noteq> [] then emit (ERequestTx (MissingTransactions c1)) c1
             else Ok c1) = Inr d"
    using assms by (auto simp: processMissingTx_def thenDo_Ok_iff)
  have "?R c c1 \<and> True"
    by (rule forEach_rel[OF _ _ _ _ l])
      (auto dest: lookupProposed_lsteps lookupProposed_kept intro: rtranclp_trans)
  moreover have "?R c1 d"
    using e by (auto split: if_splits elim!: emit_lsteps) (auto simp: emit_def)
  ultimately show ?thesis by (auto intro: rtranclp_trans)
qed

lemma sendRecoveryRequest_lsteps:
  assumes "sendRecoveryRequest cfg c = Inr d" and "speaks cfg c"
  shows "lsteps cfg c d"
proof -
  obtain c1 where c1: "(if RequestSentOrReceived c \<and> \<not> hasAllTransactions c
      then processMissingTx cfg c else Ok c) = Inr c1"
    and b: "broadcast (ownPayload c1 RecoveryRequestType
                (RecoveryRequestMsg (NewRecoveryRequest (nowNano cfg c1)))) c1 = Inr d"
    using assms(1) by (auto simp: sendRecoveryRequest_def thenDo_Ok_iff)
  have s: "lsteps cfg c c1" using c1 processMissingTx_lsteps[of cfg c c1] by (auto split: if_splits)
  have "lsteps cfg c1 d"
    using lsteps_speaks[OF s] assms(2) by (intro broadcast_lsteps[OF b]) simp_all
  then show ?thesis using rtranclp_trans[OF s] by blast
qed

lemma sendRecoveryMessage_lsteps:
  assumes "sendRecoveryMessage cfg c = Inr d" and "speaks cfg c"
  shows "lsteps cfg c d"
proof -
  obtain m where m: "makeRecoveryMessage cfg c = Inr m" and b: "broadcast m c = Inr d"
    using assms(1) by (auto simp: sendRecoveryMessage_def thenDo_Ok_iff)
  have "cmType m = RecoveryMessageType \<and> height m = BlockIndex c"
    using m by (auto simp: makeRecoveryMessage_def thenDo_Ok_iff)
  then show ?thesis using assms(2) by (intro broadcast_lsteps[OF b]) simp_all
qed

end
