(* ===== verification/Refinement.thy ===== *)
theory Refinement
  imports Send_Steps
begin

section \<open>The handlers implement the transition system\<close>

text \<open>
  Every handler of \<open>Dbft_Core\<close>, as a function of the receiver \<open>rcv\<close> it calls back, takes only steps
  of \<open>Node_Step\<close>. The interface of the receiver is the locale \<open>receiver\<close>; the bounded recursion
  \<open>OnReceiveN\<close> is shown to implement it, by induction on the bound.
\<close>

subsection \<open>The commit lock\<close>

text \<open>
  Without the anti-MEV extension, a node that has stored its own Commit and the proposal of the
  view is locked: it takes no view change.
\<close>

definition locked ::
    "('tx, 'b, 'pb, 'pub, 'priv) config \<Rightarrow> ('tx, 'b, 'pb, 'pub, 'priv) dbft \<Rightarrow> bool" where
  "locked cfg c \<longleftrightarrow> CommitSent cfg c \<and> RequestSentOrReceived c \<and> \<not> isAntiMEVExtensionEnabled cfg c"

lemma lstep_commit_kept:
  assumes "lstep cfg c d" and "\<not> isAntiMEVExtensionEnabled cfg c"
    and "slot (CommitPayloads c) i = Some m"
  shows "slot (CommitPayloads d) i = Some m"
  using assms(1)
proof cases
  case lquiet
  then show ?thesis using assms(3) by (simp add: quiet_def sameCore_def)
next
  case (lcommit j m')
  then have "j \<noteq> i" using assms(3) by auto
  then show ?thesis using lcommit assms(3) by (simp add: slot_update)
qed (use assms(2,3) in simp_all)

lemma lstep_request_kept:
  assumes "lstep cfg c d" and "RequestSentOrReceived c"
  shows "RequestSentOrReceived d"
  using assms(1)
proof cases
  case lquiet
  then show ?thesis using assms(2) by (simp add: quiet_def sameCore_def RequestSentOrReceived_def)
qed (use assms(2) in \<open>auto simp: RequestSentOrReceived_def slot_update\<close>)

lemma kstep_commit_kept:
  assumes "kstep cfg c d" and "\<not> isAntiMEVExtensionEnabled cfg c"
    and "slot (CommitPayloads c) i = Some m"
  shows "slot (CommitPayloads d) i = Some m"
  using assms(1) by cases (use assms lstep_commit_kept in auto)

lemma kstep_request_kept:
  assumes "kstep cfg c d" and "RequestSentOrReceived c"
  shows "RequestSentOrReceived d"
  using assms(1) by cases (use assms lstep_request_kept in \<open>auto simp: RequestSentOrReceived_upd\<close>)

lemma ksteps_kept:
  assumes "ksteps cfg c d"
  shows "\<not> isAntiMEVExtensionEnabled cfg c \<Longrightarrow> slot (CommitPayloads c) i = Some m \<Longrightarrow>
           slot (CommitPayloads d) i = Some m"
    and "RequestSentOrReceived c \<Longrightarrow> RequestSentOrReceived d"
proof -
  show "slot (CommitPayloads d) i = Some m"
    if "\<not> isAntiMEVExtensionEnabled cfg c" "slot (CommitPayloads c) i = Some m"
    using assms
  proof (induction rule: rtranclp_induct)
    case (step t u)
    then have "\<not> isAntiMEVExtensionEnabled cfg t"
      using that(1) ksteps_frame(1)[OF step.hyps(1)] by (simp add: isAntiMEVExtensionEnabled_def)
    then show ?case using step kstep_commit_kept by blast
  qed (rule that(2))
  show "RequestSentOrReceived d" if "RequestSentOrReceived c"
    using assms that by (induction rule: rtranclp_induct) (auto dest: kstep_request_kept)
qed

lemma ksteps_locked:
  assumes "ksteps cfg c d" and "locked cfg c"
  shows "locked cfg d"
proof -
  have "\<not> isAntiMEVExtensionEnabled cfg c" using assms(2) by (simp add: locked_def)
  moreover obtain m where "slot (CommitPayloads c) (nat (MyIndex c)) = Some m"
    using assms(2) by (auto simp: locked_def CommitSent_def)
  ultimately have "slot (CommitPayloads d) (nat (MyIndex c)) = Some m"
    by (rule ksteps_kept(1)[OF assms(1)])
  moreover have "RequestSentOrReceived d"
    using ksteps_kept(2)[OF assms(1)] assms(2) by (simp add: locked_def)
  ultimately show ?thesis
    using assms(2) ksteps_frame(1,4)[OF assms(1)]
    by (simp add: locked_def CommitSent_def WatchOnly_def isAntiMEVExtensionEnabled_def)
qed

text \<open>What a call may do: take steps of the height, and none out of the view when locked.\<close>

definition may ::
    "('tx, 'b, 'pb, 'pub, 'priv) config \<Rightarrow> ('tx, 'b, 'pb, 'pub, 'priv) dbft
       \<Rightarrow> ('tx, 'b, 'pb, 'pub, 'priv) dbft \<Rightarrow> bool" where
  "may cfg c d \<longleftrightarrow> nsteps cfg c d \<and> (locked cfg c \<longrightarrow> ksteps cfg c d)"

lemma ksteps_may: "ksteps cfg c d \<Longrightarrow> may cfg c d"
  by (simp add: may_def ksteps_nsteps)

lemma lsteps_may: "lsteps cfg c d \<Longrightarrow> may cfg c d"
  by (simp add: ksteps_may lsteps_ksteps)

lemma may_refl [simp]: "may cfg c c"
  by (simp add: may_def)

lemma may_trans: "may cfg c t \<Longrightarrow> may cfg t d \<Longrightarrow> may cfg c d"
  by (auto simp: may_def dest: ksteps_locked intro: rtranclp_trans)

lemma may_wf: "may cfg c d \<Longrightarrow> wf cfg c \<Longrightarrow> wf cfg d"
  by (auto simp: may_def intro: nsteps_wf)

lemma may_unlocked: "nsteps cfg c d \<Longrightarrow> \<not> locked cfg c \<Longrightarrow> may cfg c d"
  by (simp add: may_def)

subsection \<open>The interface of the receiver\<close>

locale receiver =
  fixes cfg :: "('tx, 'b, 'pb, 'pub, 'priv) config"
    and rcv :: "payload \<Rightarrow> ('tx, 'b, 'pb, 'pub, 'priv) dbft act"
  assumes rcv_may: "wf cfg c \<Longrightarrow> rcv m c = Inr d \<Longrightarrow> may cfg c d"
begin

lemma forEach_may:
  assumes "wf cfg c" and "forEach rcv ms c = Inr d"
  shows "may cfg c d"
proof -
  have "may cfg c d \<and> wf cfg d"
  proof (rule forEach_rel[where R = "may cfg" and P = "wf cfg", OF _ _ _ assms])
    fix m t u
    assume "wf cfg t" and "rcv m t = Inr u"
    then show "may cfg t u \<and> wf cfg u" using rcv_may may_wf by blast
  qed (auto intro: may_trans)
  then show ?thesis by blast
qed

lemma replayBox_may: "wf cfg c \<Longrightarrow> replayBox cfg rcv kvs c = Inr d \<Longrightarrow> may cfg c d"
  unfolding replayBox_def by (rule forEach_may)

lemma replayCached_may:
  assumes "replayCached cfg rcv c = Inr d" and "wf cfg c"
  shows "may cfg c d"
proof -
  obtain mb ca where g: "getHeight (BlockIndex c) (dcache c) = (mb, ca)" by fastforce
  let ?c1 = "c\<lparr>dcache := ca\<rparr>"
  have s: "lsteps cfg c ?c1"
    using cache_ok_getHeight(1)[OF _ g] by (intro silent_lsteps) (simp_all add: sameCore_def)
  note m1 = lsteps_may[OF s]
  show ?thesis
  proof (cases mb)
    case None
    then show ?thesis using assms(1) g m1 by (simp add: replayCached_def)
  next
    case (Some b)
    obtain c2 c3 c4 where "replayBox cfg rcv (inPrepare b) ?c1 = Inr c2"
      "replayBox cfg rcv (inChViews b) c2 = Inr c3" "replayBox cfg rcv (inPreCommit b) c3 = Inr c4"
      "replayBox cfg rcv (inCommit b) c4 = Inr d"
      using assms(1) g Some by (auto simp: replayCached_def thenDo_Ok_iff)
    then show ?thesis
      using m1 replayBox_may may_wf assms(2) may_trans by metis
  qed
qed

text \<open>What \<open>initializeConsensus\<close> does after \<open>reset\<close>.\<close>

lemma initializeConsensus_may:
  assumes "initializeConsensus cfg rcv view ts c = Inr d"
    and "\<And>c1. reset cfg view ts c = Inr c1 \<Longrightarrow> wf cfg c1"
  obtains c1 where "reset cfg view ts c = Inr c1" and "may cfg c1 d"
proof -
  obtain c1 c2 c3 where 1: "reset cfg view ts c = Inr c1" and 2: "emit EStopTxFlow c1 = Inr c2"
    and 3: "replayCached cfg rcv c2 = Inr c3"
    and 4: "(if WatchOnly cfg c3 then Ok c3 else changeTimer (roundTimeout cfg view c3) c3) = Inr d"
    using assms(1) by (auto simp: initializeConsensus_def thenDo_Ok_iff)
  have m2: "may cfg c1 c2" using stopTxFlow_lsteps[OF 2] by (rule lsteps_may)
  have m3: "may cfg c2 c3" using 3 may_wf[OF m2 assms(2)[OF 1]] by (rule replayCached_may)
  have m4: "may cfg c3 d" using 4 changeTimer_lsteps[of _ c3 d cfg] by (auto split: if_splits intro: lsteps_may)
  from m2 m3 m4 have "may cfg c1 d" by (blast intro: may_trans)
  with 1 show thesis by (rule that)
qed

end

text \<open>A changed view is agreed by a quorum; the node's own agreement does not lower the count.\<close>

lemma agreeChangeView_ok:
  assumes "agreeChangeView cfg view c = Inr d" and "wf cfg c" and "\<not> blockProcessed c"
  shows "lsteps cfg c d"
    and "countChangeViews view (ChangeViewPayloads c) \<le> countChangeViews view (ChangeViewPayloads d)"
proof -
  let ?R = "lsteps cfg c d
    \<and> countChangeViews view (ChangeViewPayloads c) \<le> countChangeViews view (ChangeViewPayloads d)"
  have ?R
  proof (cases "\<not> WatchOnly cfg c \<and> (\<exists>m. slot (ChangeViewPayloads c) (nat (MyIndex c)) = Some m
                  \<and> NewViewNumber m < view)")
    case True
    then obtain m where own: "slot (ChangeViewPayloads c) (nat (MyIndex c)) = Some m"
      and less: "NewViewNumber m < view" by blast
    have sp: "speaks cfg c" using True assms(2) by (simp add: speaks_active)
    note i = speaks_index[OF sp] and o = own_slot[OF assms(2) speaks_index[OF sp]]
    obtain cv c1 where mk: "makeChangeView cfg (nowNano cfg c) CVChangeAgreement c = (cv, c1)"
      by fastforce
    have b: "broadcast cv c1 = Inr d"
      using assms(1) True own less mk by (simp add: agreeChangeView_def)
    have c1: "c1 = c\<lparr>ChangeViewPayloads := (ChangeViewPayloads c)[nat (MyIndex c) := Some cv]\<rparr>"
      and cv: "cmType cv = ChangeViewType" "height cv = BlockIndex c"
        "validatorIndex cv = word_of_int (MyIndex c)"
      using mk by (auto simp: makeChangeView_def Let_def)
    have s1: "lsteps cfg c c1"
      unfolding c1 using o(1) i cv assms(3) by (intro lstep_lsteps lchangeview) simp_all
    have s2: "lsteps cfg c1 d"
      using lsteps_speaks[OF s1] lsteps_frame(1)[OF s1] sp cv by (intro broadcast_lsteps[OF b]) simp_all
    have "ChangeViewPayloads d = (ChangeViewPayloads c)[nat (MyIndex c) := Some cv]"
      using b c1 by (auto simp: broadcast_def emit_def)
    then have "countChangeViews view (ChangeViewPayloads c) \<le> countChangeViews view (ChangeViewPayloads d)"
      unfolding countChangeViews_def \<open>ChangeViewPayloads d = _\<close>
      using own less by (intro count_put) auto
    with rtranclp_trans[OF s1 s2] show ?thesis by blast
  next
    case False
    then show ?thesis
      using assms(1) by (auto simp: agreeChangeView_def split: if_splits option.splits)
  qed
  then show "lsteps cfg c d"
    and "countChangeViews view (ChangeViewPayloads c) \<le> countChangeViews view (ChangeViewPayloads d)"
    by blast+
qed

context receiver
begin

lemma checkChangeView_nsteps:
  assumes "checkChangeView cfg rcv view c = Inr d" and "wf cfg c" and "\<not> blockProcessed c"
  shows "nsteps cfg c d"
proof (cases "ViewNumber c < view \<and> ctxM c \<le> countChangeViews view (ChangeViewPayloads c)")
  case True
  obtain c1 where a: "agreeChangeView cfg view c = Inr c1"
    and ic: "initializeConsensus cfg rcv view (lastBlockTimestamp c1) c1 = Inr d"
    using assms(1) True by (auto simp: checkChangeView_def thenDo_Ok_iff split: if_splits)
  note s = agreeChangeView_ok[OF a assms(2,3)]
  note f = lsteps_frame[OF s(1)] and w = lsteps_wf[OF s(1) assms(2)]
  have v0: "view \<noteq> 0" using True by auto
  obtain c2 where r: "reset cfg view (lastBlockTimestamp c1) c1 = Inr c2" and m: "may cfg c2 d"
    by (rule initializeConsensus_may[OF ic]) (auto intro: reset_view_wf[OF _ v0 w])
  have "nstep cfg c1 c2"
    using True s(2) f assms(3) r by (intro nview_change) (simp_all add: ctxM_def ctxF_def)
  then have "nsteps cfg c c2"
    using ksteps_nsteps[OF lsteps_ksteps[OF s(1)]] by (rule rtranclp.rtrancl_into_rtrancl[rotated])
  then show ?thesis using m by (auto simp: may_def intro: rtranclp_trans)
next
  case False
  then show ?thesis using assms(1) by (auto simp: checkChangeView_def split: if_splits)
qed

lemma requestChangeView_lsteps:
  assumes "requestChangeView cfg reason c = Inr d" and "wf cfg c" and "\<not> blockProcessed c"
    and "speaks cfg c"
  shows "lsteps cfg c d"
proof -
  note i = speaks_index[OF assms(4)] and o = own_slot[OF assms(2) speaks_index[OF assms(4)]]
  obtain cv c1 where mk: "makeChangeView cfg (nowNano cfg c) reason c = (cv, c1)" by fastforce
  obtain c2 where e: "emit EStopTxFlow c1 = Inr c2" and b: "broadcast cv c2 = Inr d"
    using assms(1) mk by (auto simp: requestChangeView_def thenDo_Ok_iff)
  have c1: "c1 = c\<lparr>ChangeViewPayloads := (ChangeViewPayloads c)[nat (MyIndex c) := Some cv]\<rparr>"
    and cv: "cmType cv = ChangeViewType" "height cv = BlockIndex c"
      "validatorIndex cv = word_of_int (MyIndex c)"
    using mk by (auto simp: makeChangeView_def Let_def)
  have "lsteps cfg c c1"
    unfolding c1 using o(1) i cv assms(3) by (intro lstep_lsteps lchangeview) simp_all
  note s2 = rtranclp_trans[OF this stopTxFlow_lsteps[OF e]]
  have "lsteps cfg c2 d"
    using lsteps_speaks[OF s2] lsteps_frame(1)[OF s2] assms(4) cv by (intro broadcast_lsteps[OF b]) simp_all
  then show ?thesis using rtranclp_trans[OF s2] by blast
qed

lemma sendChangeView_nsteps:
  assumes "sendChangeView cfg rcv reason c = Inr d" and "wf cfg c" and "\<not> blockProcessed c"
  shows "nsteps cfg c d"
proof (cases "WatchOnly cfg c")
  case True
  then show ?thesis using assms(1) by (simp add: sendChangeView_def)
next
  case False
  note sp = speaks_active[OF assms(2) False]
  obtain c1 where t: "changeTimer (shl64 (timePerBlock c) (unat (ViewNumber c + 1 + 1))) c = Inr c1"
    and rest: "(if reason = CVTimeout \<and> CountCommitted c1 + CountFailed c1 > ctxF c1
             then sendRecoveryRequest cfg c1
             else steps [requestChangeView cfg (if \<not> hasAllTransactions c1 \<and> reason = CVTimeout
                              then CVTxNotFound else reason),
                         checkChangeView cfg rcv (ViewNumber c + 1)] c1) = Inr d"
    using assms(1) False unfolding sendChangeView_def Let_def by (auto simp: thenDo_Ok_iff)
  note s1 = changeTimer_lsteps[OF t, of cfg]
  have sp1: "speaks cfg c1" using lsteps_speaks[OF s1] sp by simp
  have nb1: "\<not> blockProcessed c1" using lsteps_frame(6)[OF s1] assms(3) by simp
  note w1 = lsteps_wf[OF s1 assms(2)]
  show ?thesis
  proof (cases "reason = CVTimeout \<and> CountCommitted c1 + CountFailed c1 > ctxF c1")
    case True
    then have "sendRecoveryRequest cfg c1 = Inr d" using rest by simp
    then have "lsteps cfg c1 d" using sp1 by (rule sendRecoveryRequest_lsteps)
    then show ?thesis
      using rtranclp_trans[OF s1] lsteps_ksteps ksteps_nsteps by blast
  next
    case no: False
    obtain c2 where rq: "requestChangeView cfg (if \<not> hasAllTransactions c1 \<and> reason = CVTimeout
                              then CVTxNotFound else reason) c1 = Inr c2"
      and cc: "checkChangeView cfg rcv (ViewNumber c + 1) c2 = Inr d"
      using rest no by (auto simp: thenDo_Ok_iff)
    note s2 = requestChangeView_lsteps[OF rq w1 nb1 sp1]
    have "nsteps cfg c2 d"
      using cc lsteps_wf[OF s2 w1] lsteps_frame(6)[OF s2] nb1
      by (intro checkChangeView_nsteps) simp_all
    then show ?thesis
      using ksteps_nsteps[OF lsteps_ksteps[OF rtranclp_trans[OF s1 s2]]] by (rule rtranclp_trans[rotated])
  qed
qed

text \<open>The proposed block is accepted, and the node stays in the view, or a view change is asked.\<close>

lemma createAndCheckBlock_steps:
  assumes "createAndCheckBlock cfg rcv c = Inr (ok, d)" and "wf cfg c" and "\<not> blockProcessed c"
  shows "ok \<Longrightarrow> lsteps cfg c d" and "nsteps cfg c d"
proof -
  obtain v c1 where p: "(if isAntiMEVExtensionEnabled cfg c
         then (case CreatePreBlock cfg c of (b, c1) \<Rightarrow> (VerifyPreBlock cfg (log c1) b, c1))
         else (case CreateBlock cfg c of (b, c1) \<Rightarrow> (VerifyBlock cfg (log c1) b, c1))) = (v, c1)"
    by fastforce
  have s: "lsteps cfg c c1"
  proof (cases "isAntiMEVExtensionEnabled cfg c")
    case True
    obtain b c' where b: "CreatePreBlock cfg c = (b, c')" by fastforce
    then show ?thesis using p True CreatePreBlock_lsteps(1)[OF b assms(2)] by simp
  next
    case False
    obtain b c' where b: "CreateBlock cfg c = (b, c')" by fastforce
    then show ?thesis using p False CreateBlock_lsteps(1)[OF b assms(2,3)] by simp
  qed
  have r: "(if v then Ok (True, c1)
        else thenDo (sendChangeView cfg rcv CVTxInvalid c1) (\<lambda>c2. Ok (False, c2))) = Inr (ok, d)"
    using assms(1) p by (simp add: createAndCheckBlock_def Let_def)
  show "ok \<Longrightarrow> lsteps cfg c d" using r s by (auto simp: thenDo_Ok_iff split: if_splits)
  have "d = c1 \<or> sendChangeView cfg rcv CVTxInvalid c1 = Inr d"
    using r by (auto simp: thenDo_Ok_iff split: if_splits)
  then have "nsteps cfg c1 d"
    using sendChangeView_nsteps[of CVTxInvalid c1 d] lsteps_wf[OF s assms(2)] lsteps_frame(6)[OF s] assms(3)
    by auto
  then show "nsteps cfg c d"
    using ksteps_nsteps[OF lsteps_ksteps[OF s]] by (rule rtranclp_trans[rotated])
qed

lemma addTransaction_nsteps:
  assumes "addTransaction cfg rcv tx c = Inr d" and "wf cfg c" and "\<not> blockProcessed c"
  shows "nsteps cfg c d"
proof -
  define c1 where "c1 = c\<lparr>Transactions := AList.update (txHash cfg tx) tx (Transactions c)\<rparr>"
  have s1: "lsteps cfg c c1"
    unfolding c1_def by (rule silent_lsteps) (simp_all add: sameCore_def)
  note w1 = lsteps_wf[OF s1 assms(2)]
  have nb1: "\<not> blockProcessed c1" using lsteps_frame(6)[OF s1] assms(3) by simp
  note n1 = ksteps_nsteps[OF lsteps_ksteps[OF s1]]
  show ?thesis
  proof (cases "hasAllTransactions c1 \<and> \<not> IsPrimary c1 \<and> \<not> WatchOnly cfg c1")
    case False
    then have "d = c1"
      using assms(1) by (auto simp: addTransaction_def Let_def c1_def[symmetric] split: if_splits)
    then show ?thesis using n1 by simp
  next
    case True
    obtain ok c2 where cb: "createAndCheckBlock cfg rcv c1 = Inr (ok, c2)"
      and rest: "(if \<not> ok then Ok c2
                else steps [verifyPreCommitPayloadsAgainstPreBlock cfg, extendTimer cfg 2,
                            sendPrepareResponse cfg, checkPrepare cfg] c2) = Inr d"
      using assms(1) True
      by (auto simp: addTransaction_def Let_def c1_def[symmetric] thenDo_Ok_iff)
    note s2 = createAndCheckBlock_steps[OF cb w1 nb1]
    show ?thesis
    proof (cases ok)
      case False
      then have "d = c2" using rest by simp
      then show ?thesis using rtranclp_trans[OF n1 s2(2)] by simp
    next
      case ok: True
      obtain c3 c4 c5 where v: "verifyPreCommitPayloadsAgainstPreBlock cfg c2 = Inr c3"
        and e: "extendTimer cfg 2 c3 = Inr c4" and sr: "sendPrepareResponse cfg c4 = Inr c5"
        and cp: "checkPrepare cfg c5 = Inr d"
        using rest ok by (auto simp: thenDo_Ok_iff)
      note l2 = rtranclp_trans[OF s1 s2(1)[OF ok]]
      have "lsteps cfg c2 c3"
        using v lsteps_wf[OF l2 assms(2)] lsteps_frame(6)[OF l2] assms(3)
        by (intro verifyPreCommitPayloads_lsteps) simp_all
      note l4 = rtranclp_trans[OF rtranclp_trans[OF l2 this] extendTimer_lsteps[OF e]]
      have sp: "speaks cfg c1" using True w1 by (simp add: speaks_active)
      then have sp4: "speaks cfg c4" using lsteps_speaks[OF l4] lsteps_speaks[OF s1] by simp
      note l5 = rtranclp_trans[OF l4 sendPrepareResponse_lsteps[OF sr lsteps_wf[OF l4 assms(2)] sp4]]
      have "ksteps cfg c5 d"
        using cp lsteps_wf[OF l5 assms(2)] lsteps_frame(6)[OF l5] assms(3)
          lsteps_speaks[OF l5] lsteps_speaks[OF l4] sp4
        by (intro checkPrepare_ksteps) simp_all
      then show ?thesis
        using ksteps_nsteps rtranclp_trans[OF lsteps_ksteps[OF l5]] by blast
    qed
  qed
qed

end

subsection \<open>Preparations\<close>

lemma verifyPreCommitPayloads_noop:
  assumes "wf cfg c" and "\<not> RequestSentOrReceived c"
  shows "verifyPreCommitPayloadsAgainstPreBlock cfg c = Inr c"
proof -
  have "preHeader c = None" "\<not> preBlockSet c"
    using assms wf_fields(8,10)[OF assms(1)] by blast+
  then have "verifyPreCommitAt cfg i c = Inr c" for i
    using assms(2)
    by (simp add: verifyPreCommitAt_def CreatePreBlock_def MakePreHeader_def split: option.split)
  then have "forEach (verifyPreCommitAt cfg) xs c = Inr c" for xs
    by (induction xs) simp_all
  then show ?thesis by (simp add: verifyPreCommitPayloadsAgainstPreBlock_def)
qed

lemma dropOtherResponse_lsteps:
  assumes "dropOtherResponse cfg msg i c = Inr d" and "\<not> RequestSentOrReceived c"
  shows "lsteps cfg c d \<and> \<not> RequestSentOrReceived d"
proof -
  have "d = c \<or> (slot (PreparationPayloads c) i \<noteq> None
           \<and> d = c\<lparr>PreparationPayloads := (PreparationPayloads c)[i := None]\<rparr>)"
    using assms(1) by (auto simp: dropOtherResponse_def split: option.splits if_splits)
  moreover have "i \<noteq> PrimaryIndex c" if "slot (PreparationPayloads c) i \<noteq> None"
    using that assms(2) by (auto simp: RequestSentOrReceived_def)
  ultimately show ?thesis
    using assms(2)
    by (auto simp: RequestSentOrReceived_def slot_update intro!: lstep_lsteps lunprepare)
qed

lemma updateExistingPayloads_loop:
  assumes "updateExistingPayloads cfg msg c = Inr d" and "\<not> RequestSentOrReceived c" and "wf cfg c"
  shows "forEach (dropOtherResponse cfg msg) [0..<length (PreparationPayloads c)] c = Inr d"
    and "lsteps cfg c d \<and> \<not> RequestSentOrReceived d"
proof -
  obtain c1 where l: "forEach (dropOtherResponse cfg msg) [0..<length (PreparationPayloads c)] c = Inr c1"
    and v: "(if isAntiMEVExtensionEnabled cfg c1 then verifyPreCommitPayloadsAgainstPreBlock cfg c1
       else verifyCommitPayloadsAgainstHeader cfg c1) = Inr d"
    using assms(1) by (auto simp: updateExistingPayloads_def thenDo_Ok_iff)
  have s: "lsteps cfg c c1 \<and> \<not> RequestSentOrReceived c1"
    by (rule forEach_rel[where R = "lsteps cfg" and P = "\<lambda>c. \<not> RequestSentOrReceived c", OF _ _ _ assms(2) l])
      (auto dest: dropOtherResponse_lsteps intro: rtranclp_trans)
  then have "wf cfg c1" using lsteps_wf assms(3) by blast
  then have "d = c1"
    using v s verifyPreCommitPayloads_noop[of cfg c1] verifyCommitPayloads_noop[of cfg c1]
    by (simp split: if_splits)
  with s l show "forEach (dropOtherResponse cfg msg) [0..<length (PreparationPayloads c)] c = Inr d"
    and "lsteps cfg c d \<and> \<not> RequestSentOrReceived d" by simp_all
qed

lemmas updateExistingPayloads_lsteps =
  conjunct1[OF updateExistingPayloads_loop(2)] conjunct2[OF updateExistingPayloads_loop(2)]

lemma store_request_lsteps:
  assumes "wf cfg c" and "\<not> RequestSentOrReceived c" and "unat (validatorIndex m) = PrimaryIndex c"
    and "cmType m = PrepareRequestType" "viewNumber m = ViewNumber c" "height m = BlockIndex c"
  shows "lsteps cfg c (c\<lparr>PreparationPayloads :=
           (PreparationPayloads c)[unat (validatorIndex m) := Some m]\<rparr>)"
proof (intro lstep_lsteps lprepare)
  show "unat (validatorIndex m) < ctxN c" using wf_primary[OF assms(1)] assms(3) by simp
  show "slot (PreparationPayloads c) (unat (validatorIndex m)) = None
          \<or> int (unat (validatorIndex m)) = MyIndex c"
    using assms(2,3) by (simp add: RequestSentOrReceived_def)
  show "validatorIndex m = of_nat (unat (validatorIndex m))" by simp
qed (use assms in simp_all)

text \<open>Accepting the primary's proposal.\<close>

lemma proposal_lsteps:
  assumes "extendTimer cfg 2 c = Inr c1"
    and "steps [acceptProposal p, processMissingTx cfg, updateExistingPayloads cfg m,
               (\<lambda>c. Ok (c\<lparr>PreparationPayloads :=
                         (PreparationPayloads c)[unat (validatorIndex m) := Some m]\<rparr>))] c1 = Inr c5"
    and "wf cfg c" and "cmType m = PrepareRequestType" and "height m = BlockIndex c"
    and "\<not> RequestSentOrReceived c" and "ViewNumber c = viewNumber m"
    and "unat (validatorIndex m) = GetPrimaryIndex c (ViewNumber c)"
  shows "lsteps cfg c c5"
proof -
  obtain c2 c3 c4 where 2: "acceptProposal p c1 = Inr c2" and 3: "processMissingTx cfg c2 = Inr c3"
    and 4: "updateExistingPayloads cfg m c3 = Inr c4"
    and 5: "c5 = c4\<lparr>PreparationPayloads :=
                       (PreparationPayloads c4)[unat (validatorIndex m) := Some m]\<rparr>"
    using assms(2) by (auto simp: thenDo_Ok_iff)
  have a1: "PreparationPayloads c1 = PreparationPayloads c"
    using assms(1) by (auto simp: extendTimer_def emit_def split: if_splits)
  have s12: "lsteps cfg c1 c2" and a2: "PreparationPayloads c2 = PreparationPayloads c1"
    using 2 by (auto simp: acceptProposal_def sameCore_def intro!: silent_lsteps)
  note s3 = rtranclp_trans[OF rtranclp_trans[OF extendTimer_lsteps[OF assms(1)] s12]
      conjunct1[OF processMissingTx_lsteps[OF 3]]]
  have r3: "\<not> RequestSentOrReceived c3"
    using assms(6) processMissingTx_lsteps[OF 3] a1 a2 lsteps_frame(5)[OF s3]
    by (simp add: RequestSentOrReceived_def)
  note u = updateExistingPayloads_lsteps[OF 4 r3 lsteps_wf[OF s3 assms(3)]]
  note s4 = rtranclp_trans[OF s3 u(1)]
  have "lsteps cfg c4 c5"
    unfolding 5
  proof (rule store_request_lsteps)
    show "unat (validatorIndex m) = PrimaryIndex c4"
      using assms(8) lsteps_frame(5)[OF s4] wf_fields(5)[OF assms(3)] by simp
  qed (use assms u lsteps_frame[OF s4] lsteps_wf[OF s4 assms(3)] in simp_all)
  with s4 show ?thesis by (rule rtranclp_trans)
qed

context receiver
begin

lemma onPrepareRequest_may:
  assumes "onPrepareRequest cfg rcv m c = Inr d" and "wf cfg c" and "\<not> blockProcessed c"
    and "cmType m = PrepareRequestType" and "height m = BlockIndex c"
  shows "may cfg c d"
proof (cases "\<not> RequestSentOrReceived c \<and> ViewNumber c = viewNumber m
      \<and> unat (validatorIndex m) = GetPrimaryIndex c (ViewNumber c)")
  case False
  then have "d = c" using assms(1) by (auto simp: onPrepareRequest_def split: if_splits)
  then show ?thesis by simp
next
  case new: True
  then have ul: "\<not> locked cfg c" by (simp add: locked_def)
  show ?thesis
  proof (cases "VerifyPrepareRequest cfg (log c) m")
    case False
    then have "sendChangeView cfg rcv CVBlockRejectedByPolicy c = Inr d"
      using assms(1) new by (simp add: onPrepareRequest_def)
    then show ?thesis using sendChangeView_nsteps assms(2,3) ul by (blast intro: may_unlocked)
  next
    case True
    obtain c1 p c2 c3 c4 c5 where 1: "extendTimer cfg 2 c = Inr c1"
      and 2: "acceptProposal p c1 = Inr c2" and 3: "processMissingTx cfg c2 = Inr c3"
      and 4: "updateExistingPayloads cfg m c3 = Inr c4"
      and 5: "c5 = c4\<lparr>PreparationPayloads :=
                         (PreparationPayloads c4)[unat (validatorIndex m) := Some m]\<rparr>"
      and rest: "(if \<not> hasAllTransactions c5 then Ok c5
                else thenDo (createAndCheckBlock cfg rcv c5) (\<lambda>(ok, c6).
                  if \<not> ok \<or> WatchOnly cfg c6 then Ok c6
                  else steps [sendPrepareResponse cfg, checkPrepare cfg] c6)) = Inr d"
      using assms(1) new True
      by (auto simp: onPrepareRequest_def thenDo_Ok_iff split: option.splits)
    have r: "steps [acceptProposal p, processMissingTx cfg, updateExistingPayloads cfg m,
               (\<lambda>c. Ok (c\<lparr>PreparationPayloads :=
                         (PreparationPayloads c)[unat (validatorIndex m) := Some m]\<rparr>))] c1 = Inr c5"
      using 2 3 4 5 by simp
    have s5: "lsteps cfg c c5" using proposal_lsteps[OF 1 r assms(2,4,5)] new by blast
    note w5 = lsteps_wf[OF s5 assms(2)]
    have nb5: "\<not> blockProcessed c5" using lsteps_frame(6)[OF s5] assms(3) by simp
    note n5 = ksteps_nsteps[OF lsteps_ksteps[OF s5]]
    have "nsteps cfg c d"
    proof (cases "hasAllTransactions c5")
      case False
      then show ?thesis using rest n5 by simp
    next
      case True
      obtain ok c6 where cb: "createAndCheckBlock cfg rcv c5 = Inr (ok, c6)"
        and r6: "(if \<not> ok \<or> WatchOnly cfg c6 then Ok c6
                  else steps [sendPrepareResponse cfg, checkPrepare cfg] c6) = Inr d"
        using rest True by (auto simp: thenDo_Ok_iff)
      note cs = createAndCheckBlock_steps[OF cb w5 nb5]
      show ?thesis
      proof (cases "\<not> ok \<or> WatchOnly cfg c6")
        case True
        then have "d = c6" using r6 by simp
        then show ?thesis using rtranclp_trans[OF n5 cs(2)] by simp
      next
        case False
        note s6 = rtranclp_trans[OF s5 cs(1)]
        obtain c7 where sr: "sendPrepareResponse cfg c6 = Inr c7" and cp: "checkPrepare cfg c7 = Inr d"
          using r6 False by (auto simp: thenDo_Ok_iff)
        have l6: "lsteps cfg c c6" using s6 False by blast
        note w6 = lsteps_wf[OF l6 assms(2)]
        have sp: "speaks cfg c6" using False w6 by (simp add: speaks_active)
        note l7 = rtranclp_trans[OF l6 sendPrepareResponse_lsteps[OF sr w6 sp]]
        have "ksteps cfg c7 d"
          using cp lsteps_wf[OF l7 assms(2)] lsteps_frame(6)[OF l7] assms(3)
            lsteps_speaks[OF l7] lsteps_speaks[OF l6] sp
          by (intro checkPrepare_ksteps) simp_all
        then show ?thesis
          using ksteps_nsteps rtranclp_trans[OF lsteps_ksteps[OF l7]] by blast
      qed
    qed
    then show ?thesis using ul by (rule may_unlocked)
  qed
qed

end

lemma acceptPrepareResponse_ksteps:
  assumes "acceptPrepareResponse cfg c = Inr d" and "wf cfg c" and "\<not> blockProcessed c"
  shows "ksteps cfg c d"
proof -
  obtain c1 c2 where 1: "(if IsPrimary c \<and> prepareSentTime c \<noteq> zeroTime \<and> \<not> recovering c
             then Ok (c\<lparr>rttEstimates :=
                       addTime (time_sub (ClockNow cfg (log c)) (prepareSentTime c)) (rttEstimates c)\<rparr>)
             else Ok c) = Inr c1"
    and 2: "extendTimer cfg 2 c1 = Inr c2"
    and 3: "(if \<not> WatchOnly cfg c2 \<and> \<not> CommitSent cfg c2
                \<and> (\<not> isAntiMEVExtensionEnabled cfg c2 \<or> \<not> PreCommitSent cfg c2)
                \<and> RequestSentOrReceived c2
             then checkPrepare cfg c2 else Ok c2) = Inr d"
    using assms(1) by (auto simp: acceptPrepareResponse_def thenDo_Ok_iff)
  have "lsteps cfg c c1"
    using 1 by (auto split: if_splits intro!: silent_lsteps simp: sameCore_def)
  note s2 = rtranclp_trans[OF this extendTimer_lsteps[OF 2]]
  note w2 = lsteps_wf[OF s2 assms(2)]
  have "ksteps cfg c2 d"
    using 3 w2 lsteps_frame(6)[OF s2] assms(3)
    by (auto split: if_splits intro: checkPrepare_ksteps speaks_active)
  then show ?thesis using lsteps_ksteps[OF s2] by (rule rtranclp_trans[rotated])
qed

lemma onPrepareResponse_ksteps:
  assumes "onPrepareResponse cfg m c = Inr d" and "wf cfg c" and "\<not> blockProcessed c"
    and "cmType m = PrepareResponseType" and "height m = BlockIndex c"
    and "unat (validatorIndex m) < ctxN c"
  shows "ksteps cfg c d"
proof (cases "ViewNumber c = viewNumber m \<and> unat (validatorIndex m) \<noteq> GetPrimaryIndex c (ViewNumber c)
      \<and> slot (PreparationPayloads c) (unat (validatorIndex m)) = None
      \<and> \<not> (ViewChanging cfg c \<and> \<not> MoreThanFNodesCommittedOrLost c)
      \<and> VerifyPrepareResponse cfg (log c) m")
  case False
  then have "d = c" using assms(1) by (auto simp: onPrepareResponse_def Let_def split: if_splits)
  then show ?thesis by simp
next
  case True
  let ?i = "unat (validatorIndex m)"
  define c1 where "c1 = c\<lparr>PreparationPayloads := (PreparationPayloads c)[?i := Some m]\<rparr>"
  have s1: "lsteps cfg c c1"
    unfolding c1_def using True assms by (intro lstep_lsteps lprepare) simp_all
  note w1 = lsteps_wf[OF s1 assms(2)]
  have nb1: "\<not> blockProcessed c1" using lsteps_frame(6)[OF s1] assms(3) by simp
  have np: "?i \<noteq> PrimaryIndex c1"
    using True unfolding lsteps_frame(5)[OF s1] wf_fields(5)[OF assms(2)] by blast
  have "acceptPrepareResponse cfg c1 = Inr d
      \<or> d = c1\<lparr>PreparationPayloads := (PreparationPayloads c1)[?i := None]\<rparr>"
    using assms(1) True
    unfolding onPrepareResponse_def Let_def c1_def[symmetric]
    by (auto split: if_splits option.splits)
  then have "ksteps cfg c1 d"
  proof
    assume "acceptPrepareResponse cfg c1 = Inr d"
    then show ?thesis using w1 nb1 by (rule acceptPrepareResponse_ksteps)
  next
    assume "d = c1\<lparr>PreparationPayloads := (PreparationPayloads c1)[?i := None]\<rparr>"
    then show ?thesis using np by (auto intro: lsteps_ksteps lstep_lsteps lunprepare)
  qed
  then show ?thesis using lsteps_ksteps[OF s1] by (rule rtranclp_trans[rotated])
qed

subsection \<open>Commits and recovery\<close>

lemma onRecoveryRequest_lsteps:
  assumes "onRecoveryRequest cfg m c = Inr d" and "wf cfg c"
  shows "lsteps cfg c d"
  using assms
  by (auto simp: onRecoveryRequest_def speaks_active split: if_splits elim!: sendRecoveryMessage_lsteps)

lemma onPreCommit_ksteps:
  assumes "onPreCommit cfg m c = Inr d" and "wf cfg c" and "\<not> blockProcessed c"
    and "isAntiMEVExtensionEnabled cfg c"
    and "cmType m = PreCommitType" and "height m = BlockIndex c"
    and "unat (validatorIndex m) < ctxN c"
  shows "ksteps cfg c d"
proof (cases "slot (PreCommitPayloads c) (unat (validatorIndex m)) = None")
  case False
  then have "d = c" using assms(1) by (auto simp: onPreCommit_def Let_def)
  then show ?thesis by simp
next
  case True
  let ?i = "unat (validatorIndex m)"
  let ?drop = "\<lambda>c. c\<lparr>PreCommitPayloads := (PreCommitPayloads c)[?i := None]\<rparr>"
  define c1 where "c1 = c\<lparr>PreCommitPayloads := (PreCommitPayloads c)[?i := Some m]\<rparr>"
  have s1: "lsteps cfg c c1"
    unfolding c1_def using True assms by (intro lstep_lsteps lprecommit) simp_all
  have drop: "ksteps cfg c (?drop t)" if s: "lsteps cfg c t" for t
    using rtranclp_trans[OF s drop_preCommit_lsteps] lsteps_frame(6)[OF s] assms(3) lsteps_ksteps by blast
  have u: "(if ViewNumber c1 \<noteq> viewNumber m then Ok c1
            else if \<not> VerifyPreCommit cfg (log c1) m then Ok (?drop c1)
            else thenDo (extendTimer cfg 4 c1) (\<lambda>c2.
              if \<not> hasAllTransactions c2 then Ok c2
              else case CreatePreBlock cfg c2 of
                     (None, c3) \<Rightarrow> Ok c3
                   | (Some pb, c3) \<Rightarrow>
                       (case GetPreCommit (body m) of
                          None \<Rightarrow> Stop TypeAssertion
                        | Some pc \<Rightarrow>
                            if preBlockVerify cfg (Validators c3 ! ?i) (preCommit_Data pc) pb
                            then checkPreCommit cfg c3
                            else Ok (?drop c3)))) = Inr d"
    using assms(1) True unfolding onPreCommit_def Let_def c1_def[symmetric] by simp
  show ?thesis
  proof (cases "ViewNumber c1 = viewNumber m \<and> VerifyPreCommit cfg (log c1) m")
    case False
    show ?thesis
    proof (cases "ViewNumber c1 = viewNumber m")
      case True
      then have "?drop c1 = d" using u False by simp
      then show ?thesis using drop[OF s1] by simp
    next
      case False
      then have "c1 = d" using u by simp
      then show ?thesis using lsteps_ksteps[OF s1] by simp
    qed
  next
    case v: True
    obtain c2 where e: "extendTimer cfg 4 c1 = Inr c2"
      using u v by (auto simp: thenDo_Ok_iff)
    note s2 = rtranclp_trans[OF s1 extendTimer_lsteps[OF e]]
    obtain pb c3 where b: "CreatePreBlock cfg c2 = (pb, c3)" by fastforce
    note s3 = rtranclp_trans[OF s2 CreatePreBlock_lsteps(1)[OF b lsteps_wf[OF s2 assms(2)]]]
    have "d = c2 \<or> d = c3 \<or> d = ?drop c3 \<or> checkPreCommit cfg c3 = Inr d"
      using u v e b by (auto split: if_splits option.splits)
    moreover have "ksteps cfg c3 d" if "checkPreCommit cfg c3 = Inr d"
      using that lsteps_wf[OF s3 assms(2)] lsteps_frame(6)[OF s3] lsteps_amev[OF s3] assms(3,4)
      by (intro checkPreCommit_ksteps) simp_all
    ultimately show ?thesis
      using lsteps_ksteps[OF s2] lsteps_ksteps[OF s3] drop[OF s3] rtranclp_trans[OF lsteps_ksteps[OF s3]]
      by blast
  qed
qed

text \<open>
  A Commit that fails verification leaves the table as it was: storing it and dropping it again
  cancel out, and what remains is an extended timer and perhaps a header.
\<close>

lemma extendTimer_eq: "extendTimer cfg n c = Inr d \<Longrightarrow> d = c\<lparr>log := log d\<rparr>"
  by (auto simp: extendTimer_def emit_def split: if_splits)

lemma slot_None_update: "slot xs i = None \<Longrightarrow> i < length xs \<Longrightarrow> xs[i := None] = xs"
  by (simp add: slot_def list_update_same_conv)

lemma rejected_commit_lsteps:
  assumes w: "wf cfg c" and nb: "\<not> blockProcessed c" and i: "i < ctxN c"
    and none: "slot (CommitPayloads c) i = None"
    and e: "extendTimer cfg 4 (c\<lparr>CommitPayloads := (CommitPayloads c)[i := Some m]\<rparr>) = Inr c2"
    and h: "MakeHeader cfg c2 = (Some b, c3)"
  shows "lsteps cfg c (c3\<lparr>CommitPayloads := (CommitPayloads c3)[i := None]\<rparr>)"
proof -
  let ?c1 = "c\<lparr>CommitPayloads := (CommitPayloads c)[i := Some m]\<rparr>"
  obtain es where c2: "c2 = c\<lparr>CommitPayloads := (CommitPayloads c)[i := Some m], log := es\<rparr>"
    and s1: "lsteps cfg c (c\<lparr>log := es\<rparr>)"
  proof (cases "c2 = ?c1")
    case True
    then show thesis using that[of "log c"] by simp
  next
    case False
    then obtain n where n: "c2 = ?c1\<lparr>log := ETimerExtend n # log c\<rparr>"
      using e by (auto simp: extendTimer_def emit_def split: if_splits)
    have "emit (ETimerExtend n) c = Inr (c\<lparr>log := ETimerExtend n # log c\<rparr>)" by (simp add: emit_def)
    then have "lsteps cfg c (c\<lparr>log := ETimerExtend n # log c\<rparr>)" by (rule emit_lsteps) simp
    then show thesis using that[of "ETimerExtend n # log c"] n by simp
  qed
  let ?t = "c\<lparr>log := es\<rparr>"
  have same: "RequestSentOrReceived c2 = RequestSentOrReceived c"
    "isAntiMEVExtensionEnabled cfg c2 = isAntiMEVExtensionEnabled cfg c" "header c2 = header c"
    "preBlockProcessed c2 = preBlockProcessed c" "blockSet c2 = blockSet c"
    by (simp_all add: c2 RequestSentOrReceived_def isAntiMEVExtensionEnabled_def)
  have "RequestSentOrReceived c2 \<or> header c2 \<noteq> None"
    and "header c2 \<noteq> None \<or> (isAntiMEVExtensionEnabled cfg c2 \<longrightarrow> preBlockProcessed c2)"
    using h by (auto simp: MakeHeader_def split: if_splits)
  then have r: "RequestSentOrReceived c"
    and a: "isAntiMEVExtensionEnabled cfg c \<longrightarrow> preBlockProcessed c"
    using wf_fields(6,7)[OF w] unfolding same by blast+
  have hd: "header c3 = Some b" using h by (auto simp: MakeHeader_def Let_def split: if_splits)
  have s2: "lsteps cfg ?t (?t\<lparr>header := Some b, blockSet := blockSet c\<rparr>)"
    using nb r a
    by (intro header_lsteps) (simp_all add: RequestSentOrReceived_upd isAntiMEVExtensionEnabled_def)
  have l: "(CommitPayloads c)[i := None] = CommitPayloads c"
    using none i wf_tables(3)[OF w] by (simp add: slot_None_update)
  have "c3 = c2\<lparr>header := Some b, blockSet := blockSet c\<rparr>"
    using MakeHeader_eq[OF h] unfolding hd same .
  then have "c3\<lparr>CommitPayloads := (CommitPayloads c3)[i := None]\<rparr>
      = ?t\<lparr>header := Some b, blockSet := blockSet c\<rparr>"
    by (simp add: c2 l)
  with rtranclp_trans[OF s1 s2] show ?thesis by (simp only:)
qed

lemma onCommit_ksteps:
  assumes "onCommit cfg m c = Inr d" and "wf cfg c" and "\<not> blockProcessed c"
    and "cmType m = CommitType" and "height m = BlockIndex c"
    and "unat (validatorIndex m) < ctxN c"
  shows "ksteps cfg c d"
proof (cases "slot (CommitPayloads c) (unat (validatorIndex m)) = None")
  case False
  then have "d = c" using assms(1) by (auto simp: onCommit_def Let_def)
  then show ?thesis by simp
next
  case True
  let ?i = "unat (validatorIndex m)"
  let ?drop = "\<lambda>c. c\<lparr>CommitPayloads := (CommitPayloads c)[?i := None]\<rparr>"
  define c1 where "c1 = c\<lparr>CommitPayloads := (CommitPayloads c)[?i := Some m]\<rparr>"
  have s1: "lsteps cfg c c1"
    unfolding c1_def using True assms by (intro lstep_lsteps lcommit) simp_all
  have u: "(if ViewNumber c1 \<noteq> viewNumber m then Ok c1
            else if \<not> VerifyCommit cfg (log c1) m then Ok (?drop c1)
            else thenDo (extendTimer cfg 4 c1) (\<lambda>c2.
              case MakeHeader cfg c2 of
                (None, c3) \<Rightarrow> Ok c3
              | (Some h, c3) \<Rightarrow>
                  (case GetCommit (body m) of
                     None \<Rightarrow> Stop TypeAssertion
                   | Some cm \<Rightarrow>
                       if blockVerify cfg (Validators c3 ! ?i) (signature cm) h
                       then checkCommit cfg c3
                       else Ok (?drop c3)))) = Inr d"
    using assms(1) True unfolding onCommit_def Let_def c1_def[symmetric] by simp
  show ?thesis
  proof (cases "ViewNumber c1 = viewNumber m \<and> VerifyCommit cfg (log c1) m")
    case False
    have "?drop c1 = c"
      using slot_None_update[OF True] assms(6) wf_tables(3)[OF assms(2)] by (simp add: c1_def)
    then have "d = c1 \<or> d = c" using u False by (auto split: if_splits)
    then show ?thesis using lsteps_ksteps[OF s1] by blast
  next
    case v: True
    obtain c2 where e: "extendTimer cfg 4 c1 = Inr c2"
      using u v by (auto simp: thenDo_Ok_iff)
    note s2 = rtranclp_trans[OF s1 extendTimer_lsteps[OF e]]
    obtain h c3 where b: "MakeHeader cfg c2 = (h, c3)" by fastforce
    have nb2: "\<not> blockProcessed c2" using lsteps_frame(6)[OF s2] assms(3) by simp
    note s3 = rtranclp_trans[OF s2 MakeHeader_lsteps(1)[OF b lsteps_wf[OF s2 assms(2)] nb2]]
    have "d = c3 \<or> (\<exists>hb. h = Some hb \<and> d = ?drop c3) \<or> checkCommit cfg c3 = Inr d"
      using u v e b by (auto split: if_splits option.splits)
    moreover have "ksteps cfg c3 d" if "checkCommit cfg c3 = Inr d"
      using that lsteps_wf[OF s3 assms(2)] lsteps_frame(6)[OF s3] assms(3)
      by (intro checkCommit_ksteps) simp_all
    moreover have "lsteps cfg c (?drop c3)" if "h = Some hb" for hb
      using rejected_commit_lsteps[OF assms(2,3,6) True e[unfolded c1_def]] b that by simp
    ultimately show ?thesis
      using lsteps_ksteps[OF s3] lsteps_ksteps[of cfg c "?drop c3"] rtranclp_trans[OF lsteps_ksteps[OF s3]]
      by blast
  qed
qed

context receiver
begin

lemma onChangeView_may:
  assumes "onChangeView cfg rcv m c = Inr d" and "wf cfg c" and "\<not> blockProcessed c"
    and "cmType m = ChangeViewType" and "height m = BlockIndex c"
    and "unat (validatorIndex m) < ctxN c"
  shows "may cfg c d"
proof -
  let ?c1 = "c\<lparr>ChangeViewPayloads := (ChangeViewPayloads c)[unat (validatorIndex m) := Some m]\<rparr>"
  have s1: "lsteps cfg c ?c1" using assms by (intro lstep_lsteps lchangeview) simp_all
  obtain p where p: "GetChangeView (body m) = Some p"
    using assms(1) by (auto simp: onChangeView_def split: option.splits)
  show ?thesis
  proof (cases "newViewNumber p \<le> ViewNumber c")
    case True
    then have "onRecoveryRequest cfg m c = Inr d" using assms(1) p by (simp add: onChangeView_def)
    then show ?thesis using onRecoveryRequest_lsteps assms(2) lsteps_may by blast
  next
    case new: False
    show ?thesis
    proof (cases "CommitSent cfg c \<or> PreCommitSent cfg c")
      case True
      then have "sendRecoveryMessage cfg c = Inr d" using assms(1) p new by (simp add: onChangeView_def)
      moreover have "speaks cfg c"
        using True assms(2) by (auto simp: CommitSent_def PreCommitSent_def speaks_active)
      ultimately show ?thesis using sendRecoveryMessage_lsteps lsteps_may by blast
    next
      case False
      then have ul: "\<not> locked cfg c" by (simp add: locked_def)
      have "d = c \<or> checkChangeView cfg rcv (newViewNumber p) ?c1 = Inr d"
        using assms(1) p new False by (auto simp: onChangeView_def split: if_splits option.splits)
      moreover have "nsteps cfg c d" if "checkChangeView cfg rcv (newViewNumber p) ?c1 = Inr d"
        using checkChangeView_nsteps[OF that lsteps_wf[OF s1 assms(2)]] lsteps_frame(6)[OF s1] assms(3)
          rtranclp_trans[OF ksteps_nsteps[OF lsteps_ksteps[OF s1]]] by simp
      ultimately show ?thesis using ul may_unlocked by auto
    qed
  qed
qed

lemma recoverPreparations_may:
  assumes "recoverPreparations rcv r m c = Inr d" and "wf cfg c"
  shows "may cfg c d"
proof -
  obtain c1 where 1: "(if \<not> RequestSentOrReceived c
             then (case rm_GetPrepareRequest r m (of_nat (PrimaryIndex c)) of
                     None \<Rightarrow> Ok c | Some prepReq \<Rightarrow> rcv prepReq c)
             else Ok c) = Inr c1"
    and 2: "forEach rcv (rm_GetPrepareResponses r m) c1 = Inr d"
    using assms(1) by (auto simp: recoverPreparations_def thenDo_Ok_iff)
  have m1: "may cfg c c1"
    using 1 rcv_may[OF assms(2)] by (auto split: if_splits option.splits)
  show ?thesis using m1 forEach_may[OF may_wf[OF m1 assms(2)] 2] by (rule may_trans)
qed

lemma recoverCommits_may:
  assumes "recoverCommits rcv r m c = Inr d" and "wf cfg c"
  shows "may cfg c d"
proof -
  obtain pcs c1 where 1: "forEach rcv pcs c = Inr c1" and 2: "forEach rcv (rm_GetCommits r m) c1 = Inr d"
    using assms(1) by (auto simp: recoverCommits_def thenDo_Ok_iff)
  note m1 = forEach_may[OF assms(2) 1]
  show ?thesis using m1 forEach_may[OF may_wf[OF m1 assms(2)] 2] by (rule may_trans)
qed

lemma recoverAll_may:
  assumes "recoverAll cfg rcv r m c = Inr d" and "wf cfg c"
  shows "may cfg c d"
proof (cases "viewNumber m > ViewNumber c \<and> (CommitSent cfg c \<or> PreCommitSent cfg c)")
  case True
  then have "d = c" using assms(1) by (simp add: recoverAll_def)
  then show ?thesis by simp
next
  case False
  obtain c1 c2 where
    1: "(if viewNumber m > ViewNumber c then forEach rcv (rm_GetChangeViews r m) c else Ok c) = Inr c1"
    and 2: "(if viewNumber m = ViewNumber c1
                   \<and> (\<not> ViewChanging cfg c1 \<or> MoreThanFNodesCommittedOrLost c1)
                   \<and> \<not> CommitSent cfg c1
                   \<and> (\<not> isAntiMEVExtensionEnabled cfg c1 \<or> \<not> PreCommitSent cfg c1)
                then recoverPreparations rcv r m c1 else Ok c1) = Inr c2"
    and 3: "(if viewNumber m \<le> ViewNumber c2 then recoverCommits rcv r m c2 else Ok c2) = Inr d"
    using assms(1) False unfolding recoverAll_def by (simp only: if_False) (auto simp: thenDo_Ok_iff)
  have m1: "may cfg c c1" using 1 forEach_may[OF assms(2)] by (simp split: if_splits)
  note w1 = may_wf[OF m1 assms(2)]
  have m2: "may cfg c1 c2" using 2 recoverPreparations_may[OF _ w1] by (simp split: if_splits)
  note w2 = may_wf[OF m2 w1]
  have m3: "may cfg c2 d" using 3 recoverCommits_may[OF _ w2] by (simp split: if_splits)
  from m1 m2 m3 show ?thesis by (blast intro: may_trans)
qed

lemma onRecoveryMessage_may:
  assumes "onRecoveryMessage cfg rcv m c = Inr d" and "wf cfg c"
  shows "may cfg c d"
proof -
  obtain r c1 where 1: "recoverAll cfg rcv r m (c\<lparr>recovering := True\<rparr>) = Inr c1"
    and 2: "d = c1\<lparr>recovering := False\<rparr>"
    using assms(1) by (auto simp: onRecoveryMessage_def thenDo_Ok_iff split: option.splits)
  have "lsteps cfg c (c\<lparr>recovering := True\<rparr>)" by (rule silent_lsteps) (simp_all add: sameCore_def)
  note m1 = lsteps_may[OF this]
  note m2 = recoverAll_may[OF 1 may_wf[OF m1 assms(2)]]
  have "lsteps cfg c1 d" unfolding 2 by (rule silent_lsteps) (simp_all add: sameCore_def)
  then show ?thesis using m1 m2 by (blast intro: may_trans lsteps_may)
qed

lemma dispatch_may:
  assumes "dispatch cfg rcv m c = Inr d" and "wf cfg c"
    and "blockProcessed c \<Longrightarrow> cmType m = RecoveryRequestType" and "height m = BlockIndex c"
    and "unat (validatorIndex m) < ctxN c"
  shows "may cfg c d"
proof (cases "cmType m")
  case ChangeViewType
  then show ?thesis using assms by (intro onChangeView_may) (auto simp: dispatch_def)
next
  case PrepareRequestType
  then show ?thesis using assms by (intro onPrepareRequest_may) (auto simp: dispatch_def)
next
  case PrepareResponseType
  then show ?thesis using assms by (intro ksteps_may onPrepareResponse_ksteps) (auto simp: dispatch_def)
next
  case PreCommitType
  then show ?thesis
    using assms onPreCommit_ksteps[of cfg m c d]
    by (auto simp: dispatch_def split: if_splits intro!: ksteps_may)
next
  case CommitType
  then show ?thesis using assms by (intro ksteps_may onCommit_ksteps) (auto simp: dispatch_def)
next
  case RecoveryRequestType
  then show ?thesis
    using assms by (intro lsteps_may onRecoveryRequest_lsteps[of cfg m]) (auto simp: dispatch_def)
next
  case RecoveryMessageType
  then show ?thesis using assms by (intro onRecoveryMessage_may) (auto simp: dispatch_def)
next
  case (UnknownType b)
  then show ?thesis using assms(1) by (simp add: dispatch_def)
qed

lemma receive_may:
  assumes "receive cfg rcv m c = Inr d" and "wf cfg c"
  shows "may cfg c d"
proof -
  let ?early = "unat (validatorIndex m) \<ge> length (Validators c) \<or> body m = NilPayload
    \<or> height m < BlockIndex c"
  let ?later = "height m > BlockIndex c
           \<or> (viewNumber m > ViewNumber c \<and> cmType m \<noteq> ChangeViewType
               \<and> cmType m \<noteq> RecoveryMessageType)"
  consider (early) ?early | (later) "\<not> ?early" ?later | (now) "\<not> ?early" "\<not> ?later" by blast
  then show ?thesis
  proof cases
    case early
    then have "d = c" using assms(1) by (auto simp: receive_def split: if_splits)
    then show ?thesis by simp
  next
    case later
    then have d: "d = c\<lparr>dcache := addMessage m (dcache c)\<rparr>"
      using assms(1) by (simp add: receive_def)
    have "lsteps cfg c d"
      unfolding d by (rule silent_lsteps) (simp_all add: sameCore_def cache_ok_addMessage)
    then show ?thesis by (rule lsteps_may)
  next
    case now
    let ?c1 = "noteSeen m c"
    have s1: "lsteps cfg c ?c1"
      unfolding noteSeen_def by (auto intro!: silent_lsteps simp: sameCore_def)
    have r: "(if BlockSent ?c1 \<and> cmType m \<noteq> RecoveryRequestType then Ok ?c1
           else dispatch cfg rcv m ?c1) = Inr d"
      using assms(1) now unfolding receive_def Let_def by (auto split: if_split_asm)
    have h: "height m = BlockIndex ?c1" "unat (validatorIndex m) < ctxN ?c1"
      using now lsteps_frame(1,3)[OF s1] by (auto simp: ctxN_def)
    have "may cfg ?c1 d"
    proof (cases "BlockSent ?c1 \<and> cmType m \<noteq> RecoveryRequestType")
      case True
      then show ?thesis using r by simp
    next
      case False
      then have "dispatch cfg rcv m ?c1 = Inr d" using r by (simp only: if_False)
      then show ?thesis
        using lsteps_wf[OF s1 assms(2)] False h by (intro dispatch_may) (auto simp: BlockSent_def)
    qed
    then show ?thesis using lsteps_may[OF s1] may_trans by blast
  qed
qed

subsection \<open>Timeouts and transactions\<close>

lemma onTimeout_may:
  assumes "onTimeout cfg rcv h v force c = Inr d" and "wf cfg c"
  shows "may cfg c d"
proof (cases "WatchOnly cfg c \<or> BlockSent c \<or> h \<noteq> BlockIndex c \<or> v \<noteq> ViewNumber c")
  case True
  then have "d = c" using assms(1) by (auto simp: onTimeout_def split: if_splits)
  then show ?thesis by simp
next
  case False
  then have sp: "speaks cfg c" and nb: "\<not> blockProcessed c"
    using assms(2) by (simp_all add: speaks_active BlockSent_def)
  have u: "(if IsPrimary c \<and> \<not> RequestSentOrReceived c
      then sendPrepareRequest cfg (ViewNumber c \<noteq> 0 \<or> txSubscriptionOn c \<or> force) c
      else if (IsPrimary c \<and> RequestSentOrReceived c) \<or> IsBackup c then
        if CommitSent cfg c \<or> PreCommitSent cfg c
        then steps [sendRecoveryMessage cfg, (\<lambda>c. changeTimer (shl64 (timePerBlock c) 1) c)] c
        else if ViewNumber c = 0 \<and> cfgMaxTimePerBlock cfg \<noteq> None \<and> IsBackup c \<and> force
        then steps [(\<lambda>c. changeTimer (shl64 (timePerBlock c) 1) c), unsubscribeFromTransactions] c
        else if ViewNumber c = 0 \<and> cfgMaxTimePerBlock cfg \<noteq> None \<and> IsBackup c
             \<and> \<not> txSubscriptionOn c \<and> GetVerified cfg (log c) = []
        then steps [subscribeForTransactions,
                    (\<lambda>c. changeTimer (wrap64 (shl64 (maxTimePerBlock c) 1 - shl64 (timePerBlock c) 1)) c)] c
        else sendChangeView cfg rcv CVTimeout c
      else Ok c) = Inr d"
    using assms(1) False by (simp add: onTimeout_def)
  consider (propose) "sendPrepareRequest cfg (ViewNumber c \<noteq> 0 \<or> txSubscriptionOn c \<or> force) c = Inr d"
    | (recover) "steps [sendRecoveryMessage cfg, (\<lambda>c. changeTimer (shl64 (timePerBlock c) 1) c)] c = Inr d"
    | (wait) "steps [(\<lambda>c. changeTimer (shl64 (timePerBlock c) 1) c), unsubscribeFromTransactions] c = Inr d"
    | (sub) "steps [subscribeForTransactions,
          (\<lambda>c. changeTimer (wrap64 (shl64 (maxTimePerBlock c) 1 - shl64 (timePerBlock c) 1)) c)] c = Inr d"
    | (change) "sendChangeView cfg rcv CVTimeout c = Inr d" "\<not> CommitSent cfg c"
    | (idle) "c = d"
    using u by (simp only: sum.inject split: if_split_asm) blast+
  then show ?thesis
  proof cases
    case propose
    then show ?thesis using sendPrepareRequest_ksteps[OF _ assms(2) nb sp] ksteps_may by blast
  next
    case recover
    then obtain c1 where "sendRecoveryMessage cfg c = Inr c1"
      and "changeTimer (shl64 (timePerBlock c1) 1) c1 = Inr d"
      by (auto simp: thenDo_Ok_iff)
    then show ?thesis
      using sendRecoveryMessage_lsteps[OF _ sp] changeTimer_lsteps may_trans lsteps_may by metis
  next
    case wait
    then obtain c1 where "changeTimer (shl64 (timePerBlock c) 1) c = Inr c1"
      and "unsubscribeFromTransactions c1 = Inr d"
      by (auto simp: thenDo_Ok_iff)
    then show ?thesis
      using unsubscribe_lsteps changeTimer_lsteps may_trans lsteps_may by metis
  next
    case sub
    then obtain c1 where "subscribeForTransactions c = Inr c1"
      and "changeTimer (wrap64 (shl64 (maxTimePerBlock c1) 1 - shl64 (timePerBlock c1) 1)) c1 = Inr d"
      by (auto simp: thenDo_Ok_iff)
    then show ?thesis
      using subscribeForTransactions_lsteps changeTimer_lsteps may_trans lsteps_may by metis
  next
    case change
    then show ?thesis
      using sendChangeView_nsteps[OF _ assms(2) nb] by (auto simp: locked_def intro: may_unlocked)
  qed simp
qed

lemma onTransaction_may:
  assumes "onTransaction cfg rcv tx c = Inr d" and "wf cfg c"
  shows "may cfg c d"
proof (cases "\<not> IsBackup c \<or> NotAcceptingPayloadsDueToViewChanging cfg c
         \<or> \<not> RequestSentOrReceived c \<or> ResponseSent cfg c \<or> PreCommitSent cfg c
         \<or> CommitSent cfg c \<or> BlockSent c \<or> MissingTransactions c = []
         \<or> sliceIndex (MissingTransactions c) (txHash cfg tx) = None")
  case True
  then have "d = c" using assms(1) by (auto simp: onTransaction_def split: if_splits)
  then show ?thesis by simp
next
  case False
  then have ul: "\<not> locked cfg c" and nb: "\<not> blockProcessed c" by (simp_all add: locked_def BlockSent_def)
  obtain c1 where a: "addTransaction cfg rcv tx c = Inr c1"
    and d: "d = c1 \<or> (\<exists>ms. d = c1\<lparr>MissingTransactions := ms\<rparr>)"
    using assms(1) False
    by (auto simp: onTransaction_def thenDo_Ok_iff split: if_splits option.splits)
  have "lsteps cfg c1 d"
    using d by (auto intro!: silent_lsteps simp: sameCore_def)
  then have "nsteps cfg c d"
    using addTransaction_nsteps[OF a assms(2) nb] ksteps_nsteps[OF lsteps_ksteps] rtranclp_trans by metis
  then show ?thesis using ul by (rule may_unlocked)
qed

end

subsection \<open>The receiver\<close>

text \<open>\<open>OnReceiveN\<close> implements the interface, whatever the bound.\<close>

lemma OnReceiveN_may: "wf cfg c \<Longrightarrow> OnReceiveN cfg n m c = Inr d \<Longrightarrow> may cfg c d"
proof (induction n arbitrary: m c d)
  case 0
  then show ?case by simp
next
  case (Suc n)
  have "receiver cfg (OnReceiveN cfg n)" by unfold_locales (rule Suc.IH)
  then show ?case using Suc.prems receiver.receive_may by fastforce
qed

interpretation node: receiver cfg "OnReceive cfg" for cfg
  by unfold_locales (auto simp: OnReceive_def intro: OnReceiveN_may)

text \<open>Every call but \<open>Start\<close> and \<open>Reset\<close> takes steps of the current height.\<close>

lemma exec_may:
  assumes "exec cfg a c = Inr d" and "wf cfg c" and "\<not> isHeightCall a"
  shows "may cfg c d"
proof -
  obtain c1 where e: "emit (ECall a) c = Inr c1" and r: "runCall cfg a c1 = Inr d"
    using assms(1) by (auto simp: exec_def thenDo_Ok_iff)
  have m1: "may cfg c c1"
    using e assms(3) by (intro lsteps_may) (auto elim: emit_lsteps)
  note w1 = may_wf[OF m1 assms(2)]
  have "may cfg c1 d"
  proof (cases a)
    case (CallTransaction tx)
    then show ?thesis using r w1 by (intro node.onTransaction_may) simp_all
  next
    case (CallTimeout h v)
    then show ?thesis using r w1 by (intro node.onTimeout_may) simp_all
  next
    case CallNewTransaction
    then have "onNewTransaction cfg c1 = Inr d" using r by simp
    then show ?thesis using w1 node.onTimeout_may by (auto simp: onNewTransaction_def split: if_splits)
  next
    case (CallReceive m)
    then show ?thesis using r w1 by (auto intro: node.rcv_may)
  qed (use assms(3) in simp_all)
  with m1 show ?thesis by (rule may_trans)
qed

text \<open>\<open>Reset\<close> and \<open>Start\<close> begin a height in a fresh state and then take steps of it.\<close>

lemma replayCached_empty:
  "replayCached cfg rcv c = Inr d \<Longrightarrow> mail (dcache c) = [] \<Longrightarrow> d = c"
  by (auto simp: replayCached_def getHeight_def)

lemma initializeConsensus_empty:
  assumes "initializeConsensus cfg rcv 0 ts c = Inr d" and "mail (dcache c) = []"
  obtains c1 where "reset cfg 0 ts c = Inr c1" and "lsteps cfg c1 d"
proof -
  obtain c1 c2 c3 where 1: "reset cfg 0 ts c = Inr c1" and 2: "emit EStopTxFlow c1 = Inr c2"
    and 3: "replayCached cfg rcv c2 = Inr c3"
    and 4: "(if WatchOnly cfg c3 then Ok c3 else changeTimer (roundTimeout cfg 0 c3) c3) = Inr d"
    using assms(1) by (auto simp: initializeConsensus_def thenDo_Ok_iff)
  have "mail (dcache c2) = []" using 2 reset_Ok(12)[OF 1] assms(2) by (auto simp: emit_def)
  then have "c3 = c2" using replayCached_empty[OF 3] by simp
  then have "lsteps cfg c2 d" using 4 changeTimer_lsteps by (auto split: if_splits)
  with 1 stopTxFlow_lsteps[OF 2] show thesis by (blast intro: that rtranclp_trans)
qed

lemma start_steps:
  assumes "start cfg ts c = Inr d"
  obtains c0 c1 where "reset cfg 0 ts c0 = Inr c1" and "wf cfg c1" and "nsteps cfg c1 d"
    and "log c0 = log c"
proof -
  define c0 where "c0 = c\<lparr>dcache := newCache\<rparr>"
  obtain c2 where ic: "initializeConsensus cfg (OnReceive cfg) 0 ts c0 = Inr c2"
    and p: "(if IsPrimary c2 then sendPrepareRequest cfg True c2 else Ok c2) = Inr d"
    using assms by (auto simp: start_def thenDo_Ok_iff c0_def)
  obtain c1 where r: "reset cfg 0 ts c0 = Inr c1" and l: "lsteps cfg c1 c2"
    by (rule initializeConsensus_empty[OF ic]) (auto simp: c0_def newCache_def)
  have w1: "wf cfg c1" using r by (rule reset_height_wf) (simp add: c0_def cache_ok_new)
  have "ksteps cfg c2 d"
  proof (cases "IsPrimary c2")
    case True
    then have "speaks cfg c2" by (simp add: speaks_def IsPrimary_def)
    then show ?thesis
      using p True lsteps_wf[OF l w1] lsteps_frame(6)[OF l] reset_height_Ok(5)[OF r]
      by (intro sendPrepareRequest_ksteps) simp_all
  next
    case False
    then show ?thesis using p by simp
  qed
  then have "nsteps cfg c1 d" using lsteps_ksteps[OF l] ksteps_nsteps rtranclp_trans by metis
  with r w1 show thesis by (rule that) (simp add: c0_def)
qed

lemma reset_call_steps:
  assumes "exec cfg (CallReset ts) c = Inr d" and "cache_ok (dcache c)"
  obtains c1 where "reset cfg 0 ts (c\<lparr>log := ECall (CallReset ts) # log c\<rparr>) = Inr c1"
    and "wf cfg c1" and "nsteps cfg c1 d"
proof -
  let ?c0 = "c\<lparr>log := ECall (CallReset ts) # log c\<rparr>"
  have ic: "initializeConsensus cfg (OnReceive cfg) 0 ts ?c0 = Inr d"
    using assms(1) by (simp add: exec_def emit_def resetNode_def)
  have w: "wf cfg c1" if "reset cfg 0 ts ?c0 = Inr c1" for c1
    using that by (rule reset_height_wf) (simp add: assms(2))
  obtain c1 where "reset cfg 0 ts ?c0 = Inr c1" and "may cfg c1 d"
    by (rule node.initializeConsensus_may[OF ic w])
  then show thesis using w by (intro that[of c1]) (simp_all add: may_def)
qed

lemma height_call_steps:
  assumes "exec cfg a c = Inr d" and "isHeightCall a" and "cache_ok (dcache c)"
  obtains ts c0 c1 where "reset cfg 0 ts c0 = Inr c1" and "wf cfg c1" and "nsteps cfg c1 d"
    and "log c0 = ECall a # log c"
proof (cases a)
  case (CallStart ts)
  then have "start cfg ts (c\<lparr>log := ECall a # log c\<rparr>) = Inr d"
    using assms(1) by (simp add: exec_def emit_def)
  then show thesis by (rule start_steps) (rule that, auto)
next
  case (CallReset ts)
  have "exec cfg (CallReset ts) c = Inr d" using assms(1) CallReset by simp
  then obtain c1 where "reset cfg 0 ts (c\<lparr>log := ECall (CallReset ts) # log c\<rparr>) = Inr c1"
    and "wf cfg c1" and "nsteps cfg c1 d"
    using reset_call_steps[OF _ assms(3)] by metis
  then show thesis using that[of ts "c\<lparr>log := ECall (CallReset ts) # log c\<rparr>" c1] CallReset by simp
qed (use assms(2) in simp_all)

lemma exec_wf:
  assumes "exec cfg a c = Inr d" and "isHeightCall a \<or> wf cfg c" and "cache_ok (dcache c)"
  shows "wf cfg d"
proof (cases "isHeightCall a")
  case True
  then obtain ts c0 c1 where "wf cfg c1" and "nsteps cfg c1 d"
    using height_call_steps[OF assms(1) _ assms(3)] by metis
  then show ?thesis using nsteps_wf by blast
next
  case False
  then show ?thesis using exec_may[OF assms(1)] assms(2) may_wf by blast
qed

lemma newDbft_cache: "cache_ok (dcache (newDbft cfg))"
  by (simp add: newDbft_def cache_ok_new)

lemma reachable_wf: "reachable cfg c \<Longrightarrow> wf cfg c"
proof (induction rule: reachable.induct)
  case (reach_start ts c)
  then show ?case using exec_wf[OF reach_start _ newDbft_cache] by simp
next
  case (reach_call c a c')
  then show ?case using exec_wf[of cfg a c c'] wf_fields(11) by blast
qed

end
