(* ===== verification/Node_Safety.thy ===== *)
theory Node_Safety
  imports Refinement
begin

section \<open>Safety of a single node\<close>

text \<open>
  Invariants of the states a node reaches, proved on the steps of \<open>Node_Step\<close> and carried over to
  the code by \<open>Refinement\<close>. \<open>heightLog\<close> is what the node did since the last \<open>Start\<close> or \<open>Reset\<close>,
  newest first. The locale \<open>height_invariant\<close> is the proof rule: an invariant holds after a reset
  to a new height and is kept by each kind of step.
\<close>

subsection \<open>The effects of a step\<close>

text \<open>The effects of a local step: quiet ones, and broadcasts of the node's own stored Commit.\<close>

definition localEffect ::
    "('tx, 'b, 'pb, 'pub, 'priv) config \<Rightarrow> ('tx, 'b, 'pb, 'pub, 'priv) dbft
       \<Rightarrow> ('tx, 'b, 'pb) effect \<Rightarrow> bool" where
  "localEffect cfg c e \<longleftrightarrow>
     quietEffect cfg c e
     \<or> (\<exists>m. e = EBroadcast m \<and> speaks cfg c \<and> slot (CommitPayloads c) (nat (MyIndex c)) = Some m)"

lemma quietEffect_sameHeight: "quietEffect cfg c e \<Longrightarrow> sameHeight e"
  by (cases e) simp_all

lemma localEffect_sameHeight: "localEffect cfg c e \<Longrightarrow> sameHeight e"
  by (auto simp: localEffect_def dest: quietEffect_sameHeight)

lemma lstep_log:
  assumes "lstep cfg c d" and "wf cfg c"
  obtains es where "heightLog (log d) = es @ heightLog (log c)" and "\<forall>e \<in> set es. localEffect cfg c e"
proof -
  have "\<exists>es. log d = es @ log c \<and> (\<forall>e \<in> set es. localEffect cfg c e)"
    using assms(1)
  proof cases
    case lquiet
    then show ?thesis by (auto simp: quiet_def localEffect_def)
  next
    case (lsaycommit m)
    have "0 \<le> MyIndex c" using lsaycommit by (simp add: speaks_index)
    then have "SetValidatorIndex (word_of_int (MyIndex c)) m = m"
      using stored_commit(3)[OF assms(2) lsaycommit(3)] by (intro SetValidatorIndex_own) simp
    then show ?thesis using lsaycommit by (intro exI[of _ "[EBroadcast m]"]) (simp add: localEffect_def)
  qed simp_all
  then obtain es where l: "log d = es @ log c" and e: "\<forall>e \<in> set es. localEffect cfg c e" by blast
  show thesis
    by (rule that[OF _ e]) (use e l in \<open>auto intro: heightLog_append localEffect_sameHeight\<close>)
qed

subsection \<open>The proof rule\<close>

locale height_invariant =
  fixes cfg :: "('tx, 'b, 'pb, 'pub, 'priv) config"
    and I :: "('tx, 'b, 'pb, 'pub, 'priv) dbft \<Rightarrow> bool"
  assumes at_reset: "reset cfg 0 ts c = Inr d \<Longrightarrow> heightLog (log d) = [] \<Longrightarrow> I d"
    and at_local: "wf cfg c \<Longrightarrow> I c \<Longrightarrow> lstep cfg c d \<Longrightarrow> I d"
    and at_block: "wf cfg c \<Longrightarrow> I c \<Longrightarrow> \<not> blockProcessed c \<Longrightarrow> header c = Some b \<Longrightarrow>
      ctxM c \<le> countView (ViewNumber c) (CommitPayloads c) \<Longrightarrow>
      I (c\<lparr>log := EProcessBlock b ok # log c, blockProcessed := ok\<rparr>)"
    and at_view: "wf cfg c \<Longrightarrow> I c \<Longrightarrow> \<not> blockProcessed c \<Longrightarrow> ViewNumber c < view \<Longrightarrow>
      ctxM c \<le> countChangeViews view (ChangeViewPayloads c) \<Longrightarrow>
      reset cfg view ts c = Inr d \<Longrightarrow> I d"
begin

lemma at_nstep:
  assumes "nstep cfg c d" and "wf cfg c" and "I c"
  shows "I d"
  using assms(1)
proof cases
  case nview_same
  then show ?thesis using assms(2,3) at_local at_block by cases auto
next
  case nview_change
  then show ?thesis using assms(2,3) at_view by blast
qed

lemma at_nsteps: "nsteps cfg c d \<Longrightarrow> wf cfg c \<Longrightarrow> I c \<Longrightarrow> I d"
proof (induction rule: rtranclp_induct)
  case (step t u)
  then show ?case using at_nstep nsteps_wf by blast
qed

lemma at_height_call:
  assumes "exec cfg a c = Inr d" and "isHeightCall a" and "cache_ok (dcache c)"
  shows "I d"
proof -
  obtain ts c0 c1 where r: "reset cfg 0 ts c0 = Inr c1" and w: "wf cfg c1" and n: "nsteps cfg c1 d"
    and l: "log c0 = ECall a # log c"
    by (rule height_call_steps[OF assms])
  have "heightLog (log c1) = []" using l assms(2) reset_Ok(13)[OF r] by simp
  then show ?thesis using at_reset[OF r] at_nsteps[OF n w] by blast
qed

lemma holds: "reachable cfg c \<Longrightarrow> I c"
proof (induction rule: reachable.induct)
  case (reach_start ts c)
  then show ?case using at_height_call newDbft_cache by fastforce
next
  case (reach_call c a c')
  note w = reachable_wf[OF reach_call.hyps(1)]
  show ?case
  proof (cases "isHeightCall a")
    case True
    then show ?thesis using at_height_call reach_call.hyps(3) wf_fields(11)[OF w] by blast
  next
    case False
    then have "nsteps cfg c c'" using exec_may[OF reach_call.hyps(3) w] by (simp add: may_def)
    then show ?thesis using at_nsteps w reach_call.IH by blast
  qed
qed

end

subsection \<open>At most one block\<close>

definition isAccepted :: "('tx, 'b, 'pb) effect \<Rightarrow> bool" where
  "isAccepted e \<longleftrightarrow> (case e of EProcessBlock b ok \<Rightarrow> ok | _ \<Rightarrow> False)"

text \<open>
  The accepted blocks of the height are counted by \<open>blockProcessed\<close>, and an accepted block has a
  quorum of Commits of the current view behind it.
\<close>

definition acceptedOnce :: "('tx, 'b, 'pb, 'pub, 'priv) dbft \<Rightarrow> bool" where
  "acceptedOnce c \<longleftrightarrow>
     length (filter isAccepted (heightLog (log c))) = (if blockProcessed c then 1 else 0)
     \<and> (blockProcessed c \<longrightarrow> ctxM c \<le> countView (ViewNumber c) (CommitPayloads c))"

lemma localEffect_not_accepted: "localEffect cfg c e \<Longrightarrow> \<not> isAccepted e"
  by (cases e) (auto simp: localEffect_def isAccepted_def)

lemma lstep_commits_kept:
  assumes "lstep cfg c d" and "blockProcessed c"
  shows "CommitPayloads d = CommitPayloads c"
  using assms by cases (simp_all add: quiet_def sameCore_def)

lemma lstep_quorum: "lstep cfg c d \<Longrightarrow> ctxN d = ctxN c \<and> ctxM d = ctxM c \<and> ctxF d = ctxF c"
  by (simp add: lstep_frame ctxN_def ctxM_def ctxF_def)

interpretation accepted: height_invariant cfg acceptedOnce for cfg
proof unfold_locales
  fix ts c d
  assume "reset cfg 0 ts c = Inr d" "heightLog (log d) = []"
  then show "acceptedOnce d" using reset_height_Ok(5) by (auto simp: acceptedOnce_def)
next
  fix c d
  assume a: "wf cfg c" "acceptedOnce c" "lstep cfg c d"
  obtain es where l: "heightLog (log d) = es @ heightLog (log c)" and e: "\<forall>e \<in> set es. localEffect cfg c e"
    by (rule lstep_log[OF a(3,1)])
  have "filter isAccepted es = []"
    using e localEffect_not_accepted by (auto simp: filter_empty_conv)
  then show "acceptedOnce d"
    using a(2) l lstep_frame[OF a(3)] lstep_commits_kept[OF a(3)] lstep_quorum[OF a(3)]
    by (simp add: acceptedOnce_def)
next
  fix c b ok
  assume "acceptedOnce c" "\<not> blockProcessed c"
    "ctxM c \<le> countView (ViewNumber c) (CommitPayloads c)"
  then show "acceptedOnce (c\<lparr>log := EProcessBlock b ok # log c, blockProcessed := ok\<rparr>)"
    by (simp add: acceptedOnce_def isAccepted_def ctxM_def ctxF_def)
next
  fix c view ts d
  assume a: "acceptedOnce c" "\<not> blockProcessed c" "ViewNumber c < view" "reset cfg view ts c = Inr d"
  then have "view \<noteq> 0" by auto
  then show "acceptedOnce d"
    using a reset_view_Ok(5)[OF a(4)] reset_Ok(13)[OF a(4)] by (simp add: acceptedOnce_def)
qed

subsection \<open>Authentic and unequivocal broadcasts\<close>

text \<open>Every broadcast of the height carries the node's own index and the height.\<close>

definition ownBroadcasts :: "('tx, 'b, 'pb, 'pub, 'priv) dbft \<Rightarrow> bool" where
  "ownBroadcasts c \<longleftrightarrow>
     (\<forall>m. EBroadcast m \<in> set (heightLog (log c)) \<longrightarrow>
        0 \<le> MyIndex c \<and> validatorIndex m = word_of_int (MyIndex c) \<and> height m = BlockIndex c)"

lemma localEffect_own:
  assumes "localEffect cfg c (EBroadcast m)" and "wf cfg c"
  shows "0 \<le> MyIndex c \<and> validatorIndex m = word_of_int (MyIndex c) \<and> height m = BlockIndex c"
proof -
  have "speaks cfg c" using assms(1) by (auto simp: localEffect_def)
  then have i: "0 \<le> MyIndex c" by (rule speaks_index)
  then show ?thesis
    using assms(1) stored_commit[OF assms(2), of "nat (MyIndex c)" m]
    by (auto simp: localEffect_def)
qed

interpretation own: height_invariant cfg ownBroadcasts for cfg
proof unfold_locales
  fix ts c d
  assume "reset cfg 0 ts c = Inr d" "heightLog (log d) = []"
  then show "ownBroadcasts d" by (simp add: ownBroadcasts_def)
next
  fix c d
  assume a: "wf cfg c" "ownBroadcasts c" "lstep cfg c d"
  obtain es where l: "heightLog (log d) = es @ heightLog (log c)" and e: "\<forall>e \<in> set es. localEffect cfg c e"
    by (rule lstep_log[OF a(3,1)])
  then show "ownBroadcasts d"
    using a(2) lstep_frame[OF a(3)] localEffect_own[OF _ a(1)] by (auto simp: ownBroadcasts_def)
next
  fix c b ok
  assume "ownBroadcasts c"
  then show "ownBroadcasts (c\<lparr>log := EProcessBlock b ok # log c, blockProcessed := ok\<rparr>)"
    by (simp add: ownBroadcasts_def)
next
  fix c view ts d
  assume a: "wf cfg c" "ownBroadcasts c" "ViewNumber c < view" "reset cfg view ts c = Inr d"
  then have "view \<noteq> 0" by auto
  then show "ownBroadcasts d"
    using a reset_view_Ok(1,2)[OF a(4)] reset_Ok(3,13)[OF a(4)] wf_fields(3)[OF a(1)]
    by (simp add: ownBroadcasts_def)
qed

text \<open>
  Without the anti-MEV extension a node that broadcast a Commit still holds it, and it is the only
  Commit it ever broadcasts at the height.
\<close>

definition soleCommit ::
    "('tx, 'b, 'pb, 'pub, 'priv) config \<Rightarrow> ('tx, 'b, 'pb, 'pub, 'priv) dbft \<Rightarrow> bool" where
  "soleCommit cfg c \<longleftrightarrow>
     (\<forall>m. \<not> isAntiMEVExtensionEnabled cfg c \<longrightarrow> EBroadcast m \<in> set (heightLog (log c)) \<longrightarrow>
        cmType m = CommitType \<longrightarrow> slot (CommitPayloads c) (nat (MyIndex c)) = Some m)"

interpretation sole: height_invariant cfg "soleCommit cfg" for cfg
proof unfold_locales
  fix ts c d
  assume "reset cfg 0 ts c = Inr d" "heightLog (log d) = []"
  then show "soleCommit cfg d" by (simp add: soleCommit_def)
next
  fix c d
  assume a: "wf cfg c" "soleCommit cfg c" "lstep cfg c d"
  obtain es where l: "heightLog (log d) = es @ heightLog (log c)" and e: "\<forall>e \<in> set es. localEffect cfg c e"
    by (rule lstep_log[OF a(3,1)])
  show "soleCommit cfg d"
    unfolding soleCommit_def
  proof (intro allI impI)
    fix m
    assume na: "\<not> isAntiMEVExtensionEnabled cfg d" and m: "EBroadcast m \<in> set (heightLog (log d))"
      "cmType m = CommitType"
    have na': "\<not> isAntiMEVExtensionEnabled cfg c"
      using na lstep_frame(1)[OF a(3)] by (simp add: isAntiMEVExtensionEnabled_def)
    have "slot (CommitPayloads c) (nat (MyIndex c)) = Some m"
    proof (cases "EBroadcast m \<in> set es")
      case True
      then show ?thesis using e m(2) by (auto simp: localEffect_def)
    next
      case False
      then show ?thesis using l m na' a(2) by (auto simp: soleCommit_def)
    qed
    then show "slot (CommitPayloads d) (nat (MyIndex d)) = Some m"
      using lstep_commit_kept[OF a(3) na'] lstep_frame(4)[OF a(3)] by simp
  qed
next
  fix c b ok
  assume "soleCommit cfg c"
  then show "soleCommit cfg (c\<lparr>log := EProcessBlock b ok # log c, blockProcessed := ok\<rparr>)"
    by (simp add: soleCommit_def isAntiMEVExtensionEnabled_def)
next
  fix c view ts d
  assume a: "wf cfg c" "soleCommit cfg c" "ViewNumber c < view" "reset cfg view ts c = Inr d"
  then have "view \<noteq> 0" by auto
  then show "soleCommit cfg d"
    using a reset_view_Ok(1,2,3)[OF a(4)] reset_Ok(3,13)[OF a(4)] wf_fields(3)[OF a(1)]
    by (simp add: soleCommit_def isAntiMEVExtensionEnabled_def)
qed

subsection \<open>The PreBlock comes first\<close>

text \<open>With the anti-MEV extension no block is processed before the PreBlock of the height was.\<close>

definition isPreAccepted :: "('tx, 'b, 'pb) effect \<Rightarrow> bool" where
  "isPreAccepted e \<longleftrightarrow> (case e of EProcessPreBlock pb ok \<Rightarrow> ok | _ \<Rightarrow> False)"

fun preBlockFirst :: "('tx, 'b, 'pb) effect list \<Rightarrow> bool" where
  "preBlockFirst [] = True"
| "preBlockFirst (e # es) =
     (preBlockFirst es
      \<and> (case e of EProcessBlock b ok \<Rightarrow> (\<exists>e' \<in> set es. isPreAccepted e') | _ \<Rightarrow> True))"

definition preBlockOrder ::
    "('tx, 'b, 'pb, 'pub, 'priv) config \<Rightarrow> ('tx, 'b, 'pb, 'pub, 'priv) dbft \<Rightarrow> bool" where
  "preBlockOrder cfg c \<longleftrightarrow>
     (isAntiMEVExtensionEnabled cfg c \<longrightarrow> preBlockFirst (heightLog (log c)))
     \<and> (preBlockProcessed c \<longrightarrow> (\<exists>e \<in> set (heightLog (log c)). isPreAccepted e))"

lemma preBlockFirst_append:
  "(\<And>e. e \<in> set es \<Longrightarrow> \<exists>c. localEffect cfg c e) \<Longrightarrow> preBlockFirst l \<Longrightarrow> preBlockFirst (es @ l)"
proof (induction es)
  case (Cons e es)
  then have "\<exists>c. localEffect cfg c e" by simp
  then show ?case using Cons by (cases e) (auto simp: localEffect_def)
qed simp

lemma isPreAccepted_iff: "isPreAccepted e \<longleftrightarrow> (\<exists>pb. e = EProcessPreBlock pb True)"
  by (cases e) (simp_all add: isPreAccepted_def)

lemma preBlockFirst_split:
  assumes "preBlockFirst (later @ EProcessBlock b ok # earlier)"
  shows "\<exists>pb. EProcessPreBlock pb True \<in> set earlier"
proof -
  have "preBlockFirst (EProcessBlock b ok # earlier)"
    using assms by (induction later) auto
  then show ?thesis by (auto simp: isPreAccepted_iff)
qed

lemma lstep_preBlockProcessed:
  assumes "lstep cfg c d" and "preBlockProcessed d" and "\<not> preBlockProcessed c"
  shows "\<exists>e \<in> set (heightLog (log d)). isPreAccepted e"
  using assms by cases (simp_all add: quiet_def sameCore_def isPreAccepted_def)

interpretation preFirst: height_invariant cfg "preBlockOrder cfg" for cfg
proof unfold_locales
  fix ts c d
  assume "reset cfg 0 ts c = Inr d" "heightLog (log d) = []"
  then show "preBlockOrder cfg d" using reset_height_Ok(6) by (auto simp: preBlockOrder_def)
next
  fix c d
  assume a: "wf cfg c" "preBlockOrder cfg c" "lstep cfg c d"
  obtain es where l: "heightLog (log d) = es @ heightLog (log c)" and e: "\<forall>e \<in> set es. localEffect cfg c e"
    by (rule lstep_log[OF a(3,1)])
  have "preBlockFirst (heightLog (log d))" if "isAntiMEVExtensionEnabled cfg d"
    unfolding l
    using that e a(2) lstep_frame(1)[OF a(3)]
    by (intro preBlockFirst_append[of es cfg]) (auto simp: preBlockOrder_def isAntiMEVExtensionEnabled_def)
  moreover have "\<exists>e \<in> set (heightLog (log d)). isPreAccepted e" if "preBlockProcessed d"
  proof (cases "preBlockProcessed c")
    case True
    then show ?thesis using a(2) l by (auto simp: preBlockOrder_def)
  next
    case False
    then show ?thesis using lstep_preBlockProcessed[OF a(3) that] by blast
  qed
  ultimately show "preBlockOrder cfg d" by (simp add: preBlockOrder_def)
next
  fix c b ok
  assume a: "wf cfg c" "preBlockOrder cfg c" "header c = Some b"
  then have "isAntiMEVExtensionEnabled cfg c \<longrightarrow> preBlockProcessed c" using wf_fields(7)[OF a(1)] by simp
  then show "preBlockOrder cfg (c\<lparr>log := EProcessBlock b ok # log c, blockProcessed := ok\<rparr>)"
    using a(2) by (auto simp: preBlockOrder_def isAntiMEVExtensionEnabled_def)
next
  fix c view ts d
  assume a: "preBlockOrder cfg c" "ViewNumber c < view" "reset cfg view ts c = Inr d"
  then have "view \<noteq> 0" by auto
  then show "preBlockOrder cfg d"
    using a(1) reset_view_Ok(1,6)[OF a(3)] reset_Ok(13)[OF a(3)]
    by (simp add: preBlockOrder_def isAntiMEVExtensionEnabled_def)
qed

subsection \<open>Why the node is in its view\<close>

text \<open>
  A node leaves view 0 only with ChangeView payloads of a quorum that ask for its present view or
  a later one; it keeps them, for recovery messages, in \<open>LastChangeViewPayloads\<close>.
\<close>

definition viewJustified :: "('tx, 'b, 'pb, 'pub, 'priv) dbft \<Rightarrow> bool" where
  "viewJustified c \<longleftrightarrow>
     ViewNumber c = 0 \<or> ctxM c \<le> countChangeViews (ViewNumber c) (LastChangeViewPayloads c)"

lemma resetChangeViews_count:
  assumes "length (ChangeViewPayloads c) = length (Validators c)"
  shows "countChangeViews view (LastChangeViewPayloads (resetChangeViews view c))
           = countChangeViews view (ChangeViewPayloads c)"
proof -
  have "slot (LastChangeViewPayloads (resetChangeViews view c)) i = Some m \<and> view \<le> NewViewNumber m
      \<longleftrightarrow> slot (ChangeViewPayloads c) i = Some m \<and> view \<le> NewViewNumber m" for i m
    using assms slot_in_range[of "ChangeViewPayloads c" i m]
    by (auto simp: resetChangeViews_def slot_map_upt split: option.splits if_splits)
  then show ?thesis by (simp add: countChangeViews_def length_present_card)
qed

lemma reset_view_changeViews:
  assumes "reset cfg view ts c = Inr d" and "view \<noteq> 0"
    and "length (ChangeViewPayloads c) = length (Validators c)"
  shows "countChangeViews view (LastChangeViewPayloads d) = countChangeViews view (ChangeViewPayloads c)"
proof -
  obtain seen where d: "d = (enterView view (resetState cfg view ts c))\<lparr>LastSeenMessage := seen\<rparr>"
    by (rule reset_OkE[OF assms(1)])
  have "LastChangeViewPayloads d = LastChangeViewPayloads (resetChangeViews view (resetBegin ts c))"
    using assms(2) by (simp add: d enterView_def resetState_def reset_parts)
  then show ?thesis using resetChangeViews_count[of "resetBegin ts c"] assms(3) by (simp add: reset_parts)
qed

lemma lstep_lastChangeViews: "lstep cfg c d \<Longrightarrow> LastChangeViewPayloads d = LastChangeViewPayloads c"
  by (erule lstepE) (simp_all add: quiet_def sameCore_def)

interpretation justified: height_invariant cfg viewJustified for cfg
proof unfold_locales
  fix ts c d
  assume "reset cfg 0 ts c = Inr d"
  then show "viewJustified d" using reset_Ok(2) by (auto simp: viewJustified_def)
next
  fix c d
  assume a: "viewJustified c" "lstep cfg c d"
  then show "viewJustified d"
    using lstep_frame[OF a(2)] lstep_quorum[OF a(2)] lstep_lastChangeViews[OF a(2)]
    by (simp add: viewJustified_def)
next
  fix c b ok
  assume "viewJustified c"
  then show "viewJustified (c\<lparr>log := EProcessBlock b ok # log c, blockProcessed := ok\<rparr>)"
    by (simp add: viewJustified_def ctxM_def ctxF_def)
next
  fix c view ts d
  assume a: "wf cfg c" "ViewNumber c < view" "ctxM c \<le> countChangeViews view (ChangeViewPayloads c)"
    "reset cfg view ts c = Inr d"
  then have v: "view \<noteq> 0" by auto
  have "countChangeViews view (LastChangeViewPayloads d) = countChangeViews view (ChangeViewPayloads c)"
    using reset_view_changeViews[OF a(4) v] wf_tables(4)[OF a(1)] by (simp add: ctxN_def)
  then show "viewJustified d"
    using a(3) reset_Ok(2)[OF a(4)] reset_view_Ok(2)[OF a(4) v]
    by (simp add: viewJustified_def ctxM_def ctxF_def)
qed

end
