(* ===== verification/Quorum.thy ===== *)
theory Quorum
  imports Node_Step
begin

section \<open>Quorums and the rotation of primaries\<close>

text \<open>
  The arithmetic behind \<open>N\<close>, \<open>F\<close> and \<open>M\<close> (\<open>context.go\<close>), as a contract of any quorum system with
  at most \<open>f\<close> faulty members, and its instance for the context.
\<close>

subsection \<open>Quorum systems\<close>

definition isQuorum :: "nat \<Rightarrow> nat \<Rightarrow> nat set \<Rightarrow> bool" where
  "isQuorum n m Q \<longleftrightarrow> Q \<subseteq> {..<n} \<and> m \<le> card Q"

locale quorum_system =
  fixes n f m :: nat
  assumes faulty: "0 < n \<Longrightarrow> 3 * f < n" and majority: "m = n - f"
begin

lemma m_le: "m \<le> n"
  by (simp add: majority)

lemma two_f_less: "0 < n \<Longrightarrow> 2 * f < m"
  using faulty majority by linarith

text \<open>Two quorums share more members than can be faulty.\<close>

lemma intersection:
  assumes "0 < n" and "isQuorum n m P" and "isQuorum n m Q"
  shows "f < card (P \<inter> Q)"
proof -
  have fin: "finite P" "finite Q" and u: "P \<union> Q \<subseteq> {..<n}"
    using assms(2,3) finite_subset by (auto simp: isQuorum_def)
  have "card (P \<union> Q) \<le> n" using card_mono[OF _ u] by simp
  moreover have "card P + card Q = card (P \<union> Q) + card (P \<inter> Q)"
    by (rule card_Un_Int[OF fin])
  ultimately show ?thesis
    using assms faulty majority by (auto simp: isQuorum_def)
qed

lemma common_correct:
  assumes "0 < n" and "isQuorum n m P" and "isQuorum n m Q" and "finite B" and "card B \<le> f"
  obtains i where "i \<in> P" and "i \<in> Q" and "i \<notin> B"
proof -
  have "\<not> P \<inter> Q \<subseteq> B"
    using card_mono[OF assms(4), of "P \<inter> Q"] intersection[OF assms(1-3)] assms(5) by fastforce
  then show thesis using that by blast
qed

text \<open>The correct members alone are a quorum.\<close>

lemma correct_quorum:
  assumes "B \<subseteq> {..<n}" and "card B \<le> f"
  shows "isQuorum n m ({..<n} - B)"
proof -
  have "card ({..<n} - B) = n - card B"
    using assms(1) by (simp add: card_Diff_subset finite_subset)
  then show ?thesis using assms by (simp add: isQuorum_def majority)
qed

end

lemma third_less: "0 < (k::nat) \<Longrightarrow> 3 * ((k - 1) div 3) < k"
  by linarith

lemma ctxF_less: "0 < ctxN c \<Longrightarrow> 3 * ctxF c < ctxN c"
  unfolding ctxN_def ctxF_def by (rule third_less)

interpretation ctx: quorum_system "ctxN c" "ctxF c" "ctxM c" for c
  by unfold_locales (erule ctxF_less, simp add: ctxM_def ctxN_def)

text \<open>The slots that hold a payload with a property form a quorum when they are counted to be one.\<close>

lemma counted_quorum:
  assumes "ctxM c \<le> length (filter P (present ms))" and "length ms = ctxN c"
  shows "isQuorum (ctxN c) (ctxM c) {i. \<exists>m. slot ms i = Some m \<and> P m}"
  unfolding isQuorum_def
  using assms by (auto simp: length_present_card dest: slot_in_range)

subsection \<open>Rotation\<close>

lemma primaryOf_less: "0 < n \<Longrightarrow> primaryOf h n v < n"
  by (simp add: primaryOf_def nat_less_iff)

lemma primaryOf_int: "0 < n \<Longrightarrow> int (primaryOf h n v) = (uint h - uint v) mod int n"
  by (simp add: primaryOf_def)

lemma mod_eq_less:
  fixes a b n :: int
  assumes "a mod n = b mod n" and "\<bar>a - b\<bar> < n"
  shows "a = b"
proof -
  have "n dvd a - b" using assms(1) by (simp add: mod_eq_dvd_iff)
  then show ?thesis using assms(2) zdvd_not_zless[of "a - b" n] zdvd_not_zless[of "b - a" n]
    by (metis abs_if diff_gt_0_iff_gt dvd_diff_commute linorder_neqE_linordered_idom neg_less_0_iff_less
        minus_diff_eq)
qed

text \<open>In consecutive views every validator is the primary exactly once, and so it is at
  consecutive heights.\<close>

lemma view_rotation:
  assumes "0 < n" and "n \<le> 256"
  shows "bij_betw (\<lambda>k. primaryOf h n (of_nat k)) {..<n} {..<n}"
proof -
  have u: "uint (of_nat k :: u8) = int k" if "k < n" for k
    using that assms(2) by (simp add: unsigned_of_nat take_bit_nat_eq_self)
  have "inj_on (\<lambda>k. primaryOf h n (of_nat k)) {..<n}"
  proof (rule inj_onI)
    fix i j
    assume "i \<in> {..<n}" "j \<in> {..<n}" "primaryOf h n (of_nat i) = primaryOf h n (of_nat j)"
    then have "(uint h - int i) mod int n = (uint h - int j) mod int n" "i < n" "j < n"
      using primaryOf_int[OF assms(1)] u by (auto simp flip: of_nat_eq_iff[where 'a = int])
    then show "i = j" using mod_eq_less[of "uint h - int i" "int n" "uint h - int j"] by simp
  qed
  then show ?thesis
    unfolding bij_betw_def using primaryOf_less[OF assms(1)]
    by (simp add: card_image card_subset_eq image_subset_iff)
qed

lemma height_rotation:
  assumes "0 < n" and "uint h + int n \<le> 2 ^ 32"
  shows "bij_betw (\<lambda>k. primaryOf (h + of_nat k) n v) {..<n} {..<n}"
proof -
  have u: "uint (h + of_nat k) = uint h + int k" if "k < n" for k
  proof -
    have "int k < 2 ^ 32" using that assms(2) uint_ge_0[of h] by linarith
    then have lt: "k < 2 ^ 32" by simp
    have "uint (h + of_nat k) = (uint h + int k) mod 2 ^ 32"
      using lt by (simp add: uint_word_ariths unsigned_of_nat take_bit_nat_eq_self)
    then show ?thesis using that assms(2) uint_ge_0[of h] by (simp add: mod_pos_pos_trivial)
  qed
  have "inj_on (\<lambda>k. primaryOf (h + of_nat k) n v) {..<n}"
  proof (rule inj_onI)
    fix i j
    assume "i \<in> {..<n}" "j \<in> {..<n}" "primaryOf (h + of_nat i) n v = primaryOf (h + of_nat j) n v"
    then have "(uint h + int i - uint v) mod int n = (uint h + int j - uint v) mod int n" "i < n" "j < n"
      using primaryOf_int[OF assms(1)] u by (auto simp flip: of_nat_eq_iff[where 'a = int])
    then show "i = j"
      using mod_eq_less[of "uint h + int i - uint v" "int n" "uint h + int j - uint v"] by simp
  qed
  then show ?thesis
    unfolding bij_betw_def using primaryOf_less[OF assms(1)]
    by (simp add: card_image card_subset_eq image_subset_iff)
qed

end
