(* ===== verification/Agreement.thy ===== *)
theory Agreement
  imports Node_Safety Quorum
begin

section \<open>Agreement between nodes\<close>

text \<open>
  The nodes of a network at one height, without the anti-MEV extension: the correct ones run the
  code, the members of \<open>B\<close>, at most \<open>F\<close> of them, do anything. A Commit filed under a correct
  sender was broadcast by it (callers of \<open>OnReceive\<close> verify the witness of a payload; see the
  header for what recovery messages do to this). Then all correct nodes that accept a block at the
  height do so in the same view, on the strength of a common Commit of a correct node.
\<close>

definition correctAt ::
    "('tx, 'b, 'pb, 'pub, 'priv) config \<Rightarrow> ('tx, 'b, 'pb, 'pub, 'priv) dbft \<Rightarrow> nat \<Rightarrow> u32 \<Rightarrow> nat \<Rightarrow> bool" where
  "correctAt cfg c n h i \<longleftrightarrow>
     reachable cfg c \<and> ctxN c = n \<and> BlockIndex c = h \<and> MyIndex c = int i
     \<and> \<not> isAntiMEVExtensionEnabled cfg c"

definition commitsFrom ::
    "('tx, 'b, 'pb, 'pub, 'priv) dbft \<Rightarrow> ('tx, 'b, 'pb, 'pub, 'priv) dbft \<Rightarrow> nat \<Rightarrow> bool" where
  "commitsFrom c s i \<longleftrightarrow>
     (case slot (CommitPayloads c) i of
        None \<Rightarrow> True
      | Some m \<Rightarrow> EBroadcast m \<in> set (heightLog (log s)))"

definition correctSet :: "nat \<Rightarrow> nat set \<Rightarrow> nat set" where
  "correctSet n B = {..<n} - B"

lemma accepted_quorum:
  assumes "reachable cfg c" and "blockProcessed c"
  shows "isQuorum (ctxN c) (ctxM c)
           {i. \<exists>m. slot (CommitPayloads c) i = Some m \<and> viewNumber m = ViewNumber c}"
proof -
  have "ctxM c \<le> countView (ViewNumber c) (CommitPayloads c)"
    using accepted.holds[OF assms(1)] assms(2) by (simp add: acceptedOnce_def)
  then show ?thesis
    unfolding countView_def
    using wf_tables(3)[OF reachable_wf[OF assms(1)]] by (rule counted_quorum)
qed

lemma sole_commit:
  assumes "reachable cfg s" and "\<not> isAntiMEVExtensionEnabled cfg s"
    and "EBroadcast m \<in> set (heightLog (log s))" "EBroadcast m' \<in> set (heightLog (log s))"
    and "cmType m = CommitType" "cmType m' = CommitType"
  shows "m = m'"
proof -
  have "soleCommit cfg s" using sole.holds[OF assms(1)] .
  then have "slot (CommitPayloads s) (nat (MyIndex s)) = Some m"
    "slot (CommitPayloads s) (nat (MyIndex s)) = Some m'"
    using assms(2-) unfolding soleCommit_def by blast+
  then show ?thesis by simp
qed

lemma common_commit:
  assumes a: "correctAt (cfg a) (st a) n h a" and b: "correctAt (cfg b) (st b) n h b"
    and acc: "blockProcessed (st a)" "blockProcessed (st b)"
    and correct: "\<And>i. i \<in> correctSet n B \<Longrightarrow> correctAt (cfg i) (st i) n h i"
    and auth: "\<And>i. i \<in> correctSet n B \<Longrightarrow> commitsFrom (st a) (st i) i \<and> commitsFrom (st b) (st i) i"
    and B: "finite B" "card B \<le> ctxF (st a)"
  obtains i m where "i \<in> correctSet n B" and "slot (CommitPayloads (st a)) i = Some m"
    and "slot (CommitPayloads (st b)) i = Some m"
    and "viewNumber m = ViewNumber (st a)" and "viewNumber m = ViewNumber (st b)"
proof -
  let ?Q = "\<lambda>c. {i. \<exists>m. slot (CommitPayloads c) i = Some m \<and> viewNumber m = ViewNumber c}"
  have r: "reachable (cfg a) (st a)" "reachable (cfg b) (st b)"
    and n: "ctxN (st a) = n" "ctxN (st b) = n"
    using a b by (simp_all add: correctAt_def)
  have m: "ctxM (st b) = ctxM (st a)" using n by (simp add: ctxM_def ctxF_def ctxN_def)
  note q = accepted_quorum[OF r(1) acc(1)] accepted_quorum[OF r(2) acc(2), unfolded n m]
  have pos: "0 < ctxN (st a)" using wf_fields(1)[OF reachable_wf[OF r(1)]] .
  obtain i where i: "i \<in> ?Q (st a)" "i \<in> ?Q (st b)" "i \<notin> B"
    using ctx.common_correct[OF pos q(1) q(2)[folded n(1)] B] by blast
  then obtain ma mb where ma: "slot (CommitPayloads (st a)) i = Some ma" "viewNumber ma = ViewNumber (st a)"
    and mb: "slot (CommitPayloads (st b)) i = Some mb" "viewNumber mb = ViewNumber (st b)"
    by blast
  have "i < n" using slot_in_range[OF ma(1)] wf_tables(3)[OF reachable_wf[OF r(1)]] n by simp
  then have ci: "i \<in> correctSet n B" using i(3) by (simp add: correctSet_def)
  note w = stored_commit(1)[OF reachable_wf[OF r(1)] ma(1)] stored_commit(1)[OF reachable_wf[OF r(2)] mb(1)]
  have "EBroadcast ma \<in> set (heightLog (log (st i)))" "EBroadcast mb \<in> set (heightLog (log (st i)))"
    using auth[OF ci] ma(1) mb(1) by (simp_all add: commitsFrom_def)
  then have "ma = mb"
    using sole_commit[of "cfg i" "st i" ma mb] correct[OF ci] w by (simp add: correctAt_def)
  with ci ma mb show thesis by (intro that[of i ma]) simp_all
qed

end
