(* ===== verification/Dbft_Fuel.thy ===== *)
theory Dbft_Fuel
  imports Refinement
begin

section \<open>The nesting bound suffices\<close>

text \<open>
  \<open>OnReceive\<close> calls itself through the replay of cached messages, always after the view grew, and
  through the payloads of a recovery message, none of which is a recovery message. Views have 8
  bits, so \<open>maxNesting\<close> nested calls are never exhausted: no call of the library returns
  \<open>OutOfFuel\<close>, and the bounded recursion is the code's.
\<close>

subsection \<open>Statements without nested calls\<close>

lemma thenDo_no_fuel:
  "thenDo m k = Inl OutOfFuel \<longleftrightarrow> m = Inl OutOfFuel \<or> (\<exists>x. m = Inr x \<and> k x = Inl OutOfFuel)"
  by (rule thenDo_Stop_iff)

lemma forEach_no_fuel:
  assumes "\<And>x t. f x t \<noteq> Inl OutOfFuel"
  shows "forEach f xs s \<noteq> Inl OutOfFuel"
  by (rule forEach_no_stop[where P = "\<lambda>_. True"]) (use assms in simp_all)

lemma emit_no_fuel [no_fuel]: "emit e c \<noteq> Inl OutOfFuel"
  by (simp add: emit_def)

lemma changeTimer_no_fuel [no_fuel]: "changeTimer t c \<noteq> Inl OutOfFuel"
  by (simp add: changeTimer_def no_fuel)

lemma extendTimer_no_fuel [no_fuel]: "extendTimer cfg n c \<noteq> Inl OutOfFuel"
  by (simp add: extendTimer_def no_fuel)

lemma subscribe_no_fuel [no_fuel]:
  "subscribeForTransactions c \<noteq> Inl OutOfFuel" "unsubscribeFromTransactions c \<noteq> Inl OutOfFuel"
  by (simp_all add: subscribeForTransactions_def unsubscribeFromTransactions_def)

lemma broadcast_no_fuel [no_fuel]: "broadcast m c \<noteq> Inl OutOfFuel"
  by (simp add: broadcast_def no_fuel)

lemma reset_no_fuel [no_fuel]: "reset cfg view ts c \<noteq> Inl OutOfFuel"
  by (simp add: reset_def Let_def noteOwn_def)

lemma Fill_no_fuel [no_fuel]: "Fill cfg force c \<noteq> Inl OutOfFuel"
  by (simp add: Fill_def Let_def thenDo_no_fuel getTimestamp_def)

lemma makePrepareRequest_no_fuel [no_fuel]: "makePrepareRequest cfg force c \<noteq> Inl OutOfFuel"
  by (auto simp: makePrepareRequest_def thenDo_no_fuel no_fuel)

lemma makePrepareResponse_no_fuel [no_fuel]: "makePrepareResponse cfg c \<noteq> Inl OutOfFuel"
  by (simp add: makePrepareResponse_def Let_def split: option.split)

lemma makePreCommit_no_fuel [no_fuel]: "makePreCommit cfg c \<noteq> Inl OutOfFuel"
  by (auto simp: makePreCommit_def Let_def thenDo_no_fuel NewPreCommit_def uint32BE_no_fuel
      split: option.splits prod.splits)

lemma sendPreCommit_no_fuel [no_fuel]: "sendPreCommit cfg c \<noteq> Inl OutOfFuel"
  by (auto simp: sendPreCommit_def thenDo_no_fuel no_fuel split: option.splits)

lemma sendCommit_no_fuel [no_fuel]: "sendCommit cfg c \<noteq> Inl OutOfFuel"
  by (auto simp: sendCommit_def no_fuel split: option.splits prod.splits)

lemma sendPrepareResponse_no_fuel [no_fuel]: "sendPrepareResponse cfg c \<noteq> Inl OutOfFuel"
  by (auto simp: sendPrepareResponse_def thenDo_no_fuel no_fuel)

lemma verifyPreCommitAt_no_fuel: "verifyPreCommitAt cfg i c \<noteq> Inl OutOfFuel"
  by (simp add: verifyPreCommitAt_def split: option.split prod.split)

lemma verifyCommitAt_no_fuel: "verifyCommitAt cfg i c \<noteq> Inl OutOfFuel"
  by (simp add: verifyCommitAt_def split: option.split prod.split)

lemma verify_no_fuel [no_fuel]:
  "verifyPreCommitPayloadsAgainstPreBlock cfg c \<noteq> Inl OutOfFuel"
  "verifyCommitPayloadsAgainstHeader cfg c \<noteq> Inl OutOfFuel"
  by (simp_all add: verifyPreCommitPayloadsAgainstPreBlock_def verifyCommitPayloadsAgainstHeader_def
      forEach_no_fuel verifyPreCommitAt_no_fuel verifyCommitAt_no_fuel)

lemma checkCommit_no_fuel [no_fuel]: "checkCommit cfg c \<noteq> Inl OutOfFuel"
  by (auto simp: checkCommit_def Let_def thenDo_no_fuel no_fuel split: option.splits prod.splits)

lemma processPreBlock_no_fuel [no_fuel]: "processPreBlock cfg pb c \<noteq> Inl OutOfFuel"
  by (simp add: processPreBlock_def Let_def split: option.split)

lemma checkPreCommit_no_fuel [no_fuel]: "checkPreCommit cfg c \<noteq> Inl OutOfFuel"
  by (auto simp: checkPreCommit_def thenDo_no_fuel no_fuel split: prod.splits)

lemma checkPrepare_no_fuel [no_fuel]: "checkPrepare cfg c \<noteq> Inl OutOfFuel"
  by (auto simp: checkPrepare_def Let_def thenDo_no_fuel no_fuel)

lemma proposeRequest_no_fuel [no_fuel]: "proposeRequest cfg m c \<noteq> Inl OutOfFuel"
  by (auto simp: proposeRequest_def thenDo_no_fuel no_fuel)

lemma sendPrepareRequest_no_fuel [no_fuel]: "sendPrepareRequest cfg force c \<noteq> Inl OutOfFuel"
  by (auto simp: sendPrepareRequest_def thenDo_no_fuel no_fuel split: option.splits)

lemma processMissingTx_no_fuel [no_fuel]: "processMissingTx cfg c \<noteq> Inl OutOfFuel"
proof -
  have "lookupProposed cfg h c \<noteq> Inl OutOfFuel" for h c
    by (simp add: lookupProposed_def split: option.split)
  then show ?thesis
    by (auto simp: processMissingTx_def thenDo_no_fuel forEach_no_fuel no_fuel split: if_splits)
qed

lemma sendRecoveryRequest_no_fuel [no_fuel]: "sendRecoveryRequest cfg c \<noteq> Inl OutOfFuel"
  by (auto simp: sendRecoveryRequest_def thenDo_no_fuel no_fuel split: if_splits)

lemma sendRecoveryMessage_no_fuel [no_fuel]: "sendRecoveryMessage cfg c \<noteq> Inl OutOfFuel"
  by (auto simp: sendRecoveryMessage_def makeRecoveryMessage_def thenDo_no_fuel AddPayloads_no_fuel no_fuel)

lemma agreeChangeView_no_fuel [no_fuel]: "agreeChangeView cfg view c \<noteq> Inl OutOfFuel"
  by (auto simp: agreeChangeView_def no_fuel split: option.splits prod.splits)

lemma requestChangeView_no_fuel [no_fuel]: "requestChangeView cfg r c \<noteq> Inl OutOfFuel"
  by (auto simp: requestChangeView_def thenDo_no_fuel no_fuel split: prod.splits)

lemma acceptProposal_no_fuel [no_fuel]: "acceptProposal p c \<noteq> Inl OutOfFuel"
  by (simp add: acceptProposal_def)

lemma updateExistingPayloads_no_fuel [no_fuel]: "updateExistingPayloads cfg m c \<noteq> Inl OutOfFuel"
proof -
  have "dropOtherResponse cfg m i c \<noteq> Inl OutOfFuel" for i c
    by (simp add: dropOtherResponse_def split: option.split)
  then show ?thesis
    by (auto simp: updateExistingPayloads_def thenDo_no_fuel forEach_no_fuel no_fuel split: if_splits)
qed

lemma acceptPrepareResponse_no_fuel [no_fuel]: "acceptPrepareResponse cfg c \<noteq> Inl OutOfFuel"
  by (auto simp: acceptPrepareResponse_def thenDo_no_fuel no_fuel split: if_splits)

lemma onPrepareResponse_no_fuel [no_fuel]: "onPrepareResponse cfg m c \<noteq> Inl OutOfFuel"
  by (auto simp: onPrepareResponse_def Let_def no_fuel split: option.splits)

lemma onRecoveryRequest_no_fuel [no_fuel]: "onRecoveryRequest cfg m c \<noteq> Inl OutOfFuel"
  by (simp add: onRecoveryRequest_def no_fuel)

lemma onPreCommit_no_fuel [no_fuel]: "onPreCommit cfg m c \<noteq> Inl OutOfFuel"
  by (auto simp: onPreCommit_def Let_def thenDo_no_fuel no_fuel split: option.splits prod.splits if_splits)

lemma onCommit_no_fuel [no_fuel]: "onCommit cfg m c \<noteq> Inl OutOfFuel"
  by (auto simp: onCommit_def Let_def thenDo_no_fuel no_fuel split: option.splits prod.splits if_splits)

subsection \<open>Nested calls\<close>

definition viewsLeft :: "('tx, 'b, 'pb, 'pub, 'priv) dbft \<Rightarrow> nat" where
  "viewsLeft c = 256 - unat (ViewNumber c)"

definition need :: "payload \<Rightarrow> ('tx, 'b, 'pb, 'pub, 'priv) dbft \<Rightarrow> nat" where
  "need m c = viewsLeft c + (if cmType m = RecoveryMessageType then 1 else 0)"

lemma viewsLeft_less: "ViewNumber c < ViewNumber d \<Longrightarrow> viewsLeft d < viewsLeft c"
  using unsigned_less[of "ViewNumber d", where 'a = nat] by (simp add: viewsLeft_def word_less_nat_alt)

lemma viewsLeft_may: "may cfg c d \<Longrightarrow> viewsLeft d \<le> viewsLeft c"
  using nsteps_frame(3)[of cfg c d] by (auto simp: may_def viewsLeft_def word_le_nat_alt)

lemma viewsLeft_lsteps: "lsteps cfg c d \<Longrightarrow> viewsLeft d = viewsLeft c"
  using lsteps_frame(2)[of cfg c d] by (simp add: viewsLeft_def)

lemma mapOrder_set: "set (mapOrder cfg c kvs) = set (map snd kvs)"
  using mset_eq_setD[of "MapIter cfg (log c) (map snd kvs)" "map snd kvs"]
  by (simp add: mapOrder_def Let_def)

text \<open>The receiver's interface with its demand for nesting depth.\<close>

locale fuelled = receiver cfg rcv
  for cfg :: "('tx, 'b, 'pb, 'pub, 'priv) config"
    and rcv :: "payload \<Rightarrow> ('tx, 'b, 'pb, 'pub, 'priv) dbft act" +
  fixes n :: nat
  assumes rcv_fuel: "wf cfg c \<Longrightarrow> need m c \<le> n \<Longrightarrow> rcv m c \<noteq> Inl OutOfFuel"
begin

lemma rcv_plain_fuel:
  "wf cfg c \<Longrightarrow> viewsLeft c \<le> n \<Longrightarrow> cmType m \<noteq> RecoveryMessageType \<Longrightarrow> rcv m c \<noteq> Inl OutOfFuel"
  by (rule rcv_fuel) (simp_all add: need_def)

lemma forEach_fuel:
  assumes "\<And>m. m \<in> set ms \<Longrightarrow> cmType m \<noteq> RecoveryMessageType" and "wf cfg c" and "viewsLeft c \<le> n"
  shows "forEach rcv ms c \<noteq> Inl OutOfFuel"
proof (rule forEach_no_stop[where P = "\<lambda>t. wf cfg t \<and> viewsLeft t \<le> n"])
  fix m t u
  assume "wf cfg t \<and> viewsLeft t \<le> n" and "rcv m t = Inr u"
  then show "wf cfg u \<and> viewsLeft u \<le> n"
    using rcv_may[of t m u] may_wf[of cfg t u] viewsLeft_may[of cfg t u] by auto
qed (use assms rcv_plain_fuel in auto)

lemma replayBox_fuel:
  assumes "inbox_ok h b" and "wf cfg c" and "viewsLeft c \<le> n"
  shows "replayBox cfg rcv (box k b) c \<noteq> Inl OutOfFuel"
  unfolding replayBox_def
proof (rule forEach_fuel)
  fix m
  assume "m \<in> set (mapOrder cfg c (box k b))"
  then have "classOf (cmType m) = Some k" using inbox_ok_mem[OF assms(1)] by (simp add: mapOrder_set)
  then show "cmType m \<noteq> RecoveryMessageType" by auto
qed (use assms in simp_all)

lemma replayCached_fuel:
  assumes "wf cfg c" and "viewsLeft c \<le> n"
  shows "replayCached cfg rcv c \<noteq> Inl OutOfFuel"
proof
  assume out: "replayCached cfg rcv c = Inl OutOfFuel"
  obtain mb ca where g: "getHeight (BlockIndex c) (dcache c) = (mb, ca)" by fastforce
  then obtain b where b: "mb = Some b" using out by (cases mb) (simp_all add: replayCached_def)
  note ok = cache_ok_getHeight(2)[OF wf_fields(11)[OF assms(1)] g b]
  let ?c1 = "c\<lparr>dcache := ca\<rparr>"
  have s: "lsteps cfg c ?c1"
    using cache_ok_getHeight(1)[OF _ g] by (intro silent_lsteps) (simp_all add: sameCore_def)
  have c1: "wf cfg ?c1" "viewsLeft ?c1 \<le> n"
    using lsteps_wf[OF s assms(1)] assms(2) viewsLeft_lsteps[OF s] by simp_all
  have "steps [replayBox cfg rcv (inPrepare b), replayBox cfg rcv (inChViews b),
              replayBox cfg rcv (inPreCommit b), replayBox cfg rcv (inCommit b)] ?c1 \<noteq> Inl OutOfFuel"
  proof (rule steps_no_stop[where P = "\<lambda>t. wf cfg t \<and> viewsLeft t \<le> n"])
    fix f t
    assume "f \<in> set [replayBox cfg rcv (inPrepare b), replayBox cfg rcv (inChViews b),
              replayBox cfg rcv (inPreCommit b), replayBox cfg rcv (inCommit b)]"
    then obtain k where f: "f = replayBox cfg rcv (box k b)"
      using that[of PrepareClass] that[of ChViewClass] that[of PreCommitClass] that[of CommitClass]
      by auto
    show "wf cfg t \<and> viewsLeft t \<le> n \<Longrightarrow> f t \<noteq> Inl OutOfFuel"
      using replayBox_fuel[OF ok] f by simp
    show "wf cfg t \<and> viewsLeft t \<le> n \<Longrightarrow> f t = Inr u \<Longrightarrow> wf cfg u \<and> viewsLeft u \<le> n" for u
      using replayBox_may[of t "box k b" u] may_wf[of cfg t u] viewsLeft_may[of cfg t u] f by auto
  qed (use c1 in simp)
  then show False using out g b by (simp add: replayCached_def)
qed

lemma initializeConsensus_fuel:
  assumes "\<And>c1. reset cfg view ts c = Inr c1 \<Longrightarrow> wf cfg c1 \<and> viewsLeft c1 \<le> n"
  shows "initializeConsensus cfg rcv view ts c \<noteq> Inl OutOfFuel"
proof
  assume "initializeConsensus cfg rcv view ts c = Inl OutOfFuel"
  then obtain c1 c2 where r: "reset cfg view ts c = Inr c1" and e: "emit EStopTxFlow c1 = Inr c2"
    and out: "replayCached cfg rcv c2 = Inl OutOfFuel"
    by (auto simp: initializeConsensus_def thenDo_no_fuel no_fuel split: if_splits)
  note s = stopTxFlow_lsteps[OF e, of cfg]
  show False
    using out replayCached_fuel[of c2] assms[OF r] lsteps_wf[OF s] viewsLeft_lsteps[OF s] by simp
qed

text \<open>A view change leaves strictly fewer views.\<close>

lemma checkChangeView_fuel:
  assumes "wf cfg c" and "\<not> blockProcessed c" and "viewsLeft c \<le> Suc n"
  shows "checkChangeView cfg rcv view c \<noteq> Inl OutOfFuel"
proof
  assume "checkChangeView cfg rcv view c = Inl OutOfFuel"
  then obtain c1 where v: "ViewNumber c < view" and a: "agreeChangeView cfg view c = Inr c1"
    and out: "initializeConsensus cfg rcv view (lastBlockTimestamp c1) c1 = Inl OutOfFuel"
    by (auto simp: checkChangeView_def thenDo_no_fuel no_fuel split: if_splits)
  note s = agreeChangeView_ok(1)[OF a assms(1,2)]
  have "wf cfg c2 \<and> viewsLeft c2 \<le> n" if r: "reset cfg view (lastBlockTimestamp c1) c1 = Inr c2" for c2
  proof -
    have "view \<noteq> 0" using v by auto
    then show ?thesis
      using reset_view_wf[OF r _ lsteps_wf[OF s assms(1)]] v viewsLeft_less[of c c2] reset_Ok(2)[OF r] assms(3)
      by simp
  qed
  then show False using out initializeConsensus_fuel by blast
qed

lemma sendChangeView_fuel:
  assumes "wf cfg c" and "\<not> blockProcessed c" and "viewsLeft c \<le> Suc n"
  shows "sendChangeView cfg rcv reason c \<noteq> Inl OutOfFuel"
proof
  assume "sendChangeView cfg rcv reason c = Inl OutOfFuel"
  then obtain c1 c2 r where w: "\<not> WatchOnly cfg c"
    and t: "changeTimer (shl64 (timePerBlock c) (unat (ViewNumber c + 1 + 1))) c = Inr c1"
    and rq: "requestChangeView cfg r c1 = Inr c2"
    and out: "checkChangeView cfg rcv (ViewNumber c + 1) c2 = Inl OutOfFuel"
    unfolding sendChangeView_def Let_def
    by (auto simp: thenDo_no_fuel no_fuel split: if_splits)
  note s1 = changeTimer_lsteps[OF t, of cfg]
  have nb: "\<not> blockProcessed c1" using lsteps_frame(6)[OF s1] assms(2) by simp
  have "speaks cfg c1" using speaks_active[OF assms(1) w] lsteps_speaks[OF s1] by simp
  then have "lsteps cfg c1 c2" by (rule requestChangeView_lsteps[OF rq lsteps_wf[OF s1 assms(1)] nb])
  note s2 = rtranclp_trans[OF s1 this]
  show False
    using out checkChangeView_fuel[of c2] lsteps_wf[OF s2 assms(1)] lsteps_frame(6)[OF s2]
      viewsLeft_lsteps[OF s2] assms by simp
qed

lemma createAndCheckBlock_fuel:
  assumes "wf cfg c" and "\<not> blockProcessed c" and "viewsLeft c \<le> Suc n"
  shows "createAndCheckBlock cfg rcv c \<noteq> Inl OutOfFuel"
proof -
  have "sendChangeView cfg rcv CVTxInvalid c1 \<noteq> Inl OutOfFuel" if "lsteps cfg c c1" for c1
    using sendChangeView_fuel lsteps_wf[OF that assms(1)] lsteps_frame(6)[OF that]
      viewsLeft_lsteps[OF that] assms by simp
  then show ?thesis
    using CreatePreBlock_lsteps(1)[OF _ assms(1)] CreateBlock_lsteps(1)[OF _ assms(1,2)]
    by (auto simp: createAndCheckBlock_def Let_def thenDo_no_fuel split: if_splits prod.splits)
qed

lemma addTransaction_fuel:
  assumes "wf cfg c" and "\<not> blockProcessed c" and "viewsLeft c \<le> Suc n"
  shows "addTransaction cfg rcv tx c \<noteq> Inl OutOfFuel"
proof -
  let ?c1 = "c\<lparr>Transactions := AList.update (txHash cfg tx) tx (Transactions c)\<rparr>"
  have s: "lsteps cfg c ?c1" by (rule silent_lsteps) (simp_all add: sameCore_def)
  have "createAndCheckBlock cfg rcv ?c1 \<noteq> Inl OutOfFuel"
    using lsteps_wf[OF s assms(1)] lsteps_frame(6)[OF s] viewsLeft_lsteps[OF s] assms(2,3)
    by (intro createAndCheckBlock_fuel) simp_all
  then show ?thesis
    by (auto simp: addTransaction_def Let_def thenDo_no_fuel no_fuel split: if_splits)
qed

lemma onPrepareRequest_fuel:
  assumes "wf cfg c" and "\<not> blockProcessed c" and "viewsLeft c \<le> Suc n"
    and "cmType m = PrepareRequestType" and "height m = BlockIndex c"
  shows "onPrepareRequest cfg rcv m c \<noteq> Inl OutOfFuel"
proof
  assume out: "onPrepareRequest cfg rcv m c = Inl OutOfFuel"
  have "sendChangeView cfg rcv CVBlockRejectedByPolicy c \<noteq> Inl OutOfFuel"
    by (rule sendChangeView_fuel[OF assms(1-3)])
  then obtain c1 p c5 where 1: "extendTimer cfg 2 c = Inr c1"
    and 2: "steps [acceptProposal p, processMissingTx cfg, updateExistingPayloads cfg m,
               (\<lambda>c. Ok (c\<lparr>PreparationPayloads :=
                         (PreparationPayloads c)[unat (validatorIndex m) := Some m]\<rparr>))] c1 = Inr c5"
    and 3: "\<not> RequestSentOrReceived c" "ViewNumber c = viewNumber m"
      "unat (validatorIndex m) = GetPrimaryIndex c (ViewNumber c)"
    and cb: "createAndCheckBlock cfg rcv c5 = Inl OutOfFuel"
    using out
    by (auto simp: onPrepareRequest_def thenDo_no_fuel no_fuel split: if_splits option.splits)
  note s = proposal_lsteps[OF 1 2 assms(1,4,5) 3]
  show False
    using cb createAndCheckBlock_fuel[of c5] lsteps_wf[OF s assms(1)] lsteps_frame(6)[OF s]
      viewsLeft_lsteps[OF s] assms by simp
qed

lemma onChangeView_fuel:
  assumes "wf cfg c" and "\<not> blockProcessed c" and "viewsLeft c \<le> Suc n"
    and "cmType m = ChangeViewType" and "height m = BlockIndex c" and "unat (validatorIndex m) < ctxN c"
  shows "onChangeView cfg rcv m c \<noteq> Inl OutOfFuel"
proof -
  let ?c1 = "c\<lparr>ChangeViewPayloads := (ChangeViewPayloads c)[unat (validatorIndex m) := Some m]\<rparr>"
  have s: "lsteps cfg c ?c1" using assms by (intro lstep_lsteps lchangeview) simp_all
  have "checkChangeView cfg rcv v ?c1 \<noteq> Inl OutOfFuel" for v
    using lsteps_wf[OF s assms(1)] lsteps_frame(6)[OF s] viewsLeft_lsteps[OF s] assms(2,3)
    by (intro checkChangeView_fuel) simp_all
  then show ?thesis
    by (auto simp: onChangeView_def no_fuel split: option.splits)
qed

text \<open>A recovery message hands on payloads that are no recovery messages.\<close>

lemma recoverPreparations_fuel:
  assumes "wf cfg c" and "viewsLeft c \<le> n"
  shows "recoverPreparations rcv r m c \<noteq> Inl OutOfFuel"
proof
  assume out: "recoverPreparations rcv r m c = Inl OutOfFuel"
  have req: "rcv q c \<noteq> Inl OutOfFuel"
    if "rm_GetPrepareRequest r m (of_nat (PrimaryIndex c)) = Some q" for q
    using rm_GetPrepareRequest_Some[OF that] by (intro rcv_plain_fuel assms) simp
  have resp: "forEach rcv (rm_GetPrepareResponses r m) t \<noteq> Inl OutOfFuel"
    if "may cfg c t" for t
    using may_wf[OF that assms(1)] viewsLeft_may[OF that] assms(2)
    by (intro forEach_fuel) (auto dest: rm_GetPrepareResponses_mem)
  have "may cfg c t" if "rcv q c = Inr t" for q t by (rule rcv_may[OF assms(1) that])
  then show False
    using out req resp by (auto simp: recoverPreparations_def thenDo_no_fuel split: if_splits option.splits)
qed

lemma recoverCommits_fuel:
  assumes "wf cfg c" and "viewsLeft c \<le> n"
  shows "recoverCommits rcv r m c \<noteq> Inl OutOfFuel"
proof
  assume out: "recoverCommits rcv r m c = Inl OutOfFuel"
  have 1: "forEach rcv pcs c \<noteq> Inl OutOfFuel" if "rm_GetPreCommits r m = Inr pcs" for pcs
    by (rule forEach_fuel[OF _ assms]) (use rm_GetPreCommits_mem[OF that] in auto)
  have 2: "forEach rcv (rm_GetCommits r m) t \<noteq> Inl OutOfFuel" if "may cfg c t" for t
    using may_wf[OF that assms(1)] viewsLeft_may[OF that] assms(2)
    by (intro forEach_fuel) (auto dest: rm_GetCommits_mem)
  show False
    using out 1 2 forEach_may[OF assms(1)] mapPreCommits_no_fuel
    by (auto simp: recoverCommits_def thenDo_no_fuel rm_GetPreCommits_def)
qed

lemma recoverAll_fuel:
  assumes "wf cfg c" and "viewsLeft c \<le> n"
  shows "recoverAll cfg rcv r m c \<noteq> Inl OutOfFuel"
proof
  assume out: "recoverAll cfg rcv r m c = Inl OutOfFuel"
  have changeViews: "forEach rcv (rm_GetChangeViews r m) t \<noteq> Inl OutOfFuel"
    if "wf cfg t" "viewsLeft t \<le> n" for t
    by (rule forEach_fuel[OF _ that]) (auto dest: rm_GetChangeViews_mem)
  have not_early: "\<not> (viewNumber m > ViewNumber c \<and> (CommitSent cfg c \<or> PreCommitSent cfg c))"
    using out by (auto simp: recoverAll_def)
  have "steps [(\<lambda>c. if viewNumber m > ViewNumber c then forEach rcv (rm_GetChangeViews r m) c else Ok c),
      (\<lambda>c. if viewNumber m = ViewNumber c
              \<and> (\<not> ViewChanging cfg c \<or> MoreThanFNodesCommittedOrLost c)
              \<and> \<not> CommitSent cfg c
              \<and> (\<not> isAntiMEVExtensionEnabled cfg c \<or> \<not> PreCommitSent cfg c)
           then recoverPreparations rcv r m c else Ok c),
      (\<lambda>c. if viewNumber m \<le> ViewNumber c then recoverCommits rcv r m c else Ok c)] c
      \<noteq> Inl OutOfFuel"
  proof (rule steps_no_stop[where P = "\<lambda>t. wf cfg t \<and> viewsLeft t \<le> n"], goal_cases)
    case (1 f t)
    then show ?case
      using changeViews recoverPreparations_fuel recoverCommits_fuel by (auto split: if_splits)
  next
    case (2 f t u)
    then have "may cfg t u"
      using forEach_may recoverPreparations_may recoverCommits_may by (auto split: if_splits)
    then show ?case using 2(2) may_wf[of cfg t u] viewsLeft_may[of cfg t u] by auto
  qed (use assms in simp)
  then show False using out not_early unfolding recoverAll_def by (simp only: if_False)
qed

lemma onRecoveryMessage_fuel:
  assumes "wf cfg c" and "viewsLeft c \<le> n"
  shows "onRecoveryMessage cfg rcv m c \<noteq> Inl OutOfFuel"
proof -
  have "lsteps cfg c (c\<lparr>recovering := True\<rparr>)" by (rule silent_lsteps) (simp_all add: sameCore_def)
  then have "recoverAll cfg rcv r m (c\<lparr>recovering := True\<rparr>) \<noteq> Inl OutOfFuel" for r
    using lsteps_wf viewsLeft_lsteps assms by (intro recoverAll_fuel) fastforce+
  then show ?thesis by (auto simp: onRecoveryMessage_def thenDo_no_fuel split: option.splits)
qed

lemma receive_fuel:
  assumes "wf cfg c" and "need m c \<le> Suc n"
  shows "receive cfg rcv m c \<noteq> Inl OutOfFuel"
proof
  assume out: "receive cfg rcv m c = Inl OutOfFuel"
  let ?c1 = "noteSeen m c"
  have s: "lsteps cfg c ?c1"
    unfolding noteSeen_def by (auto intro!: silent_lsteps simp: sameCore_def)
  have d: "dispatch cfg rcv m ?c1 = Inl OutOfFuel"
    and h: "height m = BlockIndex c" "unat (validatorIndex m) < ctxN c"
    and b: "BlockSent ?c1 \<longrightarrow> cmType m = RecoveryRequestType"
    using out unfolding receive_def Let_def by (auto simp: ctxN_def split: if_split_asm)
  have h1: "height m = BlockIndex ?c1" "unat (validatorIndex m) < ctxN ?c1"
    using h lsteps_frame(1,3)[OF s] by (simp_all add: ctxN_def)
  have v: "viewsLeft ?c1 \<le> Suc n" "cmType m = RecoveryMessageType \<Longrightarrow> viewsLeft ?c1 \<le> n"
    using assms(2) viewsLeft_lsteps[OF s] by (auto simp: need_def split: if_splits)
  note w1 = lsteps_wf[OF s assms(1)]
  show False
  proof (cases "cmType m")
    case ChangeViewType
    then show False using d b onChangeView_fuel[OF w1 _ v(1) _ h1] by (simp add: dispatch_def BlockSent_def)
  next
    case PrepareRequestType
    then show False using d b onPrepareRequest_fuel[OF w1 _ v(1) _ h1(1)] by (simp add: dispatch_def BlockSent_def)
  next
    case RecoveryMessageType
    then show False using d onRecoveryMessage_fuel[OF w1 v(2)] by (simp add: dispatch_def)
  qed (use d in \<open>auto simp: dispatch_def no_fuel split: if_splits\<close>)
qed

lemma onTimeout_fuel:
  assumes "wf cfg c" and "viewsLeft c \<le> Suc n"
  shows "onTimeout cfg rcv h v force c \<noteq> Inl OutOfFuel"
  using sendChangeView_fuel[OF assms(1) _ assms(2), of CVTimeout]
  by (auto simp: onTimeout_def BlockSent_def thenDo_no_fuel no_fuel)

lemma onTransaction_fuel:
  assumes "wf cfg c" and "viewsLeft c \<le> Suc n"
  shows "onTransaction cfg rcv tx c \<noteq> Inl OutOfFuel"
  using addTransaction_fuel[OF assms(1) _ assms(2), of tx]
  by (auto simp: onTransaction_def BlockSent_def thenDo_no_fuel sliceDelete_def split: option.splits if_splits)

end

subsection \<open>The bound\<close>

lemma OnReceiveN_fuel: "wf cfg c \<Longrightarrow> need m c \<le> n \<Longrightarrow> OnReceiveN cfg n m c \<noteq> Inl OutOfFuel"
proof (induction n arbitrary: m c)
  case 0
  have "0 < viewsLeft c" using unsigned_less[of "ViewNumber c", where 'a = nat] by (simp add: viewsLeft_def)
  then show ?case using 0 by (simp add: need_def)
next
  case (Suc n)
  have "fuelled cfg (OnReceiveN cfg n) n"
    by unfold_locales (auto intro: OnReceiveN_may dest: Suc.IH)
  then show ?case using Suc.prems fuelled.receive_fuel by fastforce
qed

interpretation bounded: fuelled cfg "OnReceive cfg" 257 for cfg
proof unfold_locales
  fix c m
  assume "wf cfg c" "need m c \<le> 257"
  then show "OnReceive cfg m c \<noteq> Inl OutOfFuel"
    unfolding OnReceive_def by (intro OnReceiveN_fuel) (simp_all add: maxNesting_def)
qed

lemma viewsLeft_le: "viewsLeft c \<le> 256"
  by (simp add: viewsLeft_def)

text \<open>No call of the interface runs out of nesting depth.\<close>

lemma initialize_height_fuel:
  assumes "cache_ok (dcache c)"
  shows "initializeConsensus cfg (OnReceive cfg) 0 ts c \<noteq> Inl OutOfFuel"
proof (rule bounded.initializeConsensus_fuel)
  fix c1
  assume "reset cfg 0 ts c = Inr c1"
  then show "wf cfg c1 \<and> viewsLeft c1 \<le> 257"
    using reset_height_wf[OF _ assms] viewsLeft_le[of c1] by simp
qed

lemma exec_fuel:
  assumes "wf cfg c"
  shows "exec cfg a c \<noteq> Inl OutOfFuel"
proof -
  let ?c1 = "c\<lparr>log := ECall a # log c\<rparr>"
  have w: "wf cfg ?c1"
    using assms by (intro wf_keep[OF assms])
      (simp_all add: wf_fields[OF assms] tables_ok_upd RequestSentOrReceived_upd)
  have le: "viewsLeft t \<le> Suc 257" "need m t \<le> 257" for t :: "('tx, 'b, 'pb, 'pub, 'priv) dbft" and m
    using viewsLeft_le[of t] by (simp_all add: need_def)
  have "runCall cfg a ?c1 \<noteq> Inl OutOfFuel"
  proof (cases a)
    case (CallStart ts)
    have "initializeConsensus cfg (OnReceive cfg) 0 ts (?c1\<lparr>dcache := newCache\<rparr>) \<noteq> Inl OutOfFuel"
      by (rule initialize_height_fuel) (simp add: cache_ok_new)
    then show ?thesis using CallStart by (auto simp: start_def thenDo_no_fuel no_fuel split: if_splits)
  next
    case (CallReset ts)
    have "initializeConsensus cfg (OnReceive cfg) 0 ts ?c1 \<noteq> Inl OutOfFuel"
      by (rule initialize_height_fuel) (simp add: wf_fields(11)[OF assms])
    then show ?thesis using CallReset by (simp add: resetNode_def)
  next
    case (CallTransaction tx)
    then show ?thesis using bounded.onTransaction_fuel[OF w le(1)] by simp
  next
    case (CallTimeout h v)
    then show ?thesis using bounded.onTimeout_fuel[OF w le(1)] by simp
  next
    case CallNewTransaction
    then show ?thesis using bounded.onTimeout_fuel[OF w le(1)] by (simp add: onNewTransaction_def)
  next
    case (CallReceive m)
    then show ?thesis using bounded.rcv_fuel[OF w le(2)] by simp
  qed
  then show ?thesis by (simp add: exec_def emit_def)
qed

end
