(* ===== verification/Sample_Node.thy ===== *)
theory Sample_Node
  imports Dbft_Core
begin

section \<open>A concrete node\<close>

text \<open>
  A small instance of the callbacks, on which the witnesses run the model: four validators with
  the keys 10 to 13, a clock that stands still, transactions identified by their number, and
  blocks that are a nonce, a transaction count and a signature. The signature of validator \<open>i\<close>
  starts with the byte \<open>10 + i\<close>.
\<close>

type_synonym sblock = "u64 \<times> nat \<times> byte list"
type_synonym sdbft = "(nat, sblock, u32, nat, nat) dbft"
type_synonym sconfig = "(nat, sblock, u32, nat, nat) config"

definition sampleHash :: "payload \<Rightarrow> Uint256" where
  "sampleHash p =
     ucast (typeByte (cmType p)) + 256 * ucast (viewNumber p) + 65536 * ucast (validatorIndex p)
     + 4294967296 * ucast (height p)"

definition sampleConfig :: "int \<Rightarrow> int \<Rightarrow> u32 \<Rightarrow> sconfig" where
  "sampleConfig me amev h =
     \<lparr>cfgTimePerBlock = (\<lambda>_. 15000000000), cfgMaxTimePerBlock = None,
      TimestampIncrement = 1000000, AntiMEVExtensionEnablingHeight = amev,
      GetKeyPair = (\<lambda>_. (me, Some (nat (10 + me)), Some (nat (10 + me)))),
      NewPreBlockFromContext = (\<lambda>c. Some (BlockIndex c)),
      NewBlockFromContext = (\<lambda>c. Some (Nonce c, 0, [])),
      GetTx = (\<lambda>_ h. None), GetVerified = (\<lambda>_. []),
      VerifyPreBlock = (\<lambda>_ _. True), VerifyBlock = (\<lambda>_ _. True),
      ProcessPreBlock = (\<lambda>_ _. True), ProcessBlock = (\<lambda>_ _. True),
      cfgWatchOnly = False,
      CurrentHeight = (\<lambda>_. h), CurrentBlockHash = (\<lambda>_. 7), GetValidators = (\<lambda>_. [10, 11, 12, 13]),
      VerifyPrepareRequest = (\<lambda>_ _. True), VerifyPrepareResponse = (\<lambda>_ _. True),
      VerifyPreCommit = (\<lambda>_ _. True), VerifyCommit = (\<lambda>_ _. True),
      TimerNow = (\<lambda>_. 1700000000000000000), ClockNow = (\<lambda>_. 1700000000000000000),
      Rand = (\<lambda>_. 99), MapIter = (\<lambda>_ ms. ms), payloadHash = sampleHash,
      txHash = of_nat,
      blockSign = (\<lambda>_ k (n, t, _). Some (n, t, [of_nat (the k)])),
      blockSignature = (\<lambda>(n, t, s). s),
      blockVerify = (\<lambda>pub s b. s \<noteq> [] \<and> hd s = of_nat pub),
      blockSetTransactions = (\<lambda>txx (n, t, s). (n, length txx, s)),
      preBlockSetData = (\<lambda>_ _ pb. Some pb), preBlockData = putUint32BE,
      preBlockVerify = (\<lambda>_ d pb. d = putUint32BE pb),
      preBlockSetTransactions = (\<lambda>_ pb. pb)\<rparr>"

text \<open>Messages of the other validators.\<close>

definition reqFrom :: "nat \<Rightarrow> u32 \<Rightarrow> u8 \<Rightarrow> Uint256 list \<Rightarrow> payload" where
  "reqFrom i h v hs =
     NewConsensusPayload PrepareRequestType h (of_nat i) v
       (PrepareRequestMsg \<lparr>transactionHashes = Some hs, reqNonce = 99, reqTimestamp = 1700000000\<rparr>)"

definition respFrom :: "nat \<Rightarrow> u32 \<Rightarrow> u8 \<Rightarrow> Uint256 \<Rightarrow> payload" where
  "respFrom i h v d =
     NewConsensusPayload PrepareResponseType h (of_nat i) v (PrepareResponseMsg \<lparr>preparationHash = d\<rparr>)"

definition commitFrom :: "nat \<Rightarrow> u32 \<Rightarrow> u8 \<Rightarrow> byte \<Rightarrow> payload" where
  "commitFrom i h v s =
     NewConsensusPayload CommitType h (of_nat i) v (CommitMsg (NewCommit [s]))"

definition cvFrom :: "nat \<Rightarrow> u32 \<Rightarrow> u8 \<Rightarrow> u8 \<Rightarrow> payload" where
  "cvFrom i h v nv =
     NewConsensusPayload ChangeViewType h (of_nat i) v
       (ChangeViewMsg \<lparr>newViewNumber = nv, cvTimestamp = 0\<rparr>)"

definition recoveryFrom :: "nat \<Rightarrow> u32 \<Rightarrow> u8 \<Rightarrow> recoveryMessage \<Rightarrow> payload" where
  "recoveryFrom i h v r =
     NewConsensusPayload RecoveryMessageType h (of_nat i) v (RecoveryMessageMsg r)"

text \<open>A run of calls from the freshly created node.\<close>

fun runCalls ::
    "('tx, 'b, 'pb, 'pub, 'priv) config \<Rightarrow> 'tx call list \<Rightarrow> ('tx, 'b, 'pb, 'pub, 'priv) dbft act" where
  "runCalls cfg [] c = Ok c"
| "runCalls cfg (a # as) c = thenDo (exec cfg a c) (runCalls cfg as)"

definition sampleRun :: "sconfig \<Rightarrow> nat call list \<Rightarrow> stop + sdbft" where
  "sampleRun cfg as = runCalls cfg as (newDbft cfg)"

subsection \<open>Runs are reachable\<close>

fun isStart :: "'tx call \<Rightarrow> bool" where
  "isStart (CallStart _) = True"
| "isStart _ = False"

lemma runCalls_reachable_from:
  "reachable cfg c \<Longrightarrow> list_all (\<lambda>a. \<not> isStart a) as \<Longrightarrow> runCalls cfg as c = Inr d \<Longrightarrow> reachable cfg d"
proof (induction as arbitrary: c)
  case (Cons a as)
  then obtain t where t: "exec cfg a c = Inr t" "runCalls cfg as t = Inr d" by (auto simp: thenDo_Ok_iff)
  have "\<And>ts. a \<noteq> CallStart ts" using Cons.prems(2) by auto
  then have "reachable cfg t" using reach_call Cons.prems(1) t(1) by blast
  then show ?case using Cons.IH t(2) Cons.prems(2) by simp
qed simp

lemma runCalls_reachable:
  assumes "runCalls cfg (CallStart ts # as) (newDbft cfg) = Inr c" and "list_all (\<lambda>a. \<not> isStart a) as"
  shows "reachable cfg c"
proof -
  obtain t where "exec cfg (CallStart ts) (newDbft cfg) = Inr t" "runCalls cfg as t = Inr c"
    using assms(1) by (auto simp: thenDo_Ok_iff)
  then show ?thesis using reach_start runCalls_reachable_from assms(2) by blast
qed

end
