(* ===== verification/Sample_Runs.thy ===== *)
theory Sample_Runs
  imports Sample_Node Node_Step
begin

section \<open>Runs of the concrete nodes\<close>

text \<open>
  Complete runs of height 1, evaluated in the kernel. Validator 1 is the primary of view 0, and
  the messages that a node receives are the ones the others send in their own runs.
\<close>

subsection \<open>A height without faults\<close>

text \<open>The fourth validator is silent; the other three make a block.\<close>

definition plain :: "nat \<Rightarrow> sconfig" where
  "plain i = sampleConfig (int i) (- 1) 0"

definition resp :: "nat \<Rightarrow> payload" where
  "resp i = respFrom i 1 0 (sampleHash (reqFrom 1 1 0 []))"

definition com :: "nat \<Rightarrow> payload" where
  "com i = commitFrom i 1 0 (of_nat (10 + i))"

lemma com_type: "cmType (com i) = CommitType"
  by (simp add: com_def commitFrom_def)

definition plainCalls :: "nat \<Rightarrow> nat call list" where
  "plainCalls i =
     (if i = 0 then [CallReceive (reqFrom 1 1 0 []), CallReceive (resp 2), CallReceive (com 1), CallReceive (com 2)]
      else if i = 1 then [CallReceive (resp 0), CallReceive (resp 2), CallReceive (com 0), CallReceive (com 2)]
      else [CallReceive (reqFrom 1 1 0 []), CallReceive (resp 0), CallReceive (com 0), CallReceive (com 1)])"

definition stateOf :: "stop + sdbft \<Rightarrow> sdbft" where
  "stateOf r = (case r of Inl e \<Rightarrow> newDbft (plain 0) | Inr c \<Rightarrow> c)"

definition plainNode :: "nat \<Rightarrow> sdbft" where
  "plainNode i = stateOf (sampleRun (plain i) (CallStart 0 # plainCalls i))"

definition isRun :: "stop + 's \<Rightarrow> bool" where
  "isRun r = (case r of Inl e \<Rightarrow> False | Inr c \<Rightarrow> True)"

text \<open>
  What is read off a finished run, as a predicate of the result, so that the kernel evaluates
  each run once: the node has the block, in view 0, and holds the three Commits that it and the
  others broadcast.
\<close>

definition finished :: "nat \<Rightarrow> stop + sdbft \<Rightarrow> bool" where
  "finished i r =
     (case r of
        Inl e \<Rightarrow> False
      | Inr c \<Rightarrow>
          blockProcessed c \<and> ViewNumber c = 0 \<and> ctxN c = 4 \<and> BlockIndex c = 1 \<and> MyIndex c = int i
          \<and> \<not> isAntiMEVExtensionEnabled (plain i) c
          \<and> take 3 (CommitPayloads c) = [Some (com 0), Some (com 1), Some (com 2)]
          \<and> EBroadcast (com i) \<in> set (heightLog (log c)))"

definition plainCheck :: "nat \<Rightarrow> bool" where
  "plainCheck i \<longleftrightarrow> finished i (sampleRun (plain i) (CallStart 0 # plainCalls i))"

lemma plain_checks: "plainCheck 0" "plainCheck 1" "plainCheck 2"
  by code_simp+

lemma plain_check: "i < 3 \<Longrightarrow> plainCheck i"
  using plain_checks by (auto simp: less_Suc_eq numeral_3_eq_3 numeral_2_eq_2)

lemma plain_run: "i < 3 \<Longrightarrow> sampleRun (plain i) (CallStart 0 # plainCalls i) = Inr (plainNode i)"
  using plain_check[of i] by (auto simp: plainCheck_def finished_def plainNode_def stateOf_def split: sum.splits)

lemma plain_reachable: "i < 3 \<Longrightarrow> reachable (plain i) (plainNode i)"
  using plain_run[of i] runCalls_reachable[of "plain i" 0 "plainCalls i"]
  by (simp add: sampleRun_def plainCalls_def)

lemma plain_fact:
  assumes "i < 3"
  shows "blockProcessed (plainNode i)" "ViewNumber (plainNode i) = 0" "ctxN (plainNode i) = 4"
    "BlockIndex (plainNode i) = 1" "MyIndex (plainNode i) = int i"
    "\<not> isAntiMEVExtensionEnabled (plain i) (plainNode i)"
    "take 3 (CommitPayloads (plainNode i)) = [Some (com 0), Some (com 1), Some (com 2)]"
    "EBroadcast (com i) \<in> set (heightLog (log (plainNode i)))"
  using plain_check[OF assms] plain_run[OF assms] by (simp_all add: plainCheck_def finished_def)

lemma plain_commit:
  assumes "i < 3" and "j < 3"
  shows "slot (CommitPayloads (plainNode i)) j = Some (com j)"
proof -
  have t: "take 3 (CommitPayloads (plainNode i)) = [Some (com 0), Some (com 1), Some (com 2)]"
    by (rule plain_fact(7)[OF assms(1)])
  then have l: "3 \<le> length (CommitPayloads (plainNode i))"
  proof -
    have "length (take 3 (CommitPayloads (plainNode i))) = 3" by (subst t) simp
    then show ?thesis by simp
  qed
  have "CommitPayloads (plainNode i) ! j = take 3 (CommitPayloads (plainNode i)) ! j"
    using assms(2) by simp
  then show ?thesis
    using t l assms(2) by (auto simp: slot_def less_Suc_eq numeral_3_eq_3 numeral_2_eq_2)
qed

text \<open>The next height.\<close>

definition resetAfter :: sdbft where
  "resetAfter = stateOf (exec (plain 0) (CallReset 5) (plainNode 0))"

definition resets :: "stop + sdbft \<Rightarrow> bool" where
  "resets r = (case r of Inl e \<Rightarrow> False | Inr c \<Rightarrow> isRun (exec (plain 0) (CallReset 5) c))"

lemma reset_check: "resets (sampleRun (plain 0) (CallStart 0 # plainCalls 0))"
  by code_simp

lemma stateOf_run: "isRun r \<Longrightarrow> r = Inr (stateOf r)"
  by (cases r) (simp_all add: isRun_def stateOf_def)

lemma reset_call: "exec (plain 0) (CallReset 5) (plainNode 0) = Inr resetAfter"
  unfolding resetAfter_def by (rule stateOf_run) (use reset_check plain_run[of 0] in \<open>simp add: resets_def\<close>)

subsection \<open>A locked node\<close>

text \<open>Validator 0 has sent its Commit and waits; the timer fires.\<close>

definition lockedNode :: sdbft where
  "lockedNode = stateOf (sampleRun (plain 0) (CallStart 0 # take 2 (plainCalls 0)))"

definition lockedAfter :: sdbft where
  "lockedAfter = stateOf (exec (plain 0) (CallTimeout 1 0) lockedNode)"

definition lockedCheck :: "stop + sdbft \<Rightarrow> bool" where
  "lockedCheck r =
     (case r of
        Inl e \<Rightarrow> False
      | Inr c \<Rightarrow>
          CommitSent (plain 0) c \<and> RequestSentOrReceived c \<and> \<not> isAntiMEVExtensionEnabled (plain 0) c
          \<and> isRun (exec (plain 0) (CallTimeout 1 0) c))"

lemma locked_check: "lockedCheck (sampleRun (plain 0) (CallStart 0 # take 2 (plainCalls 0)))"
  by code_simp

lemma locked_facts:
  "sampleRun (plain 0) (CallStart 0 # take 2 (plainCalls 0)) = Inr lockedNode"
  "CommitSent (plain 0) lockedNode" "RequestSentOrReceived lockedNode"
  "\<not> isAntiMEVExtensionEnabled (plain 0) lockedNode"
  "exec (plain 0) (CallTimeout 1 0) lockedNode = Inr lockedAfter"
  using locked_check stateOf_run
  by (auto simp: lockedCheck_def lockedNode_def lockedAfter_def stateOf_def[of "Inr _"] split: sum.splits)

lemma locked_reachable: "reachable (plain 0) lockedNode"
  using locked_facts(1) runCalls_reachable[of "plain 0" 0 "take 2 (plainCalls 0)"]
  by (simp add: sampleRun_def plainCalls_def)

subsection \<open>A view change\<close>

text \<open>The three others give up view 0; validator 0 joins them, as the primary of view 1.\<close>

definition viewCalls :: "nat call list" where
  "viewCalls = [CallReceive (cvFrom 1 1 0 1), CallReceive (cvFrom 2 1 0 1), CallReceive (cvFrom 3 1 0 1)]"

definition viewNode :: sdbft where
  "viewNode = stateOf (sampleRun (plain 0) (CallStart 0 # viewCalls))"

lemma view_check:
  "case sampleRun (plain 0) (CallStart 0 # viewCalls) of
     Inl e \<Rightarrow> False | Inr c \<Rightarrow> ViewNumber c = 1 \<and> PrimaryIndex c = 0 \<and> ctxN c = 4"
  by code_simp

lemma view_facts:
  "sampleRun (plain 0) (CallStart 0 # viewCalls) = Inr viewNode" "ViewNumber viewNode = 1"
  "PrimaryIndex viewNode = 0" "ctxN viewNode = 4"
  using view_check by (auto simp: viewNode_def stateOf_def split: sum.splits)

lemma view_reachable: "reachable (plain 0) viewNode"
  using view_facts(1) runCalls_reachable[of "plain 0" 0 viewCalls]
  by (simp add: sampleRun_def viewCalls_def)

subsection \<open>A height with the anti-MEV extension\<close>

definition amev :: "nat \<Rightarrow> sconfig" where
  "amev i = sampleConfig (int i) 0 0"

definition pre :: "nat \<Rightarrow> payload" where
  "pre i = NewConsensusPayload PreCommitType 1 (of_nat i) 0 (PreCommitMsg \<lparr>magic = 1\<rparr>)"

definition amevCalls :: "nat call list" where
  "amevCalls =
     [CallReceive (reqFrom 1 1 0 []), CallReceive (resp 2), CallReceive (pre 1), CallReceive (pre 2),
      CallReceive (com 1), CallReceive (com 2)]"

definition amevNode :: sdbft where
  "amevNode = stateOf (sampleRun (amev 0) (CallStart 0 # amevCalls))"

lemma amev_check:
  "case sampleRun (amev 0) (CallStart 0 # amevCalls) of
     Inl e \<Rightarrow> False
   | Inr c \<Rightarrow> isAntiMEVExtensionEnabled (amev 0) c \<and> blockProcessed c \<and> preBlockProcessed c
       \<and> take 1 (heightLog (log c)) = [EProcessBlock (99, 0, [10]) True]"
  by code_simp

lemma amev_facts:
  "sampleRun (amev 0) (CallStart 0 # amevCalls) = Inr amevNode"
  "isAntiMEVExtensionEnabled (amev 0) amevNode" "blockProcessed amevNode" "preBlockProcessed amevNode"
  "heightLog (log amevNode) \<noteq> [] \<and> hd (heightLog (log amevNode)) = EProcessBlock (99, 0, [10]) True"
proof -
  show r: "sampleRun (amev 0) (CallStart 0 # amevCalls) = Inr amevNode"
    using amev_check by (auto simp: amevNode_def stateOf_def split: sum.splits)
  show "isAntiMEVExtensionEnabled (amev 0) amevNode" "blockProcessed amevNode" "preBlockProcessed amevNode"
    using amev_check r by simp_all
  have "take 1 (heightLog (log amevNode)) = [EProcessBlock (99, 0, [10]) True]"
    using amev_check r by simp
  then show "heightLog (log amevNode) \<noteq> [] \<and> hd (heightLog (log amevNode)) = EProcessBlock (99, 0, [10]) True"
    by (cases "heightLog (log amevNode)") simp_all
qed

lemma amev_reachable: "reachable (amev 0) amevNode"
  using amev_facts(1) runCalls_reachable[of "amev 0" 0 amevCalls]
  by (simp add: sampleRun_def amevCalls_def)

end
