(* ===== verification/Recursion.thy ===== *)
theory Recursion
  imports Dbft_Fuel Sample_Runs
begin

section \<open>The recursion of \<open>OnReceive\<close>\<close>

text \<open>
  \<open>OnReceiveN\<close> bounds the nesting depth of \<open>OnReceive\<close>. Every handler is monotone in the function
  it calls: where a call with the smaller bound returns, the larger bound gives the same result.
  With the sufficiency of the bound (\<open>Dbft_Fuel\<close>), the modelled \<open>OnReceive\<close> satisfies the recursive
  equation that the code writes down.
\<close>

subsection \<open>Results that a larger bound keeps\<close>

definition upTo :: "stop + 'a \<Rightarrow> stop + 'a \<Rightarrow> bool" where
  "upTo r r' \<longleftrightarrow> r = Inl OutOfFuel \<or> r' = r"

named_theorems mono \<open>statements that keep their result under a larger bound\<close>

lemma upTo_refl [mono, intro, simp]: "upTo r r"
  by (simp add: upTo_def)

lemma upTo_Ok: "upTo r r' \<Longrightarrow> r \<noteq> Inl OutOfFuel \<Longrightarrow> r' = r"
  by (simp add: upTo_def)

lemma thenDo_upTo [mono]: "upTo m m' \<Longrightarrow> (\<And>x. upTo (k x) (k' x)) \<Longrightarrow> upTo (thenDo m k) (thenDo m' k')"
  by (cases m) (auto simp: upTo_def)

lemma if_upTo [mono]: "upTo a a' \<Longrightarrow> upTo b b' \<Longrightarrow> upTo (if c then a else b) (if c then a' else b')"
  by simp

lemma option_upTo [mono]:
  "upTo a a' \<Longrightarrow> (\<And>x. upTo (f x) (f' x)) \<Longrightarrow>
     upTo (case m of None \<Rightarrow> a | Some x \<Rightarrow> f x) (case m of None \<Rightarrow> a' | Some x \<Rightarrow> f' x)"
  by (simp split: option.split)

lemma prod_upTo [mono]:
  "(\<And>x y. upTo (f x y) (f' x y)) \<Longrightarrow> upTo (case p of (x, y) \<Rightarrow> f x y) (case p of (x, y) \<Rightarrow> f' x y)"
  by (simp split: prod.split)

lemma steps_Nil_upTo [mono]: "upTo (steps [] c) (steps [] c)"
  by simp

lemma steps_Cons_upTo [mono]:
  "upTo (f c) (g c) \<Longrightarrow> (\<And>d. upTo (steps fs d) (steps gs d)) \<Longrightarrow> upTo (steps (f # fs) c) (steps (g # gs) c)"
  by (simp add: thenDo_upTo)

lemma forEach_upTo [mono]:
  "(\<And>x c. upTo (f x c) (g x c)) \<Longrightarrow> upTo (forEach f xs c) (forEach g xs c)"
  by (induction xs arbitrary: c) (simp_all add: thenDo_upTo)

subsection \<open>The handlers are monotone\<close>

locale deeper =
  fixes cfg :: "('tx, 'b, 'pb, 'pub, 'priv) config"
    and rcv rcv' :: "payload \<Rightarrow> ('tx, 'b, 'pb, 'pub, 'priv) dbft act"
  assumes rcv_upTo [mono]: "upTo (rcv m c) (rcv' m c)"
begin

lemma replayBox_upTo [mono]: "upTo (replayBox cfg rcv kvs c) (replayBox cfg rcv' kvs c)"
  unfolding replayBox_def by (intro mono)

lemma replayCached_upTo [mono]: "upTo (replayCached cfg rcv c) (replayCached cfg rcv' c)"
  unfolding replayCached_def by (intro mono)

lemma initializeConsensus_upTo [mono]:
  "upTo (initializeConsensus cfg rcv view ts c) (initializeConsensus cfg rcv' view ts c)"
  unfolding initializeConsensus_def by (intro mono)

lemma checkChangeView_upTo [mono]: "upTo (checkChangeView cfg rcv view c) (checkChangeView cfg rcv' view c)"
  unfolding checkChangeView_def by (intro mono)

lemma sendChangeView_upTo [mono]: "upTo (sendChangeView cfg rcv r c) (sendChangeView cfg rcv' r c)"
  unfolding sendChangeView_def Let_def by (intro mono)

lemma createAndCheckBlock_upTo [mono]: "upTo (createAndCheckBlock cfg rcv c) (createAndCheckBlock cfg rcv' c)"
  unfolding createAndCheckBlock_def Let_def by (intro mono)

lemma addTransaction_upTo [mono]: "upTo (addTransaction cfg rcv tx c) (addTransaction cfg rcv' tx c)"
  unfolding addTransaction_def Let_def by (intro mono)

lemma onPrepareRequest_upTo [mono]: "upTo (onPrepareRequest cfg rcv m c) (onPrepareRequest cfg rcv' m c)"
  unfolding onPrepareRequest_def by (intro mono)

lemma onChangeView_upTo [mono]: "upTo (onChangeView cfg rcv m c) (onChangeView cfg rcv' m c)"
  unfolding onChangeView_def by (intro mono)

lemma recoverPreparations_upTo [mono]: "upTo (recoverPreparations rcv r m c) (recoverPreparations rcv' r m c)"
  unfolding recoverPreparations_def by (intro mono)

lemma recoverCommits_upTo [mono]: "upTo (recoverCommits rcv r m c) (recoverCommits rcv' r m c)"
  unfolding recoverCommits_def by (intro mono)

lemma recoverAll_upTo [mono]: "upTo (recoverAll cfg rcv r m c) (recoverAll cfg rcv' r m c)"
  unfolding recoverAll_def by (intro mono)

lemma onRecoveryMessage_upTo [mono]: "upTo (onRecoveryMessage cfg rcv m c) (onRecoveryMessage cfg rcv' m c)"
  unfolding onRecoveryMessage_def by (intro mono)

lemma dispatch_upTo [mono]: "upTo (dispatch cfg rcv m c) (dispatch cfg rcv' m c)"
  unfolding dispatch_def by (cases "cmType m") (simp_all add: mono)

lemma receive_upTo: "upTo (receive cfg rcv m c) (receive cfg rcv' m c)"
  unfolding receive_def Let_def by (intro mono)

end

lemma OnReceiveN_upTo: "upTo (OnReceiveN cfg n m c) (OnReceiveN cfg (Suc n) m c)"
proof (induction n arbitrary: m c)
  case 0
  show ?case by (simp add: upTo_def)
next
  case (Suc n)
  have "deeper (OnReceiveN cfg n) (OnReceiveN cfg (Suc n))" by unfold_locales (rule Suc.IH)
  then show ?case using deeper.receive_upTo by fastforce
qed

interpretation nested: deeper cfg "OnReceiveN cfg n" "OnReceiveN cfg (Suc n)" for cfg n
  by unfold_locales (rule OnReceiveN_upTo)

subsection \<open>The equation of the code\<close>

lemma OnReceiveN_enough:
  assumes "wf cfg c" and "maxNesting \<le> n"
  shows "OnReceiveN cfg n m c = OnReceive cfg m c"
  using assms(2)
proof (induction n rule: dec_induct)
  case base
  show ?case by (simp add: OnReceive_def)
next
  case (step k)
  have "need m c \<le> k" using step(1) viewsLeft_le[of c] by (simp add: need_def maxNesting_def)
  then have "OnReceiveN cfg (Suc k) m c = OnReceiveN cfg k m c"
    by (intro upTo_Ok OnReceiveN_upTo OnReceiveN_fuel assms(1))
  then show ?case using step.IH by simp
qed



end
