(* ===== verification/Timer.thy ===== *)
theory Timer
  imports Dbft_Core
begin

section \<open>The default timer\<close>

text \<open>
  \<open>timer/timer.go\<close>. The channel \<open>ch\<close> is buffered with room for one value, and a runtime timer
  (\<open>time.Timer\<close>) is its deadline and whether its value has been received. The current time is an
  argument of the operations that read it. A send on a full channel would block for ever: \<open>None\<close>.
\<close>

record runtimeTimer =
  deadline :: instant
  fired :: bool

record timer =
  tmHeight :: u32
  tmView :: u8
  tmS :: instant
  tmD :: duration
  tmTT :: "runtimeTimer option"
  tmCh :: "instant list"

definition newTimer :: timer where
  "newTimer = \<lparr>tmHeight = 0, tmView = 0, tmS = zeroTime, tmD = 0, tmTT = None, tmCh = []\<rparr>"

definition timerStop :: "timer \<Rightarrow> timer" where
  "timerStop t = (if tmTT t \<noteq> None then t\<lparr>tmTT := None\<rparr> else t)"

definition drain :: "instant list \<Rightarrow> instant list" where
  "drain ch = (case ch of [] \<Rightarrow> [] | _ # rest \<Rightarrow> rest)"

definition sendCh :: "instant \<Rightarrow> instant list \<Rightarrow> instant list option" where
  "sendCh x ch = (if length ch < 1 then Some (ch @ [x]) else None)"

definition timerReset :: "instant \<Rightarrow> u32 \<Rightarrow> u8 \<Rightarrow> duration \<Rightarrow> timer \<Rightarrow> timer option" where
  "timerReset now h v d t0 =
     (let t = (timerStop t0)\<lparr>tmS := now, tmD := d, tmHeight := h, tmView := v\<rparr>
      in if d \<noteq> 0 then Some (t\<lparr>tmTT := Some \<lparr>deadline = now + d, fired = False\<rparr>\<rparr>)
         else map_option (\<lambda>ch. t\<lparr>tmTT := None, tmCh := ch\<rparr>) (sendCh now (drain (tmCh t))))"

definition timerExtend :: "instant \<Rightarrow> duration \<Rightarrow> timer \<Rightarrow> timer" where
  "timerExtend now d t0 =
     (let t = t0\<lparr>tmD := wrap64 (tmD t0 + d)\<rparr>;
          elapsed = time_sub now (tmS t)
      in if tmD t > elapsed
         then (timerStop t)\<lparr>tmTT := Some \<lparr>deadline = now + (tmD t - elapsed), fired = False\<rparr>\<rparr>
         else t)"

text \<open>Whether a receive from \<open>C()\<close> succeeds at a given time, and the timer after it.\<close>

definition timerReady :: "instant \<Rightarrow> timer \<Rightarrow> bool" where
  "timerReady now t =
     (case tmTT t of
        None \<Rightarrow> tmCh t \<noteq> []
      | Some r \<Rightarrow> \<not> fired r \<and> deadline r \<le> now)"

definition timerReceive :: "timer \<Rightarrow> timer" where
  "timerReceive t =
     (case tmTT t of
        None \<Rightarrow> t\<lparr>tmCh := tl (tmCh t)\<rparr>
      | Some r \<Rightarrow> t\<lparr>tmTT := Some (r\<lparr>fired := True\<rparr>)\<rparr>)"

definition timer_ok :: "timer \<Rightarrow> bool" where
  "timer_ok t \<longleftrightarrow> length (tmCh t) \<le> 1"

lemma timer_ok_new: "timer_ok newTimer"
  by (simp add: timer_ok_def newTimer_def)

lemma timerStop_sel [simp]:
  "tmHeight (timerStop t) = tmHeight t" "tmView (timerStop t) = tmView t" "tmS (timerStop t) = tmS t"
  "tmD (timerStop t) = tmD t" "tmCh (timerStop t) = tmCh t" "tmTT (timerStop t) = None"
  by (simp_all add: timerStop_def)

lemma timer_ok_Extend: "timer_ok t \<Longrightarrow> timer_ok (timerExtend now d t)"
  by (simp add: timer_ok_def timerExtend_def Let_def)

lemma timer_ok_Receive: "timer_ok t \<Longrightarrow> timer_ok (timerReceive t)"
  by (auto simp: timer_ok_def timerReceive_def split: option.split)

lemma timerReset_Some:
  assumes "timer_ok t"
  obtains u where "timerReset now h v d t = Some u" and "timer_ok u" and "tmHeight u = h"
    and "tmView u = v" and "tmS u = now" and "tmD u = d"
    and "d \<noteq> 0 \<longrightarrow> tmTT u = Some \<lparr>deadline = now + d, fired = False\<rparr>"
    and "d = 0 \<longrightarrow> tmTT u = None \<and> tmCh u = [now]"
proof -
  have d: "drain (tmCh t) = []" using assms by (auto simp: timer_ok_def drain_def split: list.split)
  have "\<exists>u. timerReset now h v d t = Some u \<and> timer_ok u \<and> tmHeight u = h \<and> tmView u = v
      \<and> tmS u = now \<and> tmD u = d \<and> (d \<noteq> 0 \<longrightarrow> tmTT u = Some \<lparr>deadline = now + d, fired = False\<rparr>)
      \<and> (d = 0 \<longrightarrow> tmTT u = None \<and> tmCh u = [now])"
    using assms d by (cases "d = 0") (simp_all add: timerReset_def Let_def sendCh_def timer_ok_def)
  then show thesis using that by blast
qed

subsection \<open>The timer of a node\<close>

text \<open>
  The timer operations of a node's history, oldest first, each at the time the clock then shows;
  the program receives from the timer in between, whenever it is ready.
\<close>

fun timerEvent :: "instant \<Rightarrow> ('tx, 'b, 'pb) effect \<Rightarrow> timer \<Rightarrow> timer option" where
  "timerEvent now (ETimerReset h v d) t = timerReset now h v d t"
| "timerEvent now (ETimerExtend d) t = Some (timerExtend now d t)"
| "timerEvent now _ t = Some t"

text \<open>The history is newest first; \<open>clock\<close> is the time of an event, \<open>drained\<close> what was received before it.\<close>

fun runTimer ::
    "(('tx, 'b, 'pb) effect list \<Rightarrow> instant) \<Rightarrow> (('tx, 'b, 'pb) effect list \<Rightarrow> bool)
       \<Rightarrow> ('tx, 'b, 'pb) effect list \<Rightarrow> timer option" where
  "runTimer clock drained [] = Some newTimer"
| "runTimer clock drained (e # es) =
     (case runTimer clock drained es of
        None \<Rightarrow> None
      | Some t \<Rightarrow>
          timerEvent (clock es) e (if drained es \<and> timerReady (clock es) t then timerReceive t else t))"

lemma timerReceive_sel [simp]:
  "tmHeight (timerReceive t) = tmHeight t" "tmView (timerReceive t) = tmView t"
  by (simp_all add: timerReceive_def split: option.split)

lemma timerExtend_sel [simp]:
  "tmHeight (timerExtend now d t) = tmHeight t" "tmView (timerExtend now d t) = tmView t"
  by (simp_all add: timerExtend_def Let_def)

lemma timerEvent_ok:
  assumes "timer_ok t"
  obtains u where "timerEvent now e t = Some u" and "timer_ok u"
    and "tmHeight u = (case e of ETimerReset h v d \<Rightarrow> h | _ \<Rightarrow> tmHeight t)"
    and "tmView u = (case e of ETimerReset h v d \<Rightarrow> v | _ \<Rightarrow> tmView t)"
proof (cases e)
  case (ETimerReset h v d)
  show thesis by (rule timerReset_Some[OF assms, of now h v d]) (use that ETimerReset in auto)
qed (use that assms timer_ok_Extend in auto)

text \<open>
  C38. The timer never blocks and agrees with the history. Whatever the clock shows and whenever
  the program receives from it, replaying a node's history on the default timer never blocks,
  and its height and view are the ones the algorithm's \<open>OnNewTransaction\<close> reads.
\<close>

theorem timer_follows_history:
  "\<exists>t. runTimer clock drained es = Some t \<and> timer_ok t
    \<and> tmHeight t = timerHeight es \<and> tmView t = timerView es"
proof (induction es)
  case Nil
  show ?case using timer_ok_new by (simp add: newTimer_def)
next
  case (Cons e es)
  then obtain t where t: "runTimer clock drained es = Some t" "timer_ok t"
    "tmHeight t = timerHeight es" "tmView t = timerView es" by blast
  let ?t = "if drained es \<and> timerReady (clock es) t then timerReceive t else t"
  have ok: "timer_ok ?t" using t(2) timer_ok_Receive by simp
  obtain u where u: "timerEvent (clock es) e ?t = Some u" "timer_ok u"
    "tmHeight u = (case e of ETimerReset h v d \<Rightarrow> h | _ \<Rightarrow> tmHeight ?t)"
    "tmView u = (case e of ETimerReset h v d \<Rightarrow> v | _ \<Rightarrow> tmView ?t)"
    by (rule timerEvent_ok[OF ok])
  have h: "tmHeight ?t = timerHeight es" "tmView ?t = timerView es" using t(3,4) by simp_all
  show ?case using t(1) u h by (auto split: effect.split)
qed

subsection \<open>When it fires\<close>

text \<open>Extensions at the given times.\<close>

fun extends :: "(instant \<times> duration) list \<Rightarrow> timer \<Rightarrow> timer" where
  "extends [] t = t"
| "extends ((now, d) # xs) t = extends xs (timerExtend now d t)"

text \<open>Each extension comes after the start, before the deadline reached so far, and does not shorten it.\<close>

fun timely :: "instant \<Rightarrow> duration \<Rightarrow> (instant \<times> duration) list \<Rightarrow> bool" where
  "timely s d [] = True"
| "timely s d ((now, e) # xs) \<longleftrightarrow> s \<le> now \<and> now < s + d \<and> 0 \<le> e \<and> d + e < 2 ^ 63 \<and> timely s (d + e) xs"

lemma extends_deadline:
  assumes "timely (tmS t) (tmD t) xs" and "0 \<le> tmD t" and "tmD t < 2 ^ 63"
    and "tmTT t = Some \<lparr>deadline = tmS t + tmD t, fired = False\<rparr>"
  shows "tmTT (extends xs t) = Some \<lparr>deadline = tmS t + tmD t + sum_list (map snd xs), fired = False\<rparr>"
  using assms
proof (induction xs arbitrary: t)
  case (Cons x xs)
  obtain now e where x: "x = (now, e)" by (cases x)
  let ?t = "timerExtend now e t"
  have el: "time_sub now (tmS t) = now - tmS t"
    using Cons.prems(1,3) x by (simp add: time_sub_def)
  have w: "wrap64 (tmD t + e) = tmD t + e"
    using Cons.prems(1,2) x by (intro wrap64_id) simp_all
  have t: "tmS ?t = tmS t" "tmD ?t = tmD t + e"
    "tmTT ?t = Some \<lparr>deadline = tmS t + (tmD t + e), fired = False\<rparr>"
    using Cons.prems(1) x by (simp_all add: timerExtend_def Let_def w el)
  have "tmTT (extends xs ?t) = Some \<lparr>deadline = tmS ?t + tmD ?t + sum_list (map snd xs), fired = False\<rparr>"
    by (rule Cons.IH) (use Cons.prems(1,2) x t in simp_all)
  then show ?case by (simp add: x t add.assoc)
qed simp

text \<open>
  C39. Deadlines. After a \<open>Reset\<close> with a positive duration and any extensions, each of which comes
  before the timer fires, the timer is ready exactly from the start time plus the duration plus
  all extensions.
\<close>

theorem timer_fires:
  assumes "timer_ok t" and "0 < d" and "d < 2 ^ 63" and "timely s d xs"
  shows "\<exists>u. timerReset s h v d t = Some u
    \<and> (timerReady now (extends xs u) \<longleftrightarrow> s + d + sum_list (map snd xs) \<le> now)"
proof -
  obtain u where u: "timerReset s h v d t = Some u" "tmS u = s" "tmD u = d"
    "tmTT u = Some \<lparr>deadline = s + d, fired = False\<rparr>"
    by (rule timerReset_Some[OF assms(1), of s h v d]) (use assms(2) in auto)
  have "tmTT (extends xs u) = Some \<lparr>deadline = tmS u + tmD u + sum_list (map snd xs), fired = False\<rparr>"
    by (rule extends_deadline) (use assms u in simp_all)
  then show ?thesis using u by (auto simp: timerReady_def)
qed

theorem timer_fires_witness:
  "\<exists>u. timerReset 100 1 0 50 newTimer = Some u
    \<and> (timerReady 165 (extends [(120, 10), (155, 5)] u) \<longleftrightarrow> 100 + 50 + sum_list (map snd [(120 :: int, 10 :: int), (155, 5)]) \<le> 165)"
  by (rule timer_fires[OF timer_ok_new]) simp_all

text \<open>
  A zero duration fires at once: after \<open>Reset\<close> with it the timer is ready at every time, until
  it has been received from.
\<close>

theorem timer_zero:
  assumes "timer_ok t"
  shows "\<exists>u. timerReset s h v 0 t = Some u \<and> timerReady now u \<and> \<not> timerReady now (timerReceive u)"
  by (rule timerReset_Some[OF assms, of s h v 0]) (auto simp: timerReady_def timerReceive_def)

theorem timer_zero_witness:
  "\<exists>u. timerReset 5 1 0 0 newTimer = Some u \<and> timerReady 3 u \<and> \<not> timerReady 3 (timerReceive u)"
  by (rule timer_zero[OF timer_ok_new])

end
