(* ===== verification/Handlers.thy ===== *)
theory Handlers
  imports Refinement Sample_Runs
begin

section \<open>What single handlers do\<close>

text \<open>
  Functional behaviour of the handlers whose outcome is not visible in the abstract protocol:
  the bookkeeping of missing transactions, the payloads kept when a request arrives, the Commit
  that completes a quorum, the primary that receives its own request and the timeouts of a
  round. The witnesses evaluate runs of the concrete nodes.
\<close>

subsection \<open>Missing transactions\<close>

text \<open>A proposed hash that neither the context nor the memory pool knows.\<close>

definition unknownTx ::
    "('tx, 'b, 'pb, 'pub, 'priv) config \<Rightarrow> ('tx, 'b, 'pb, 'pub, 'priv) dbft \<Rightarrow> Uint256 \<Rightarrow> bool" where
  "unknownTx cfg c h \<longleftrightarrow> map_of (Transactions c) h = None \<and> GetTx cfg (log c) h = None"

lemma lookupProposed_all:
  "\<exists>ts. forEach (lookupProposed cfg) hs c =
      Inr (c\<lparr>Transactions := ts, MissingTransactions := MissingTransactions c @ filter (unknownTx cfg c) hs\<rparr>)
    \<and> fst ` set ts = fst ` set (Transactions c) \<union> {h \<in> set hs. \<not> unknownTx cfg c h}
    \<and> (distinct (map fst (Transactions c)) \<longrightarrow> distinct (map fst ts))"
proof (induction hs arbitrary: c)
  case Nil
  show ?case by (intro exI[of _ "Transactions c"]) simp
next
  case (Cons h hs)
  consider (known) "map_of (Transactions c) h \<noteq> None"
    | (pool) tx where "map_of (Transactions c) h = None" "GetTx cfg (log c) h = Some tx"
    | (missing) "unknownTx cfg c h"
    by (cases "GetTx cfg (log c) h") (auto simp: unknownTx_def)
  then show ?case
  proof cases
    case known
    have k: "lookupProposed cfg h c = Inr c" "\<not> unknownTx cfg c h"
      using known by (simp_all add: lookupProposed_def unknownTx_def)
    have m: "h \<in> fst ` set (Transactions c)" using known by (metis map_of_eq_None_iff)
    obtain ts where "forEach (lookupProposed cfg) hs c =
        Inr (c\<lparr>Transactions := ts, MissingTransactions := MissingTransactions c @ filter (unknownTx cfg c) hs\<rparr>)"
      "fst ` set ts = fst ` set (Transactions c) \<union> {h \<in> set hs. \<not> unknownTx cfg c h}"
      "distinct (map fst (Transactions c)) \<longrightarrow> distinct (map fst ts)"
      using Cons.IH[of c] by blast
    then show ?thesis using k m by (intro exI[of _ ts]) auto
  next
    case missing
    let ?c = "c\<lparr>MissingTransactions := MissingTransactions c @ [h]\<rparr>"
    have u: "unknownTx cfg ?c = unknownTx cfg c" by (rule ext) (simp add: unknownTx_def)
    have k: "lookupProposed cfg h c = Inr ?c"
      using missing by (simp add: lookupProposed_def unknownTx_def)
    obtain ts where "forEach (lookupProposed cfg) hs ?c =
        Inr (?c\<lparr>Transactions := ts, MissingTransactions := MissingTransactions ?c @ filter (unknownTx cfg ?c) hs\<rparr>)"
      "fst ` set ts = fst ` set (Transactions ?c) \<union> {h \<in> set hs. \<not> unknownTx cfg ?c h}"
      "distinct (map fst (Transactions ?c)) \<longrightarrow> distinct (map fst ts)"
      using Cons.IH[of ?c] by blast
    then show ?thesis using k missing unfolding u by (intro exI[of _ ts]) auto
  next
    case pool
    let ?c = "c\<lparr>Transactions := AList.update h tx (Transactions c)\<rparr>"
    have u: "unknownTx cfg ?c = unknownTx cfg c"
      by (rule ext) (use pool in \<open>simp add: unknownTx_def update_conv'\<close>)
    have k: "lookupProposed cfg h c = Inr ?c" "\<not> unknownTx cfg c h"
      using pool by (simp_all add: lookupProposed_def unknownTx_def)
    have m: "fst ` set (AList.update h tx (Transactions c)) = insert h (fst ` set (Transactions c))"
      using dom_update[of h tx "Transactions c"] by simp
    obtain ts where "forEach (lookupProposed cfg) hs ?c =
        Inr (?c\<lparr>Transactions := ts, MissingTransactions := MissingTransactions ?c @ filter (unknownTx cfg ?c) hs\<rparr>)"
      "fst ` set ts = fst ` set (Transactions ?c) \<union> {h \<in> set hs. \<not> unknownTx cfg ?c h}"
      "distinct (map fst (Transactions ?c)) \<longrightarrow> distinct (map fst ts)"
      using Cons.IH[of ?c] by blast
    moreover have "distinct (map fst (Transactions c)) \<longrightarrow> distinct (map fst (Transactions ?c))"
      by (simp add: distinct_update)
    ultimately show ?thesis using k m unfolding u by (intro exI[of _ ts]) auto
  qed
qed

text \<open>
  C19. Missing transactions. \<open>processMissingTx\<close> always returns. It appends to the missing hashes, in
  the order of the proposal, those that neither the context nor the memory pool knows (the
  hashes missing before stay, so a repeated call lists them again), takes every other proposed
  transaction, and requests all missing ones in one call if there are any. For a proposal
  without repeated hashes on a fresh context, the node has all transactions exactly when nothing
  was missing.
\<close>

theorem missing_transactions:
  "\<exists>d. processMissingTx cfg c = Ok d
    \<and> MissingTransactions d = MissingTransactions c @ filter (unknownTx cfg c) (elems (TransactionHashes c))
    \<and> dom (map_of (Transactions d)) =
        dom (map_of (Transactions c)) \<union> {h \<in> set (elems (TransactionHashes c)). \<not> unknownTx cfg c h}
    \<and> log d = (if MissingTransactions d = [] then log c else ERequestTx (MissingTransactions d) # log c)
    \<and> (distinct (elems (TransactionHashes c)) \<longrightarrow> Transactions c = [] \<longrightarrow> MissingTransactions c = [] \<longrightarrow>
        hasAllTransactions d = (MissingTransactions d = []))"
proof -
  let ?hs = "elems (TransactionHashes c)"
  obtain ts where l: "forEach (lookupProposed cfg) ?hs c =
      Inr (c\<lparr>Transactions := ts, MissingTransactions := MissingTransactions c @ filter (unknownTx cfg c) ?hs\<rparr>)"
    and d: "fst ` set ts = fst ` set (Transactions c) \<union> {h \<in> set ?hs. \<not> unknownTx cfg c h}"
    and u: "distinct (map fst (Transactions c)) \<longrightarrow> distinct (map fst ts)"
    using lookupProposed_all by blast
  have full: "(length ?hs = length ts) = (filter (unknownTx cfg c) ?hs = [])"
    if "distinct ?hs" "Transactions c = []"
  proof -
    have "length ts = card (fst ` set ts)"
      using u that(2) distinct_card[of "map fst ts"] by simp
    also have "fst ` set ts = set (filter (\<lambda>h. \<not> unknownTx cfg c h) ?hs)"
      using d that(2) by auto
    also have "card \<dots> = length (filter (\<lambda>h. \<not> unknownTx cfg c h) ?hs)"
      using that(1) by (simp only: distinct_card distinct_filter)
    finally have "length ts + length (filter (unknownTx cfg c) ?hs) = length ?hs"
      using sum_length_filter_compl[of "unknownTx cfg c" ?hs] by simp
    then show ?thesis by auto
  qed
  show ?thesis
    using full d
    by (auto simp: processMissingTx_def l emit_def hasAllTransactions_def dom_map_of_conv_image_fst)
qed

definition proposedNode :: sdbft where
  "proposedNode = (newDbft (plain 0))\<lparr>TransactionHashes := Some [5, 6]\<rparr>"

theorem missing_transactions_witness:
  "\<exists>d. processMissingTx (plain 0) proposedNode = Ok d
    \<and> MissingTransactions d = [5, 6] \<and> \<not> hasAllTransactions d"
proof -
  have "unknownTx (plain 0) proposedNode = (\<lambda>h. True)"
    by (rule ext) (simp add: unknownTx_def proposedNode_def newDbft_def plain_def sampleConfig_def)
  moreover have "TransactionHashes proposedNode = Some [5, 6]" "Transactions proposedNode = []"
    "MissingTransactions proposedNode = []"
    by (simp_all add: proposedNode_def newDbft_def)
  ultimately show ?thesis using missing_transactions[of "plain 0" proposedNode] by auto
qed

subsection \<open>Commits that come before the proposal\<close>


text \<open>
  A validator sends a Commit with a wrong signature before the request; the node counts it, and
  hands over the block with only two valid signatures of three.
\<close>

definition forged :: payload where
  "forged = commitFrom 3 1 0 77"

definition earlyNode :: sdbft where
  "earlyNode = stateOf (sampleRun (plain 0) [CallStart 0, CallReceive forged])"

definition earlyCheck :: "stop + sdbft \<Rightarrow> bool" where
  "earlyCheck r =
     (case r of
        Inl e \<Rightarrow> False
      | Inr c \<Rightarrow>
          \<not> RequestSentOrReceived c \<and> slot (CommitPayloads c) 3 = Some forged
          \<and> isRun (updateExistingPayloads (plain 0) (reqFrom 1 1 0 []) c)
          \<and> (case runCalls (plain 0)
                    [CallReceive (reqFrom 1 1 0 []), CallReceive (resp 2), CallReceive (com 1)] c of
               Inl e \<Rightarrow> False
             | Inr d \<Rightarrow> blockProcessed d \<and> CommitPayloads d = [Some (com 0), Some (com 1), None, Some forged]))"

lemma early_check: "earlyCheck (sampleRun (plain 0) [CallStart 0, CallReceive forged])"
  by code_simp

lemma forged_invalid: "\<not> blockVerify (plain 0) 13 (signature (NewCommit [77])) b"
  by (simp add: plain_def sampleConfig_def NewCommit_def copyInto_def signatureSize_def)

lemma forged_commit_counts:
  "\<exists>c. sampleRun (plain 0) [CallStart 0, CallReceive forged, CallReceive (reqFrom 1 1 0 []),
      CallReceive (resp 2), CallReceive (com 1)] = Ok c
    \<and> blockProcessed c \<and> CommitPayloads c = [Some (com 0), Some (com 1), None, Some forged]"
  using early_check by (auto simp: earlyCheck_def sampleRun_def thenDo_def split: sum.splits)


subsection \<open>A primary that recovers its own request\<close>

text \<open>
  C21. The primary must not answer itself. \<open>onPrepareRequest\<close> does not ask whether the node is the
  primary of the view, so a primary that recovers its own request sends a PrepareResponse and
  files it in the slot of the request. From then on the next valid PrepareResponse of any other
  validator makes the node panic, since the payload of the primary is no PrepareRequest.
\<close>

theorem primary_answers_itself:
  assumes "wf cfg c" and "IsPrimary c" and "sendPrepareResponse cfg c = Ok d"
    and "viewNumber msg = ViewNumber c" and "unat (validatorIndex msg) \<noteq> PrimaryIndex c"
    and "slot (PreparationPayloads d) (unat (validatorIndex msg)) = None"
    and "\<not> ViewChanging cfg d" and "VerifyPrepareResponse cfg (log d) msg"
  shows "onPrepareResponse cfg msg d = Stop TypeAssertion"
proof -
  obtain m c1 where m: "makePrepareResponse cfg c = Inr (m, c1)"
    and d: "steps [emit EStopTxFlow, broadcast m] c1 = Inr d"
    using assms(3) by (auto simp: sendPrepareResponse_def thenDo_Ok_iff)
  have i: "nat (MyIndex c) = PrimaryIndex c" "PrimaryIndex c < length (PreparationPayloads c)"
    using assms(2) wf_primary[OF assms(1)] wf_tables(1)[OF assms(1)] by (simp_all add: IsPrimary_def)
  obtain r where c1: "c1 = c\<lparr>PreparationPayloads := (PreparationPayloads c)[PrimaryIndex c := Some m]\<rparr>"
    and b: "body m = PrepareResponseMsg r"
    using m i(1) by (auto simp: makePrepareResponse_def ownPayload_def Let_def split: option.splits)
  have e: "PreparationPayloads d = PreparationPayloads c1" "ViewNumber d = ViewNumber c"
    "BlockIndex d = BlockIndex c" "Validators d = Validators c"
    using d by (auto simp: emit_def broadcast_def c1)
  have p: "GetPrimaryIndex (d\<lparr>PreparationPayloads := ps\<rparr>) (ViewNumber c) = PrimaryIndex c"
    "GetPrimaryIndex d (ViewNumber c) = PrimaryIndex c" for ps
    unfolding wf_fields(5)[OF assms(1)] by (simp_all add: GetPrimaryIndex_def Let_def e(3,4))
  have "slot (PreparationPayloads d) (PrimaryIndex c) = Some m"
    using i(2) by (simp add: e(1) c1 slot_update)
  then show ?thesis
    using assms(4-8) b by (simp add: onPrepareResponse_def slot_update Let_def e(2) p)
qed

text \<open>
  Validator 0, the primary of view 1, was restarted and gets its own request back in a recovery
  message of that view, which also carries the response of validator 2.
\<close>

definition ownRequest :: payload where
  "ownRequest = reqFrom 0 1 1 []"

definition recoveredPrimary :: recoveryMessage where
  "recoveredPrimary =
     (NewRecoveryMessage (Some (sampleHash ownRequest)))
       \<lparr>rmPrepareRequest := GetPrepareRequest (body ownRequest),
        rmPreparationPayloads := [\<lparr>prcValidatorIndex = 2\<rparr>],
        rmChangeViewPayloads :=
          map (\<lambda>i. \<lparr>cvcValidatorIndex = i, cvcOriginalViewNumber = 0, cvcTimestamp = 0\<rparr>) [1, 2, 3]\<rparr>"

lemma recovering_primary_panics:
  "sampleRun (plain 0) [CallStart 0, CallReceive (recoveryFrom 2 1 1 recoveredPrimary)] = Stop TypeAssertion"
proof -
  have "case sampleRun (plain 0) [CallStart 0, CallReceive (recoveryFrom 2 1 1 recoveredPrimary)] of
      Inl e \<Rightarrow> e = TypeAssertion | Inr c \<Rightarrow> False"
    by code_simp
  then show ?thesis by (simp split: sum.splits)
qed

text \<open>The same node with a request that misses a transaction, which it has not answered yet.\<close>

definition askedCalls :: "nat call list" where
  "askedCalls = viewCalls @ [CallReceive (reqFrom 0 1 1 [5])]"

definition askedNode :: sdbft where
  "askedNode = stateOf (sampleRun (plain 0) (CallStart 0 # askedCalls))"

definition lateResp :: payload where
  "lateResp = respFrom 2 1 1 (sampleHash ownRequest)"

definition askedCheck :: "stop + sdbft \<Rightarrow> bool" where
  "askedCheck r =
     (case r of
        Inl e \<Rightarrow> False
      | Inr c \<Rightarrow> IsPrimary c \<and> ViewNumber c = 1 \<and> PrimaryIndex c = 0
          \<and> (case sendPrepareResponse (plain 0) c of
               Inl e \<Rightarrow> False
             | Inr d \<Rightarrow> slot (PreparationPayloads d) 2 = None \<and> \<not> ViewChanging (plain 0) d))"

lemma asked_check: "askedCheck (sampleRun (plain 0) (CallStart 0 # askedCalls))"
  by code_simp

theorem primary_answers_itself_witness:
  "\<exists>d. sendPrepareResponse (plain 0) askedNode = Ok d
    \<and> onPrepareResponse (plain 0) lateResp d = Stop TypeAssertion"
proof -
  obtain d where r: "sampleRun (plain 0) (CallStart 0 # askedCalls) = Inr askedNode"
    "IsPrimary askedNode" "ViewNumber askedNode = 1" "PrimaryIndex askedNode = 0"
    "sendPrepareResponse (plain 0) askedNode = Inr d"
    "slot (PreparationPayloads d) 2 = None" "\<not> ViewChanging (plain 0) d"
    using asked_check by (auto simp: askedCheck_def askedNode_def stateOf_def split: sum.splits)
  have w: "wf (plain 0) askedNode"
    using runCalls_reachable[of "plain 0" 0 askedCalls askedNode] r(1)
    by (intro reachable_wf) (simp add: sampleRun_def askedCalls_def viewCalls_def)
  have m: "viewNumber lateResp = 1" "validatorIndex lateResp = 2"
    by (simp_all add: lateResp_def respFrom_def NewConsensusPayload_def)
  have "onPrepareResponse (plain 0) lateResp d = Stop TypeAssertion"
    by (rule primary_answers_itself[OF w r(2,5)])
      (use m r in \<open>simp_all add: plain_def sampleConfig_def\<close>)
  then show ?thesis using r(5) by blast
qed

subsection \<open>The Commit that completes a quorum\<close>

lemma countView_put:
  assumes "i < length ms" and "slot ms i = None" and "viewNumber m = v"
  shows "countView v (ms[i := Some m]) = Suc (countView v ms)"
proof -
  have "ms ! i = None" using assms(1,2) by (simp add: slot_def)
  with assms(1) show ?thesis
  proof (induction ms arbitrary: i)
    case (Cons x ms)
    then show ?case using assms(3) by (cases i) (simp_all add: countView_def present_def)
  qed simp
qed

lemma checkCommit_quorum:
  assumes "hasAllTransactions c" and "ctxM c \<le> countView (ViewNumber c) (CommitPayloads c)"
    and "header c = Some h" and "\<not> isAntiMEVExtensionEnabled cfg c"
  shows "checkCommit cfg c =
     (let b = (if blockSet c then h else blockSetTransactions cfg (proposedTransactions c) h)
      in if ProcessBlock cfg (log c) b
         then Ok (c\<lparr>header := Some b, blockSet := True, log := EProcessBlock b True # log c,
                    blockProcessed := True\<rparr>)
         else Stop LoggerFatal)"
proof -
  have "isAntiMEVExtensionEnabled cfg (c\<lparr>header := x, blockSet := y, log := l\<rparr>) = False" for x y l
    using assms(4) by (simp add: isAntiMEVExtensionEnabled_def)
  moreover have "isAntiMEVExtensionEnabled cfg (c\<lparr>log := l\<rparr>) = False" for l
    using assms(4) by (simp add: isAntiMEVExtensionEnabled_def)
  ultimately show ?thesis
    using assms(1-3) by (simp add: checkCommit_def CreateBlock_def MakeHeader_def emit_def Let_def)
qed

lemma extendTimer_log:
  "\<exists>l. extendTimer cfg n c = Inr (c\<lparr>log := l\<rparr>) \<and> (l = log c \<or> (\<exists>t. l = ETimerExtend t # log c))"
proof (cases "extendTimer cfg n c = Inr c")
  case True
  then show ?thesis by (intro exI[of _ "log c"]) simp
qed (auto simp: extendTimer_def emit_def)

lemma noteSeen_eq: "\<exists>s. noteSeen msg c = c\<lparr>LastSeenMessage := s\<rparr>"
proof -
  have e: "\<exists>s. c = c\<lparr>LastSeenMessage := s\<rparr>" by (rule exI[of _ "LastSeenMessage c"]) simp
  show ?thesis unfolding noteSeen_def
  proof (split if_split, intro conjI impI)
  qed (rule exI, rule refl, rule e)
qed

text \<open>The state in which a Commit for the header at hand is stored and verified.\<close>

lemma OnReceive_Commit:
  assumes "\<not> BlockSent c" and "header c = Some h"
    and "cmType msg = CommitType" and "body msg = CommitMsg cm"
    and "height msg = BlockIndex c" and "viewNumber msg = ViewNumber c"
    and "unat (validatorIndex msg) < ctxN c"
    and "slot (CommitPayloads c) (unat (validatorIndex msg)) = None"
    and "\<forall>l. VerifyCommit cfg l msg"
    and "blockVerify cfg (Validators c ! unat (validatorIndex msg)) (signature cm) h"
  shows "\<exists>s l. (l = log c \<or> (\<exists>t. l = ETimerExtend t # log c))
    \<and> OnReceive cfg msg c = checkCommit cfg
        (c\<lparr>LastSeenMessage := s,
           CommitPayloads := (CommitPayloads c)[unat (validatorIndex msg) := Some msg], log := l\<rparr>)"
proof -
  let ?i = "unat (validatorIndex msg)"
  obtain s where s: "noteSeen msg c = c\<lparr>LastSeenMessage := s\<rparr>" using noteSeen_eq by blast
  let ?c = "c\<lparr>LastSeenMessage := s, CommitPayloads := (CommitPayloads c)[?i := Some msg]\<rparr>"
  obtain l where l: "extendTimer cfg 4 ?c = Inr (?c\<lparr>log := l\<rparr>)"
    "l = log c \<or> (\<exists>t. l = ETimerExtend t # log c)"
    using extendTimer_log[of cfg 4 ?c] by auto
  have "onCommit cfg msg (noteSeen msg c) = checkCommit cfg (?c\<lparr>log := l\<rparr>)"
    unfolding s onCommit_def Let_def using assms l(1) by (simp add: MakeHeader_def)
  moreover have "OnReceive cfg msg c = onCommit cfg msg (noteSeen msg c)"
    using assms
    by (simp add: OnReceive_def maxNesting_def numeral_eq_Suc receive_def dispatch_def ctxN_def s
        BlockSent_def Let_def)
  ultimately show ?thesis using l(2) by auto
qed

text \<open>
  C17. The deciding Commit. A well-formed node that takes part in a height without the anti-MEV
  extension has the header, all transactions and the Commits of M - 1 validators of its view. When a
  Commit of another validator with a valid signature arrives, it hands exactly the block of the
  height (the header, with the proposed transactions set) to \<open>ProcessBlock\<close> and, if the block is accepted, is done
  with the height. If \<open>ProcessBlock\<close> returns an error the whole process is stopped by \<open>Logger.Fatal\<close>.
\<close>

theorem commit_decides:
  assumes "wf cfg c" and "\<not> isAntiMEVExtensionEnabled cfg c" and "\<not> BlockSent c"
    and "header c = Some h" and "hasAllTransactions c"
    and "ctxM c \<le> Suc (countView (ViewNumber c) (CommitPayloads c))"
    and "cmType msg = CommitType" and "body msg = CommitMsg cm"
    and "height msg = BlockIndex c" and "viewNumber msg = ViewNumber c"
    and "unat (validatorIndex msg) < ctxN c"
    and "slot (CommitPayloads c) (unat (validatorIndex msg)) = None"
    and "\<forall>l. VerifyCommit cfg l msg"
    and "blockVerify cfg (Validators c ! unat (validatorIndex msg)) (signature cm) h"
  shows "\<exists>l b. (l = log c \<or> (\<exists>t. l = ETimerExtend t # log c))
    \<and> b = (if blockSet c then h else blockSetTransactions cfg (proposedTransactions c) h)
    \<and> (if ProcessBlock cfg l b
        then \<exists>d. OnReceive cfg msg c = Ok d \<and> blockProcessed d \<and> header d = Some b
                \<and> log d = EProcessBlock b True # l
        else OnReceive cfg msg c = Stop LoggerFatal)"
proof -
  let ?i = "unat (validatorIndex msg)"
  let ?b = "if blockSet c then h else blockSetTransactions cfg (proposedTransactions c) h"
  obtain s l where l: "l = log c \<or> (\<exists>t. l = ETimerExtend t # log c)"
    and r: "OnReceive cfg msg c = checkCommit cfg
        (c\<lparr>LastSeenMessage := s, CommitPayloads := (CommitPayloads c)[?i := Some msg], log := l\<rparr>)"
    (is "_ = checkCommit cfg ?c")
    using OnReceive_Commit[OF assms(3,4,7-14)] by blast
  have n: "?i < length (CommitPayloads c)" using assms(11) wf_tables(3)[OF assms(1)] by simp
  have "ctxM c \<le> countView (ViewNumber c) ((CommitPayloads c)[?i := Some msg])"
    using assms(6) countView_put[OF n assms(12,10)] by simp
  then have "checkCommit cfg ?c =
      (if ProcessBlock cfg l ?b
       then Ok (?c\<lparr>header := Some ?b, blockSet := True, log := EProcessBlock ?b True # l, blockProcessed := True\<rparr>)
       else Stop LoggerFatal)"
    using checkCommit_quorum[of ?c h cfg] assms(2,4,5)
    by (simp add: hasAllTransactions_def ctxM_def ctxF_def isAntiMEVExtensionEnabled_def
        proposedTransactions_def Let_def)
  then show ?thesis using l r by (intro exI[of _ l] exI[of _ ?b]) simp
qed

text \<open>Validator 0 waits for one more Commit, and the last one arrives.\<close>

definition waitingNode :: sdbft where
  "waitingNode = stateOf (sampleRun (plain 0) (CallStart 0 # take 3 (plainCalls 0)))"

definition waitingCheck :: "stop + sdbft \<Rightarrow> bool" where
  "waitingCheck r =
     (case r of
        Inl e \<Rightarrow> False
      | Inr c \<Rightarrow>
          \<not> isAntiMEVExtensionEnabled (plain 0) c \<and> \<not> BlockSent c \<and> hasAllTransactions c \<and> blockSet c
          \<and> header c = Some (99, 0, [10]) \<and> Validators c = [10, 11, 12, 13]
          \<and> ctxM c = 3 \<and> countView (ViewNumber c) (CommitPayloads c) = 2
          \<and> BlockIndex c = 1 \<and> ViewNumber c = 0 \<and> ctxN c = 4 \<and> slot (CommitPayloads c) 2 = None)"

lemma waiting_check: "waitingCheck (sampleRun (plain 0) (CallStart 0 # take 3 (plainCalls 0)))"
  by code_simp

theorem commit_decides_witness:
  "\<exists>d. OnReceive (plain 0) (com 2) waitingNode = Ok d \<and> blockProcessed d \<and> header d = Some (99, 0, [10])"
proof -
  have r: "sampleRun (plain 0) (CallStart 0 # take 3 (plainCalls 0)) = Inr waitingNode"
    "\<not> isAntiMEVExtensionEnabled (plain 0) waitingNode" "\<not> BlockSent waitingNode"
    "hasAllTransactions waitingNode" "blockSet waitingNode"
    "header waitingNode = Some (99, 0, [10])" "Validators waitingNode = [10, 11, 12, 13]"
    "ctxM waitingNode = 3" "countView (ViewNumber waitingNode) (CommitPayloads waitingNode) = 2"
    "BlockIndex waitingNode = 1" "ViewNumber waitingNode = 0" "ctxN waitingNode = 4"
    "slot (CommitPayloads waitingNode) 2 = None"
    using waiting_check by (auto simp: waitingCheck_def waitingNode_def stateOf_def split: sum.splits)
  have w: "wf (plain 0) waitingNode"
    using runCalls_reachable[of "plain 0" 0 "take 3 (plainCalls 0)" waitingNode] r(1)
    by (intro reachable_wf) (simp add: sampleRun_def plainCalls_def)
  have m: "height (com 2) = 1" "viewNumber (com 2) = 0" "validatorIndex (com 2) = 2"
    "body (com 2) = CommitMsg (NewCommit [12])"
    by (simp_all add: com_def commitFrom_def NewConsensusPayload_def)
  have v: "blockVerify (plain 0) 12 (signature (NewCommit [12])) (99, 0, [10])"
    "ProcessBlock (plain 0) l b" "VerifyCommit (plain 0) l p" for l b p
    by (simp_all add: plain_def sampleConfig_def NewCommit_def copyInto_def signatureSize_def)
  have i: "unat (validatorIndex (com 2)) = 2" "Validators waitingNode ! 2 = 12"
    using m(3) r(7) by simp_all
  show ?thesis
    using commit_decides[OF w r(2,3,6,4) _ com_type m(4)] r m v i by auto
qed

subsection \<open>The timeout of a round\<close>

text \<open>
  C23. The timeout of a round. As long as the block time times \<open>2 ^ (view + 1)\<close> fits into a duration
  and the clock did not run backwards since the last block, the timeout that \<open>initializeConsensus\<close>
  sets is neither negative nor larger than that product, and for a backup in a height that
  does not follow the last decided one it is exactly that product.
\<close>

theorem round_timeout_bounds:
  assumes "0 \<le> timePerBlock c" and "timePerBlock c * 2 ^ unat (ViewNumber c + 1) < 2 ^ 63"
    and "0 \<le> time_sub (TimerNow cfg (log c)) (lastBlockTime c)"
    and "0 \<le> avg (rttEstimates c)"
    and "time_sub (TimerNow cfg (log c)) (lastBlockTime c) + avg (rttEstimates c) < 2 ^ 63"
  shows "0 \<le> roundTimeout cfg view c
    \<and> roundTimeout cfg view c \<le> timePerBlock c * 2 ^ unat (ViewNumber c + 1)
    \<and> (\<not> IsPrimary c \<longrightarrow> lastBlockIndex c + 1 \<noteq> BlockIndex c \<longrightarrow>
        roundTimeout cfg view c = timePerBlock c * 2 ^ unat (ViewNumber c + 1))"
proof -
  define k where "k = timePerBlock c * 2 ^ unat (ViewNumber c + 1)"
  define t where "t = (if IsPrimary c \<and> \<not> recovering c
    then (if view = 0 then timePerBlock c else 0) else shl64 (timePerBlock c) (unat (ViewNumber c + 1)))"
  define x where "x = time_sub (TimerNow cfg (log c)) (lastBlockTime c)"
  define a where "a = go_div (avg (rttEstimates c)) 2"
  have k: "0 \<le> k" "k < 2 ^ 63" using assms(1,2) by (simp_all add: k_def)
  have s: "shl64 (timePerBlock c) (unat (ViewNumber c + 1)) = k"
    using k by (simp add: shl64_def k_def[symmetric] wrap64_id)
  have "timePerBlock c * 1 \<le> k" unfolding k_def by (rule mult_left_mono) (simp_all add: assms(1))
  then have t: "0 \<le> t" "t \<le> k" using assms(1) k by (simp_all add: t_def s)
  have a: "0 \<le> a" "a \<le> avg (rttEstimates c)"
    using assms(4) by (auto simp: a_def go_div_def sgn_if)
  have "wrap64 (wrap64 (t - x) - a) = t - x - a"
    using t a k assms(3,5) by (simp add: wrap64_id x_def[symmetric])
  then have "roundTimeout cfg view c = (if lastBlockIndex c + 1 = BlockIndex c then max 0 (t - x - a) else t)"
    by (simp add: roundTimeout_def t_def x_def a_def Let_def)
  moreover have "t = k" if "\<not> IsPrimary c" using that s by (simp add: t_def)
  ultimately show ?thesis
    using t a k assms(3) by (auto simp: k_def[symmetric] x_def[symmetric])
qed

text \<open>With a block time of 15 seconds the product first overflows in view 29.\<close>

lemma round_timeout_overflow:
  "shl64 15000000000 29 = 15000000000 * 2 ^ 29" "shl64 15000000000 30 < 0"
  by (simp_all add: shl64_def wrap64_def)

theorem round_timeout_bounds_witness:
  "roundTimeout (plain 0) 1 ((newDbft (plain 0))\<lparr>timePerBlock := 15, ViewNumber := 1, PrimaryIndex := 1,
     BlockIndex := 4\<rparr>) = 60"
proof -
  let ?c = "(newDbft (plain 0))\<lparr>timePerBlock := 15, ViewNumber := 1, PrimaryIndex := 1, BlockIndex := 4\<rparr>"
  have "timePerBlock ?c = 15" "unat (ViewNumber ?c + 1) = 2" "\<not> IsPrimary ?c"
    "lastBlockIndex ?c + 1 \<noteq> BlockIndex ?c" "avg (rttEstimates ?c) = 0"
    "time_sub (TimerNow (plain 0) (log ?c)) (lastBlockTime ?c) = 9223372036854775807"
    by (simp_all add: newDbft_def IsPrimary_def newRtt_def plain_def sampleConfig_def time_sub_def zeroTime_def)
  then show ?thesis using round_timeout_bounds[of ?c "plain 0" 1] by simp
qed

end
