(* ===== verification/Divergences.thy ===== *)
theory Divergences
  imports Handlers
begin

section \<open>Runs where the code does something else than it means to\<close>

text \<open>
  Complete runs of the concrete nodes, evaluated in the kernel, in which the handlers reach a
  state that their own comments or their other branches exclude.
\<close>

subsection \<open>A stale index in \<open>OnTransaction\<close>\<close>

text \<open>
  Validator 2 rejects every block. It misses transaction 5 of view 0, two others want view 1
  already, and the request of view 1, with the unknown transactions 6 and 7, is in its cache.
\<close>

definition rejecting :: sconfig where
  "rejecting = (plain 2)\<lparr>VerifyBlock := (\<lambda>_ _. False)\<rparr>"

definition staleCalls :: "nat call list" where
  "staleCalls =
     [CallStart 0, CallReceive (reqFrom 1 1 0 [5]), CallReceive (cvFrom 0 1 0 1),
      CallReceive (cvFrom 1 1 0 1), CallReceive (reqFrom 0 1 1 [6, 7])]"

definition missingAfter :: "stop + sdbft \<Rightarrow> (u8 \<times> Uint256 list \<times> Uint256 list) option" where
  "missingAfter r =
     (case r of
        Inl e \<Rightarrow> None
      | Inr c \<Rightarrow> Some (ViewNumber c, elems (TransactionHashes c), MissingTransactions c))"


subsection \<open>Recovered ChangeViews carry a node too far\<close>

text \<open>
  Validators 1, 2 and 3 ask for view 1; validator 0 gets there with a recovery message and sends a
  recovery message of its own, which carries validator 3, still in view 0, to view 2, where
  nobody is and nobody asked to be.
\<close>

definition firstRecovery :: payload where
  "firstRecovery =
     recoveryFrom 1 1 1 ((NewRecoveryMessage None)\<lparr>rmChangeViewPayloads :=
       map (\<lambda>i. \<lparr>cvcValidatorIndex = i, cvcOriginalViewNumber = 0, cvcTimestamp = 0\<rparr>) [1, 2, 3]\<rparr>)"

definition secondRecovery :: "payload option" where
  "secondRecovery =
     (case sampleRun (plain 0) [CallStart 0, CallReceive firstRecovery] of
        Inl e \<Rightarrow> None
      | Inr c \<Rightarrow>
          (case makeRecoveryMessage (plain 0) c of Inl e \<Rightarrow> None | Inr m \<Rightarrow> Some m))"

definition viewAfter :: "sconfig \<Rightarrow> payload option \<Rightarrow> u8 option" where
  "viewAfter cfg m =
     (case m of
        None \<Rightarrow> None
      | Some p \<Rightarrow>
          (case sampleRun cfg [CallStart 0, CallReceive p] of
             Inl e \<Rightarrow> None | Inr c \<Rightarrow> Some (ViewNumber c)))"

lemma recovery_overtakes:
  "viewAfter (plain 3) (Some firstRecovery) = Some 1"
  "viewAfter (plain 3) secondRecovery = Some 2"
  by code_simp+

subsection \<open>Smaller ones\<close>

text \<open>
  A watch-only primary proposes a block when it is started: \<open>Start\<close> tests \<open>IsPrimary\<close>, and
  \<open>MyIndex\<close> is that of the key pair.
\<close>

lemma watch_only_primary_proposes:
  "case sampleRun ((plain 1)\<lparr>cfgWatchOnly := True\<rparr>) [CallStart 0] of
     Inl e \<Rightarrow> False
   | Inr c \<Rightarrow> WatchOnly ((plain 1)\<lparr>cfgWatchOnly := True\<rparr>) c \<and> MyIndex c = 1
       \<and> list_ex (\<lambda>e. case e of EBroadcast m \<Rightarrow> cmType m = PrepareRequestType | _ \<Rightarrow> False) (log c)"
  by code_simp

text \<open>
  At height 1 a new instance believes that it decided the block before at Go's zero time, so the
  first timeout of a backup is 0 instead of the full one.
\<close>

lemma first_timeout_zero:
  "case sampleRun (plain 0) [CallStart 0] of
     Inl e \<Rightarrow> False | Inr c \<Rightarrow> take 1 (log c) = [ETimerReset 1 0 0]"
  by code_simp

text \<open>
  A watch-only node that gets the quorum of Commits before the PrepareRequest does not make the
  block when the request comes, because \<open>onPrepareRequest\<close> returns for such nodes before any check;
  in the other order it does.
\<close>

definition watching :: sconfig where
  "watching = (plain 3)\<lparr>cfgWatchOnly := True\<rparr>"

definition commitCalls :: "nat call list" where
  "commitCalls = map (CallReceive \<circ> com) [0, 1, 2]"

definition hasBlock :: "stop + sdbft \<Rightarrow> (bool \<times> nat \<times> nat) option" where
  "hasBlock r =
     (case r of
        Inl e \<Rightarrow> None
      | Inr c \<Rightarrow> Some (blockProcessed c, countView 0 (CommitPayloads c), ctxM c))"

lemma watcher_misses_block:
  "hasBlock (sampleRun watching (CallStart 0 # commitCalls @ [CallReceive (reqFrom 1 1 0 [])])) = Some (False, 3, 3)"
  "hasBlock (sampleRun watching (CallStart 0 # CallReceive (reqFrom 1 1 0 []) # commitCalls)) = Some (True, 3, 3)"
  by code_simp+

text \<open>
  A node whose \<open>VerifyBlock\<close> rejected the proposal asks for a view change, but signs a Commit for it
  nevertheless once more than F others have committed and enough PrepareResponses arrive: the
  request stays stored, and \<open>checkPrepare\<close> does not know of the rejection.
\<close>

definition rejectedCalls :: "nat call list" where
  "rejectedCalls = [CallStart 0, CallReceive (reqFrom 1 1 0 [])]
     @ map CallReceive [com 0, com 1, resp 0, resp 3]"

lemma rejected_block_committed:
  "case sampleRun rejecting rejectedCalls of
     Inl e \<Rightarrow> False
   | Inr c \<Rightarrow> List.map_filter (\<lambda>e. case e of EBroadcast m \<Rightarrow> Some (cmType m) | _ \<Rightarrow> None) (log c) = [CommitType, ChangeViewType]"
  by code_simp

end
