(* ===== verification/Keeping.thy ===== *)
theory Keeping
  imports Refinement
begin

section \<open>Predicates that the code keeps\<close>

text \<open>
  A small Hoare logic for invariants of the operations: \<open>keeps P f\<close> says that the statement \<open>f\<close>, when
  it returns, preserves \<open>P\<close>. The rules are collected in \<open>keep\<close>, so that \<open>intro keep\<close> takes a handler
  apart. A predicate that ignores what the sending and checking half of the code changes is kept
  by all of it (locale \<open>indifferent\<close>).
\<close>

subsection \<open>Statements that keep a predicate\<close>

definition keeps :: "('s \<Rightarrow> bool) \<Rightarrow> 's act \<Rightarrow> bool" where
  "keeps P f \<longleftrightarrow> (\<forall>c d. P c \<longrightarrow> f c = Inr d \<longrightarrow> P d)"

named_theorems keep \<open>statements that keep a predicate\<close>

lemma keepsI: "(\<And>c d. P c \<Longrightarrow> f c = Inr d \<Longrightarrow> P d) \<Longrightarrow> keeps P f"
  unfolding keeps_def by blast

lemma keepsD: "keeps P f \<Longrightarrow> P c \<Longrightarrow> f c = Inr d \<Longrightarrow> P d"
  unfolding keeps_def by blast

lemma keeps_Ok [keep]:
  assumes "\<And>c. P c \<Longrightarrow> P (g c)"
  shows "keeps P (\<lambda>c. Ok (g c))"
  by (rule keepsI) (metis assms sum.inject(2))

lemma keeps_if [keep]:
  assumes "keeps P f" and "keeps P g"
  shows "keeps P (\<lambda>c. if b c then f c else g c)"
proof (rule keepsI)
  fix c d
  assume c: "P c" and r: "(if b c then f c else g c) = Inr d"
  show "P d"
  proof (cases "b c")
    case True
    with r show ?thesis by (intro keepsD[OF assms(1) c]) simp
  next
    case False
    with r show ?thesis by (intro keepsD[OF assms(2) c]) simp
  qed
qed

lemma keeps_Nil [keep]: "keeps P (steps [])"
  by (rule keepsI) simp

lemma keeps_Cons [keep]:
  assumes "keeps P f" and "keeps P (steps fs)"
  shows "keeps P (steps (f # fs))"
proof (rule keepsI)
  fix c d
  assume c: "P c" and "steps (f # fs) c = Inr d"
  then obtain t where t: "f c = Inr t" "steps fs t = Inr d" by (auto simp: thenDo_Ok_iff)
  show "P d" by (rule keepsD[OF assms(2) keepsD[OF assms(1) c t(1)] t(2)])
qed

lemma keeps_forEach [keep]:
  assumes "\<And>x. keeps P (f x)"
  shows "keeps P (forEach f xs)"
proof (rule keepsI)
  fix c d
  assume "P c" and "forEach f xs c = Inr d"
  then show "P d" using forEach_inv[where P = P and f = f and xs = xs] keepsD[OF assms] by blast
qed

text \<open>
  A predicate that does not look at the fields which the sending and checking half of the code
  changes is kept by all of it.
\<close>

locale indifferent =
  fixes cfg :: "('tx, 'b, 'pb, 'pub, 'priv) config"
    and P :: "('tx, 'b, 'pb, 'pub, 'priv) dbft \<Rightarrow> bool"
  assumes P_upd [simp]: "P (c\<lparr>log := l\<rparr>) = P c"
    "P (c\<lparr>txSubscriptionOn := x\<rparr>) = P c"
    "P (c\<lparr>prepareSentTime := t\<rparr>) = P c"
    "P (c\<lparr>ChangeViewPayloads := ps\<rparr>) = P c"
    "P (c\<lparr>CommitPayloads := ps\<rparr>) = P c"
    "P (c\<lparr>PreCommitPayloads := ps\<rparr>) = P c"
    "P (c\<lparr>header := h\<rparr>) = P c"
    "P (c\<lparr>preHeader := ph\<rparr>) = P c"
    "P (c\<lparr>blockSet := x\<rparr>) = P c"
    "P (c\<lparr>preBlockSet := x\<rparr>) = P c"
    "P (c\<lparr>blockProcessed := x\<rparr>) = P c"
    "P (c\<lparr>preBlockProcessed := x\<rparr>) = P c"
    "P (c\<lparr>lastBlockTime := t\<rparr>) = P c"
    "P (c\<lparr>lastBlockIndex := j\<rparr>) = P c"
    "P (c\<lparr>lastBlockView := v\<rparr>) = P c"
    and P_put: "P c \<Longrightarrow> P (c\<lparr>PreparationPayloads := (PreparationPayloads c)[i := Some m]\<rparr>)"
begin

lemma emit_keeps [keep]: "keeps P (emit e)"
  by (simp add: keeps_def emit_def)

lemma subscribe_keeps [keep]: "keeps P subscribeForTransactions" "keeps P unsubscribeFromTransactions"
  by (simp_all add: keeps_def subscribeForTransactions_def unsubscribeFromTransactions_def)

lemma changeTimer_keeps [keep]: "keeps P (\<lambda>c. changeTimer (t c) c)"
  by (simp add: keeps_def changeTimer_def emit_def)

lemma extendTimer_keeps [keep]: "keeps P (extendTimer cfg k)"
  by (simp add: keeps_def extendTimer_def emit_def)

lemma broadcast_keeps [keep]: "keeps P (broadcast m)"
  by (simp add: keeps_def broadcast_def emit_def)

lemma header_keeps:
  "P c \<Longrightarrow> MakeHeader cfg c = (b, d) \<Longrightarrow> P d"
  "P c \<Longrightarrow> MakePreHeader cfg c = (pb, d) \<Longrightarrow> P d"
  by (auto simp: MakeHeader_def MakePreHeader_def Let_def split: if_splits)

lemma block_keeps:
  "P c \<Longrightarrow> CreateBlock cfg c = (b, d) \<Longrightarrow> P d"
  "P c \<Longrightarrow> CreatePreBlock cfg c = (pb, d) \<Longrightarrow> P d"
  by (auto simp: CreateBlock_def CreatePreBlock_def Let_def dest: header_keeps
      split: if_splits prod.splits option.splits)

lemma makeChangeView_keeps: "P c \<Longrightarrow> makeChangeView cfg ts r c = (m, d) \<Longrightarrow> P d"
  by (auto simp: makeChangeView_def Let_def)

lemma makePrepareResponse_keeps: "P c \<Longrightarrow> makePrepareResponse cfg c = Inr (m, d) \<Longrightarrow> P d"
  by (auto simp: makePrepareResponse_def Let_def P_put split: option.splits)

lemma makePreCommit_keeps: "P c \<Longrightarrow> makePreCommit cfg c = Inr (m, d) \<Longrightarrow> P d"
  by (auto simp: makePreCommit_def Let_def thenDo_Ok_iff dest: block_keeps split: prod.splits option.splits)

lemma makeCommit_keeps: "P c \<Longrightarrow> makeCommit cfg c = (m, d) \<Longrightarrow> P d"
  by (auto simp: makeCommit_def Let_def dest: header_keeps split: prod.splits option.splits)

lemma sendPreCommit_keeps [keep]: "keeps P (sendPreCommit cfg)"
  by (rule keepsI)
    (auto simp: sendPreCommit_def thenDo_Ok_iff broadcast_def emit_def dest: makePreCommit_keeps split: option.splits)

lemma sendCommit_keeps [keep]: "keeps P (sendCommit cfg)"
  by (rule keepsI)
    (auto simp: sendCommit_def broadcast_def emit_def dest: makeCommit_keeps split: prod.splits option.splits)

lemma sendPrepareResponse_keeps [keep]: "keeps P (sendPrepareResponse cfg)"
  by (rule keepsI)
    (auto simp: sendPrepareResponse_def thenDo_Ok_iff broadcast_def emit_def dest: makePrepareResponse_keeps)

lemma verifyPreCommitAt_keeps [keep]: "keeps P (verifyPreCommitAt cfg i)"
  by (rule keepsI) (auto simp: verifyPreCommitAt_def dest: block_keeps split: option.splits prod.splits if_splits)

lemma verifyCommitAt_keeps [keep]: "keeps P (verifyCommitAt cfg i)"
  by (rule keepsI) (auto simp: verifyCommitAt_def dest: header_keeps split: option.splits prod.splits if_splits)

lemma verifyPayloads_keeps [keep]:
  "keeps P (verifyPreCommitPayloadsAgainstPreBlock cfg)" "keeps P (verifyCommitPayloadsAgainstHeader cfg)"
proof -
  have 1: "keeps P (forEach (verifyPreCommitAt cfg) xs)" "keeps P (forEach (verifyCommitAt cfg) xs)" for xs
    by (intro keep)+
  show "keeps P (verifyPreCommitPayloadsAgainstPreBlock cfg)"
    by (rule keepsI) (auto simp: verifyPreCommitPayloadsAgainstPreBlock_def dest: keepsD[OF 1(1)] split: if_splits)
  show "keeps P (verifyCommitPayloadsAgainstHeader cfg)"
    by (rule keepsI) (auto simp: verifyCommitPayloadsAgainstHeader_def dest: keepsD[OF 1(2)])
qed

lemma checkCommit_keeps [keep]: "keeps P (checkCommit cfg)"
  by (rule keepsI)
    (auto simp: checkCommit_def emit_def Let_def dest: block_keeps split: if_splits prod.splits option.splits)

lemma processPreBlock_keeps: "P c \<Longrightarrow> processPreBlock cfg pb c = Inr (go, d) \<Longrightarrow> P d"
  by (auto simp: processPreBlock_def Let_def split: if_splits option.splits)

lemma checkPreCommit_keeps [keep]: "keeps P (checkPreCommit cfg)"
proof (rule keepsI)
  fix c d
  assume c: "P c" "checkPreCommit cfg c = Inr d"
  have s: "keeps P (steps [verifyCommitPayloadsAgainstHeader cfg, sendCommit cfg,
      (\<lambda>c. changeTimer (timePerBlock c) c), checkCommit cfg])"
    by (intro keep)
  obtain pb c1 where b: "CreatePreBlock cfg c = (pb, c1)" by fastforce
  have p: "P t" if "processPreBlock cfg pb c1 = Inr (go, t)" for go t
    using processPreBlock_keeps[OF block_keeps(2)[OF c(1) b] that] .
  show "P d"
    using c b by (auto simp: checkPreCommit_def thenDo_Ok_iff simp del: steps.simps
        intro: keepsD[OF s] dest!: p split: if_splits)
qed

lemma checkPrepare_keeps [keep]: "keeps P (checkPrepare cfg)"
proof (rule keepsI)
  fix c d
  assume c: "P c" "checkPrepare cfg c = Inr d"
  have s: "keeps P (steps [sendPreCommit cfg, (\<lambda>c. changeTimer (timePerBlock c) c), checkPreCommit cfg])"
    "keeps P (steps [sendCommit cfg, (\<lambda>c. changeTimer (timePerBlock c) c), checkCommit cfg])"
    by (intro keep)+
  have "P (noteBlockTime cfg c)" using c(1) by (simp add: noteBlockTime_def)
  then show "P d"
    using c(2) by (auto simp: checkPrepare_def Let_def simp del: steps.simps
        intro: keepsD[OF s(1)] keepsD[OF s(2)] split: if_splits)
qed

lemma updateExistingPayloads_keeps:
  assumes "\<And>i. keeps P (dropOtherResponse cfg msg i)"
  shows "keeps P (updateExistingPayloads cfg msg)"
proof (rule keepsI)
  fix c d
  assume c: "P c" and u: "updateExistingPayloads cfg msg c = Inr d"
  have l: "keeps P (forEach (dropOtherResponse cfg msg) xs)" for xs
    by (intro keep assms)
  show "P d"
    using u by (auto simp: updateExistingPayloads_def thenDo_Ok_iff
        dest!: keepsD[OF l c] intro: keepsD[OF verifyPayloads_keeps(1)]
          keepsD[OF verifyPayloads_keeps(2)] split: if_splits)
qed

end

end
