(* ===== verification/Merkle.thy ===== *)
theory Merkle
  imports Prelude
begin

section \<open>Merkle trees\<close>

text \<open>
  \<open>internal/merkle/merkle_tree.go\<close>. A \<open>TreeNode\<close> is a leaf (both child pointers nil) or an inner
  node; the children are shared in Go only for reading, so the tree is a value. The \<open>Parent\<close>
  pointers, which the code sets and only \<open>IsRoot\<close> reads, are left out. The hash function
  (\<open>crypto.Hash256\<close>) is the parameter \<open>H\<close>.
\<close>

datatype TreeNode = Leaf (nodeHash: Uint256)
  | Inner (nodeHash: Uint256) (nodeLeft: TreeNode) (nodeRight: TreeNode)

definition joinHashes :: "Uint256 \<Rightarrow> Uint256 \<Rightarrow> byte list" where
  "joinHashes l r = le_bytes 32 l @ le_bytes 32 r"

text \<open>One iteration of the loop of \<open>buildTree\<close>, and the loop.\<close>

definition parentAt :: "(byte list \<Rightarrow> Uint256) \<Rightarrow> TreeNode list \<Rightarrow> nat \<Rightarrow> TreeNode" where
  "parentAt H leaves i =
     (let l = leaves ! (i * 2);
          r = (if i * 2 + 1 = length leaves then l else leaves ! (i * 2 + 1))
      in Inner (H (joinHashes (nodeHash l) (nodeHash r))) l r)"

definition parentsOf :: "(byte list \<Rightarrow> Uint256) \<Rightarrow> TreeNode list \<Rightarrow> TreeNode list" where
  "parentsOf H leaves = map (parentAt H leaves) [0..<(length leaves + 1) div 2]"

text \<open>\<open>buildTree\<close> calls itself for ever when it is given no leaves: not returning is \<open>None\<close>.\<close>

partial_function (option) buildTree ::
    "(byte list \<Rightarrow> Uint256) \<Rightarrow> TreeNode list \<Rightarrow> TreeNode option" where
  "buildTree H leaves =
     (if length leaves = 1 then Some (leaves ! 0) else buildTree H (parentsOf H leaves))"

fun depthLeft :: "TreeNode \<Rightarrow> nat" where
  "depthLeft (Leaf h) = 0"
| "depthLeft (Inner h l r) = Suc (depthLeft l)"

record Tree =
  Depth :: nat
  treeRoot :: TreeNode

text \<open>The outer option is termination, the inner one Go's nil tree.\<close>

definition NewMerkleTree :: "(byte list \<Rightarrow> Uint256) \<Rightarrow> Uint256 list \<Rightarrow> Tree option option" where
  "NewMerkleTree H hashes =
     (if hashes = [] then Some None
      else map_option (\<lambda>r. Some \<lparr>Depth = 1 + depthLeft r, treeRoot = r\<rparr>)
             (buildTree H (map Leaf hashes)))"

definition IsLeaf :: "TreeNode \<Rightarrow> bool" where
  "IsLeaf n = (case n of Leaf h \<Rightarrow> True | Inner h l r \<Rightarrow> False)"

subsection \<open>Pairing up a level\<close>

fun pairUp :: "('a \<Rightarrow> 'a \<Rightarrow> 'b) \<Rightarrow> 'a list \<Rightarrow> 'b list" where
  "pairUp f [] = []"
| "pairUp f [x] = [f x x]"
| "pairUp f (x # y # xs) = f x y # pairUp f xs"

definition joinNodes :: "(byte list \<Rightarrow> Uint256) \<Rightarrow> TreeNode \<Rightarrow> TreeNode \<Rightarrow> TreeNode" where
  "joinNodes H l r = Inner (H (joinHashes (nodeHash l) (nodeHash r))) l r"

lemma length_pairUp [simp]: "length (pairUp f xs) = (length xs + 1) div 2"
  by (induction f xs rule: pairUp.induct) simp_all

lemma nth_pairUp:
  "i < (length xs + 1) div 2 \<Longrightarrow>
     pairUp f xs ! i = f (xs ! (i * 2)) (if i * 2 + 1 = length xs then xs ! (i * 2) else xs ! (i * 2 + 1))"
proof (induction f xs arbitrary: i rule: pairUp.induct)
  case (3 f x y xs)
  show ?case
  proof (cases i)
    case (Suc j)
    then show ?thesis using 3 by (cases "length xs = Suc (j * 2)") auto
  qed simp
qed simp_all

lemma parentsOf_pairUp: "parentsOf H leaves = pairUp (joinNodes H) leaves"
  by (rule nth_equalityI)
    (simp_all add: parentsOf_def parentAt_def joinNodes_def nth_pairUp Let_def del: upt_Suc)

lemma pairUp_map:
  assumes "\<And>x y. g (f x y) = f' (h x) (h y)"
  shows "map g (pairUp f xs) = pairUp f' (map h xs)"
  by (induction xs rule: induct_list012) (simp_all add: assms)

lemma pairUp_take: "take k (pairUp f xs) = pairUp f (take (2 * k) xs)"
proof (induction f xs arbitrary: k rule: pairUp.induct)
  case (2 f x)
  then show ?case by (cases k) simp_all
next
  case (3 f x y xs)
  then show ?case by (cases k) simp_all
qed simp

lemma pairUp_drop: "drop k (pairUp f xs) = pairUp f (drop (2 * k) xs)"
proof (induction f xs arbitrary: k rule: pairUp.induct)
  case (2 f x)
  then show ?case by (cases k) simp_all
next
  case (3 f x y xs)
  then show ?case by (cases k) simp_all
qed simp

lemma pairUp_eq_Nil [simp]: "pairUp f xs = [] \<longleftrightarrow> xs = []"
  by (cases "(f, xs)" rule: pairUp.cases) simp_all

lemma pairUp_last: "odd (length xs) \<Longrightarrow> pairUp f (xs @ [last xs]) = pairUp f xs"
  by (induction f xs rule: pairUp.induct) auto

subsection \<open>The reference: a complete binary tree\<close>

text \<open>
  \<open>hashTree H d xs\<close> is the hash of the complete binary tree of \<open>d\<close> levels above the leaves \<open>xs\<close>,
  top down: a subtree without leaves of its own repeats its left sibling.
\<close>

definition joined :: "(byte list \<Rightarrow> Uint256) \<Rightarrow> Uint256 \<Rightarrow> Uint256 \<Rightarrow> Uint256" where
  "joined H l r = H (joinHashes l r)"

fun hashTree :: "(byte list \<Rightarrow> Uint256) \<Rightarrow> nat \<Rightarrow> Uint256 list \<Rightarrow> Uint256" where
  "hashTree H 0 xs = hd xs"
| "hashTree H (Suc d) xs =
     (if length xs \<le> 2 ^ d then joined H (hashTree H d xs) (hashTree H d xs)
      else joined H (hashTree H d (take (2 ^ d) xs)) (hashTree H d (drop (2 ^ d) xs)))"

lemma hashTree_pairUp:
  "xs \<noteq> [] \<Longrightarrow> length xs \<le> 2 ^ Suc d \<Longrightarrow> hashTree H (Suc d) xs = hashTree H d (pairUp (joined H) xs)"
proof (induction d arbitrary: xs)
  case 0
  then show ?case by (cases "(joined H, xs)" rule: pairUp.cases) auto
next
  case (Suc d)
  let ?ps = "pairUp (joined H) xs"
  show ?case
  proof (cases "length xs \<le> 2 ^ Suc d")
    case True
    have "hashTree H (Suc (Suc d)) xs = joined H (hashTree H (Suc d) xs) (hashTree H (Suc d) xs)"
      using True by simp
    also have "\<dots> = joined H (hashTree H d ?ps) (hashTree H d ?ps)"
      by (simp only: Suc.IH[OF Suc.prems(1) True])
    also have "\<dots> = hashTree H (Suc d) ?ps"
    proof -
      have "length ?ps \<le> 2 ^ d" using True by simp
      then show ?thesis by (simp only: hashTree.simps if_True)
    qed
    finally show ?thesis .
  next
    case False
    let ?k = "2 ^ d :: nat"
    have big: "\<not> length ?ps \<le> ?k" using False by simp
    have "hashTree H (Suc (Suc d)) xs
        = joined H (hashTree H (Suc d) (take (2 * ?k) xs)) (hashTree H (Suc d) (drop (2 * ?k) xs))"
      using False by simp
    also have "hashTree H (Suc d) (take (2 * ?k) xs) = hashTree H d (take ?k ?ps)"
      unfolding pairUp_take by (rule Suc.IH) (use Suc.prems(1) in auto)
    also have "hashTree H (Suc d) (drop (2 * ?k) xs) = hashTree H d (drop ?k ?ps)"
      unfolding pairUp_drop by (rule Suc.IH) (use Suc.prems(2) False in auto)
    finally show ?thesis using big by simp
  qed
qed

text \<open>The number of levels above \<open>n\<close> leaves.\<close>

fun levels :: "nat \<Rightarrow> nat" where
  "levels n = (if n \<le> 1 then 0 else Suc (levels ((n + 1) div 2)))"

declare levels.simps [simp del]

lemma levels_le1 [simp]: "n \<le> 1 \<Longrightarrow> levels n = 0"
  by (simp add: levels.simps)

lemma levels_gt1: "1 < n \<Longrightarrow> levels n = Suc (levels ((n + 1) div 2))"
  by (subst levels.simps) simp

lemma levels_bound: "n \<le> 2 ^ levels n"
proof (induction n rule: levels.induct)
  case (1 n)
  show ?case
  proof (cases "n \<le> 1")
    case False
    then have "(n + 1) div 2 \<le> 2 ^ levels ((n + 1) div 2)" by (rule 1)
    then have "n \<le> 2 * 2 ^ levels ((n + 1) div 2)" by linarith
    then show ?thesis using False by (simp add: levels_gt1)
  qed simp
qed

lemma levels_least: "1 < n \<Longrightarrow> 2 ^ (levels n - 1) < n"
proof (induction n rule: levels.induct)
  case (1 n)
  let ?m = "(n + 1) div 2"
  have l: "levels n = Suc (levels ?m)" by (rule levels_gt1[OF 1(2)])
  show ?case
  proof (cases "1 < ?m")
    case True
    then have "2 ^ (levels ?m - 1) < ?m" using 1 by simp
    moreover obtain k where "levels ?m = Suc k" using levels_gt1[OF True] by simp
    ultimately show ?thesis using l by auto
  next
    case False
    then have "levels ?m = 0" by simp
    then show ?thesis using l 1(2) by simp
  qed
qed

subsection \<open>\<open>buildTree\<close> returns\<close>

lemma buildTree_tree:
  "ns \<noteq> [] \<Longrightarrow> (\<forall>n \<in> set ns. depthLeft n = k) \<Longrightarrow>
     \<exists>t. buildTree H ns = Some t \<and> depthLeft t = k + levels (length ns)
       \<and> nodeHash t = hashTree H (levels (length ns)) (map nodeHash ns)"
proof (induction "length ns" arbitrary: ns k rule: less_induct)
  case less
  show ?case
  proof (cases "length ns = 1")
    case True
    then obtain n where "ns = [n]" by (cases ns) auto
    then show ?thesis using less(3) by (simp add: buildTree.simps)
  next
    case False
    let ?ps = "pairUp (joinNodes H) ns"
    have n: "1 < length ns" using False less(2) by (cases ns) auto
    have d: "\<forall>n \<in> set ?ps. depthLeft n = Suc k"
      using less(3) by (induction "joinNodes H" ns rule: pairUp.induct) (auto simp: joinNodes_def)
    have lev: "levels (length ns) = Suc (levels (length ?ps))"
      using levels_gt1[OF n] by simp
    obtain t where t: "buildTree H ?ps = Some t" "depthLeft t = Suc k + levels (length ?ps)"
      "nodeHash t = hashTree H (levels (length ?ps)) (map nodeHash ?ps)"
    proof -
      have "length ?ps < length ns" "?ps \<noteq> []" using n less(2) by auto
      then show thesis using less(1)[OF _ _ d] that by blast
    qed
    have "map nodeHash ?ps = pairUp (joined H) (map nodeHash ns)"
      by (rule pairUp_map) (simp add: joinNodes_def joined_def)
    then have "nodeHash t = hashTree H (levels (length ns)) (map nodeHash ns)"
      using t(3) hashTree_pairUp[of "map nodeHash ns" "levels (length ?ps)" H] less(2)
        levels_bound[of "length ns"] lev by simp
    moreover have "buildTree H ns = Some t"
      using False t(1) by (subst buildTree.simps) (simp add: parentsOf_pairUp)
    ultimately show ?thesis using t(2) lev by simp
  qed
qed

lemma NewMerkleTree_Some:
  assumes "xs \<noteq> []"
  obtains t where "NewMerkleTree H xs = Some (Some t)" and "Depth t = 1 + levels (length xs)"
    and "nodeHash (treeRoot t) = hashTree H (levels (length xs)) xs"
proof -
  obtain r where r: "buildTree H (map Leaf xs) = Some r" "depthLeft r = 0 + levels (length (map Leaf xs))"
    "nodeHash r = hashTree H (levels (length (map Leaf xs))) (map nodeHash (map Leaf xs))"
    using buildTree_tree[of "map Leaf xs" 0 H] assms by auto
  show thesis
    by (rule that[of "\<lparr>Depth = 1 + depthLeft r, treeRoot = r\<rparr>"])
      (use r assms in \<open>simp_all add: NewMerkleTree_def comp_def\<close>)
qed

lemma NewMerkleTree_root:
  assumes "NewMerkleTree H xs = Some (Some t)"
  shows "xs \<noteq> []" and "Depth t = 1 + levels (length xs)"
    and "nodeHash (treeRoot t) = hashTree H (levels (length xs)) xs"
proof -
  show n: "xs \<noteq> []" using assms by (auto simp: NewMerkleTree_def)
  obtain u where u: "NewMerkleTree H xs = Some (Some u)" "Depth u = 1 + levels (length xs)"
    "nodeHash (treeRoot u) = hashTree H (levels (length xs)) xs"
    by (rule NewMerkleTree_Some[OF n])
  have "u = t" using assms u(1) by (simp only: option.inject)
  then show "Depth t = 1 + levels (length xs)"
    and "nodeHash (treeRoot t) = hashTree H (levels (length xs)) xs"
    using u(2,3) by (simp_all only:)
qed

lemma buildTree_Nil: "buildTree H [] = None"
proof -
  have "ls \<noteq> []" if "buildTree H ls = Some t" for ls t
    by (rule buildTree.raw_induct[where P = "\<lambda>H ls t. ls \<noteq> []", OF _ that])
      (simp add: parentsOf_pairUp split: if_split_asm; fastforce)
  then show ?thesis by (cases "buildTree H []") auto
qed

subsection \<open>What the root commits to\<close>

text \<open>Everything that is hashed while the tree over \<open>xs\<close> is built.\<close>

function hashedData :: "(byte list \<Rightarrow> Uint256) \<Rightarrow> Uint256 list \<Rightarrow> byte list list" where
  "hashedData H xs =
     (if length xs \<le> 1 then []
      else pairUp joinHashes xs @ hashedData H (pairUp (joined H) xs))"
  by pat_completeness auto

termination by (relation "measure (\<lambda>(H, xs). length xs)") auto

declare hashedData.simps [simp del]

lemma pairUp_joined: "pairUp (joined H) xs = map H (pairUp joinHashes xs)"
  by (induction xs rule: induct_list012) (simp_all add: joined_def)

lemma joinHashes_inject: "joinHashes a b = joinHashes c d \<Longrightarrow> a = c \<and> b = d"
proof -
  assume "joinHashes a b = joinHashes c d"
  then have "le_bytes 32 a = le_bytes 32 c" "le_bytes 32 b = le_bytes 32 d"
    by (simp_all add: joinHashes_def)
  then have "(le_word (le_bytes 32 a) :: Uint256) = le_word (le_bytes 32 c)"
    "(le_word (le_bytes 32 b) :: Uint256) = le_word (le_bytes 32 d)" by simp_all
  then show "a = c \<and> b = d" by (simp add: le_word_le_bytes)
qed

lemma pairUp_join_inject:
  "length xs = length ys \<Longrightarrow> pairUp joinHashes xs = pairUp joinHashes ys \<Longrightarrow> xs = ys"
proof (induction xs arbitrary: ys rule: induct_list012)
  case (2 x)
  then obtain y where "ys = [y]" by (cases ys) auto
  then show ?case using 2(2) by (auto dest: joinHashes_inject)
next
  case (3 x y zs)
  then obtain a b cs where "ys = a # b # cs" by (cases ys; cases "tl ys") auto
  then show ?case using 3 by (auto dest: joinHashes_inject)
qed simp

lemma hashTree_binding:
  "length xs = length ys \<Longrightarrow> xs \<noteq> [] \<Longrightarrow>
     inj_on H (set (hashedData H xs) \<union> set (hashedData H ys)) \<Longrightarrow>
     hashTree H (levels (length xs)) xs = hashTree H (levels (length xs)) ys \<Longrightarrow> xs = ys"
proof (induction "length xs" arbitrary: xs ys rule: less_induct)
  case less
  show ?case
  proof (cases "length xs \<le> 1")
    case True
    then show ?thesis using less(2-5) by (cases xs; cases ys) auto
  next
    case False
    let ?px = "pairUp (joined H) xs" and ?py = "pairUp (joined H) ys"
    have lev: "levels (length xs) = Suc (levels (length ?px))"
      using levels_gt1[of "length xs"] False by simp
    have dx: "hashedData H xs = pairUp joinHashes xs @ hashedData H ?px"
      and dy: "hashedData H ys = pairUp joinHashes ys @ hashedData H ?py"
      using False less(2) by (simp_all add: hashedData.simps[of H xs] hashedData.simps[of H ys])
    have "?px = ?py"
    proof (rule less(1))
      show "length ?px < length xs" "length ?px = length ?py" "?px \<noteq> []"
        using False less(2,3) by auto
      show "inj_on H (set (hashedData H ?px) \<union> set (hashedData H ?py))"
        by (rule inj_on_subset[OF less(4)]) (auto simp: dx dy)
      have b: "length xs \<le> 2 ^ Suc (levels (length ?px))"
        using levels_bound[of "length xs"] lev by simp
      have "hashTree H (levels (length xs)) xs = hashTree H (levels (length ?px)) ?px"
        unfolding lev by (rule hashTree_pairUp[OF less(3) b])
      moreover have "hashTree H (levels (length xs)) ys = hashTree H (levels (length ?px)) ?py"
        unfolding lev by (rule hashTree_pairUp) (use less(2,3) b in auto)
      ultimately show "hashTree H (levels (length ?px)) ?px = hashTree H (levels (length ?px)) ?py"
        using less(5) by (simp only:)
    qed
    moreover have "inj_on H (set (pairUp joinHashes xs) \<union> set (pairUp joinHashes ys))"
      by (rule inj_on_subset[OF less(4)]) (auto simp: dx dy)
    ultimately have "pairUp joinHashes xs = pairUp joinHashes ys"
      unfolding pairUp_joined by (simp add: inj_on_map_eq_map)
    then show ?thesis by (rule pairUp_join_inject[OF less(2)])
  qed
qed

lemma hashTree_repeat_last:
  assumes "odd (length xs)" and "1 < length xs"
  shows "levels (length (xs @ [last xs])) = levels (length xs)"
    and "hashTree H (levels (length xs)) (xs @ [last xs]) = hashTree H (levels (length xs)) xs"
proof -
  have h: "(length xs + 1 + 1) div 2 = (length xs + 1) div 2" using assms(1) by presburger
  have "levels (length xs + 1) = levels (length xs)"
    using levels_gt1[of "length xs"] levels_gt1[of "length xs + 1"] assms(2) h by (simp only: less_add_one trans_less_add1)
  then show e: "levels (length (xs @ [last xs])) = levels (length xs)" by simp
  obtain d where d: "levels (length xs) = Suc d" using levels_gt1[OF assms(2)] by simp
  have "length xs \<le> 2 ^ Suc d" "length (xs @ [last xs]) \<le> 2 ^ Suc d"
    using levels_bound[of "length xs"] levels_bound[of "length (xs @ [last xs])"] e d by simp_all
  then show "hashTree H (levels (length xs)) (xs @ [last xs]) = hashTree H (levels (length xs)) xs"
    unfolding d using assms pairUp_last[OF assms(1), of "joined H"]
    by (subst (1 2) hashTree_pairUp) auto
qed

subsection \<open>Properties\<close>

definition sampleMix :: "byte list \<Rightarrow> Uint256" where
  "sampleMix bs = le_word (take 32 bs) + 5 * le_word (drop 32 bs) + 1"

text \<open>
  C35. The Merkle tree. Over any non-empty list of hashes \<open>NewMerkleTree\<close> returns, its root is the
  hash of the complete binary tree over the list, and its depth is the least that has room for
  the leaves.
\<close>

theorem merkle_tree_complete:
  assumes "xs \<noteq> []"
  shows "\<exists>t. NewMerkleTree H xs = Some (Some t) \<and> nodeHash (treeRoot t) = hashTree H (Depth t - 1) xs
    \<and> length xs \<le> 2 ^ (Depth t - 1) \<and> (Depth t = 1 \<or> 2 ^ (Depth t - 2) < length xs)"
proof -
  obtain t where t: "NewMerkleTree H xs = Some (Some t)" "Depth t = 1 + levels (length xs)"
    "nodeHash (treeRoot t) = hashTree H (levels (length xs)) xs"
    by (rule NewMerkleTree_Some[OF assms])
  have "Depth t = 1 \<or> 2 ^ (Depth t - 2) < length xs"
    using t(2) levels_least[of "length xs"] by (cases "1 < length xs") simp_all
  then show ?thesis using t levels_bound[of "length xs"] by auto
qed

theorem merkle_tree_complete_witness:
  "\<exists>t. NewMerkleTree sampleMix [1, 2, 3] = Some (Some t)
    \<and> nodeHash (treeRoot t) = hashTree sampleMix (Depth t - 1) [1, 2, 3]
    \<and> length [1, 2, 3 :: Uint256] \<le> 2 ^ (Depth t - 1) \<and> (Depth t = 1 \<or> 2 ^ (Depth t - 2) < length [1, 2, 3 :: Uint256])"
  by (rule merkle_tree_complete) simp

text \<open>
  Binding. If no two of the byte strings hashed for two lists of the same length collide,
  equal roots mean equal lists.
\<close>

theorem merkle_binding:
  assumes "NewMerkleTree H xs = Some (Some t)" and "NewMerkleTree H ys = Some (Some u)"
    and "length xs = length ys" and "inj_on H (set (hashedData H xs) \<union> set (hashedData H ys))"
    and "nodeHash (treeRoot t) = nodeHash (treeRoot u)"
  shows "xs = ys"
proof -
  note t = NewMerkleTree_root[OF assms(1)] and u = NewMerkleTree_root[OF assms(2)]
  have "hashTree H (levels (length xs)) xs = hashTree H (levels (length xs)) ys"
    using t(3) u(3) assms(3,5) by (simp only:)
  then show ?thesis by (rule hashTree_binding[OF assms(3) t(1) assms(4)])
qed

lemma sample_mix_inj: "inj_on sampleMix (set (hashedData sampleMix [1, 2, 3]))"
proof -
  have mix: "sampleMix (joinHashes a b) = a + 5 * b + 1" for a b
    by (simp add: sampleMix_def joinHashes_def le_word_le_bytes)
  have "distinct (map sampleMix (hashedData sampleMix [1, 2, 3]))"
    by (simp add: hashedData.simps joined_def mix)
  then show ?thesis by (simp add: distinct_map)
qed

theorem merkle_binding_witness: "[1, 2, 3 :: Uint256] = [1, 2, 1 + 2]"
proof -
  obtain t where "NewMerkleTree sampleMix [1, 2, 3] = Some (Some t)"
    by (rule NewMerkleTree_Some[of "[1, 2, 3]" sampleMix]) simp_all
  then show ?thesis by (intro merkle_binding[of sampleMix _ t _ t]) (use sample_mix_inj in simp_all)
qed

text \<open>
  Repeated leaves. The tree over an odd number of hashes, more than one, has the same root and
  depth as the tree over the same hashes with the last one repeated.
\<close>

theorem merkle_repeat_last:
  assumes "odd (length xs)" and "1 < length xs"
  shows "\<exists>t u. NewMerkleTree H xs = Some (Some t) \<and> NewMerkleTree H (xs @ [last xs]) = Some (Some u)
    \<and> nodeHash (treeRoot t) = nodeHash (treeRoot u) \<and> Depth t = Depth u"
proof -
  have n: "xs \<noteq> []" "xs @ [last xs] \<noteq> []" using assms(2) by auto
  obtain t where t: "NewMerkleTree H xs = Some (Some t)" "Depth t = 1 + levels (length xs)"
    "nodeHash (treeRoot t) = hashTree H (levels (length xs)) xs"
    by (rule NewMerkleTree_Some[OF n(1)])
  obtain u where u: "NewMerkleTree H (xs @ [last xs]) = Some (Some u)"
    "Depth u = 1 + levels (length (xs @ [last xs]))"
    "nodeHash (treeRoot u) = hashTree H (levels (length (xs @ [last xs]))) (xs @ [last xs])"
    by (rule NewMerkleTree_Some[OF n(2)])
  have "nodeHash (treeRoot t) = nodeHash (treeRoot u)" "Depth t = Depth u"
    using t(2,3) u(2,3) hashTree_repeat_last(1)[OF assms] hashTree_repeat_last(2)[OF assms, of H]
    by (simp_all only:)
  then show ?thesis using t(1) u(1) by blast
qed

theorem merkle_repeat_last_witness:
  "\<exists>t u. NewMerkleTree sampleMix [1, 2, 3] = Some (Some t)
    \<and> NewMerkleTree sampleMix ([1, 2, 3] @ [last [1, 2, 3]]) = Some (Some u)
    \<and> nodeHash (treeRoot t) = nodeHash (treeRoot u) \<and> Depth t = Depth u"
  by (rule merkle_repeat_last) simp_all

end
