(* ===== verification/Crypto.thy ===== *)
theory Crypto
  imports Payload
begin

section \<open>Keys, signatures and hashes\<close>

text \<open>
  \<open>internal/crypto\<close>. What the package computes itself is modelled: hex strings, double hashing,
  truncation, and the 64-byte form of a signature. The primitives of Go's \<open>crypto\<close> packages are
  parameters: \<open>sha\<close> is \<open>sha256.Sum256\<close>, and \<open>ecdsaSign\<close> and \<open>ecdsaVerify\<close> work on the pair of
  numbers that is a signature on P-256.
\<close>

subsection \<open>\<open>hash.go\<close>\<close>

type_synonym Uint160 = "160 word"

definition hexString :: "byte list \<Rightarrow> string" where
  "hexString bs = concat (map (\<lambda>b. [hexDigit (unat b div 16), hexDigit (unat b mod 16)]) bs)"

definition Uint256_String :: "Uint256 \<Rightarrow> string" where
  "Uint256_String h = hexString (le_bytes 32 h)"

definition Uint160_String :: "Uint160 \<Rightarrow> string" where
  "Uint160_String h = hexString (le_bytes 20 h)"

definition Hash256 :: "(byte list \<Rightarrow> byte list) \<Rightarrow> byte list \<Rightarrow> Uint256" where
  "Hash256 sha d = le_word (sha (sha d))"

definition Hash160 :: "(byte list \<Rightarrow> byte list) \<Rightarrow> byte list \<Rightarrow> Uint160" where
  "Hash160 sha d = le_word (copyInto 20 (take 20 (sha d)))"

text \<open>Reading a hex string back.\<close>

fun hexValue :: "char \<Rightarrow> nat" where
  "hexValue c = (let n = of_char c in if n < 58 then n - 48 else n - 87)"

fun parseHex :: "string \<Rightarrow> byte list" where
  "parseHex (a # b # s) = of_nat (16 * hexValue a + hexValue b) # parseHex s"
| "parseHex _ = []"

lemma hexValue_hexDigit: "n < 16 \<Longrightarrow> hexValue (hexDigit n) = n"
proof -
  assume "n < 16"
  then have "n \<in> {0..<16}" by simp
  moreover have "\<forall>n \<in> {0..<16}. hexValue (hexDigit n) = n" by code_simp
  ultimately show ?thesis by blast
qed

lemma parseHex_hexString: "parseHex (hexString bs) = bs"
proof (induction bs)
  case (Cons b bs)
  have "unat b < 256" using unsigned_less[of b] by simp
  then have "hexValue (hexDigit (unat b div 16)) = unat b div 16"
    "hexValue (hexDigit (unat b mod 16)) = unat b mod 16"
    by (simp_all add: hexValue_hexDigit del: hexValue.simps)
  then have "of_nat (16 * hexValue (hexDigit (unat b div 16)) + hexValue (hexDigit (unat b mod 16))) = b"
    by (simp only: mult_div_mod_eq) simp
  then show ?case using Cons by (simp add: hexString_def del: of_nat_add of_nat_mult hexValue.simps)
qed (simp add: hexString_def)

subsection \<open>\<open>ecdsa.go\<close>\<close>

text \<open>A public key is a point of the curve; a private key is opaque.\<close>

record ECDSAPub =
  pubX :: nat
  pubY :: nat

definition Equals :: "ECDSAPub \<Rightarrow> ECDSAPub \<Rightarrow> bool" where
  "Equals e other \<longleftrightarrow> pubX e = pubX other \<and> pubY e = pubY other"

definition Compare :: "ECDSAPub \<Rightarrow> ECDSAPub \<Rightarrow> int" where
  "Compare e p = (if pubX e < pubX p then - 1 else if pubX e = pubX p then 0 else 1)"

text \<open>\<open>big.Int.SetBytes\<close> and \<open>big.Int.FillBytes\<close>, which panics when the number does not fit.\<close>

definition setBytes :: "byte list \<Rightarrow> nat" where
  "setBytes bs = foldl (\<lambda>n b. 256 * n + unat b) 0 bs"

fun bigEndian :: "nat \<Rightarrow> nat \<Rightarrow> byte list" where
  "bigEndian 0 n = []"
| "bigEndian (Suc k) n = bigEndian k (n div 256) @ [of_nat (n mod 256)]"

definition fillBytes :: "nat \<Rightarrow> nat \<Rightarrow> stop + byte list" where
  "fillBytes k n = (if n < 256 ^ k then Ok (bigEndian k n) else Stop BufferTooSmall)"

text \<open>The inner \<open>None\<close> of \<open>Sign\<close> and \<open>Verify\<close> is an error value.\<close>

definition Sign ::
    "(byte list \<Rightarrow> byte list) \<Rightarrow> ('priv \<Rightarrow> byte list \<Rightarrow> (nat \<times> nat) option)
       \<Rightarrow> 'priv \<Rightarrow> byte list \<Rightarrow> stop + byte list option" where
  "Sign sha ecdsaSign e msg =
     (case ecdsaSign e (sha msg) of
        None \<Rightarrow> Ok None
      | Some (r, s) \<Rightarrow>
          thenDo (fillBytes 32 r) (\<lambda>rb. thenDo (fillBytes 32 s) (\<lambda>sb. Ok (Some (rb @ sb)))))"

definition Verify ::
    "(byte list \<Rightarrow> byte list) \<Rightarrow> (ECDSAPub \<Rightarrow> byte list \<Rightarrow> nat \<Rightarrow> nat \<Rightarrow> bool)
       \<Rightarrow> ECDSAPub \<Rightarrow> byte list \<Rightarrow> byte list \<Rightarrow> stop + bool" where
  "Verify sha ecdsaVerify e msg sig =
     (if length sig < 64 then Stop IndexOutOfRange
      else Ok (ecdsaVerify e (sha msg) (setBytes (take 32 sig)) (setBytes (take 32 (drop 32 sig)))))"

text \<open>\<open>crypto.go\<close>: the only suite is ECDSA, and \<open>None\<close> is the pair of nil keys.\<close>

definition SuiteECDSA :: byte where
  "SuiteECDSA = 1"

definition GenerateWith :: "('r \<Rightarrow> ('priv \<times> ECDSAPub) option) \<Rightarrow> byte \<Rightarrow> 'r \<Rightarrow> ('priv \<times> ECDSAPub) option" where
  "GenerateWith generateKey t r = (if t = SuiteECDSA then generateKey r else None)"

definition Generate :: "('r \<Rightarrow> ('priv \<times> ECDSAPub) option) \<Rightarrow> 'r \<Rightarrow> ('priv \<times> ECDSAPub) option" where
  "Generate generateKey r = GenerateWith generateKey SuiteECDSA r"

lemma length_bigEndian [simp]: "length (bigEndian k n) = k"
  by (induction k arbitrary: n) simp_all

lemma setBytes_append_one: "setBytes (bs @ [b]) = 256 * setBytes bs + unat b"
  by (simp add: setBytes_def)

lemma setBytes_bigEndian: "n < 256 ^ k \<Longrightarrow> setBytes (bigEndian k n) = n"
proof (induction k arbitrary: n)
  case 0
  then show ?case by (simp add: setBytes_def)
next
  case (Suc k)
  then have "n div 256 < 256 ^ k" by (simp add: less_mult_imp_div_less mult.commute)
  moreover have "unat (of_nat (n mod 256) :: byte) = n mod 256" by (simp add: unat_of_nat)
  ultimately show ?case using Suc.IH by (simp add: setBytes_append_one)
qed

lemma Sign_length: "Sign sha es e msg = Ok (Some sig) \<Longrightarrow> length sig = 64"
  by (auto simp: Sign_def fillBytes_def thenDo_Ok_iff split: option.splits prod.splits if_splits)

text \<open>
  Signatures. What \<open>Sign\<close> returns is a 64-byte signature from which \<open>Verify\<close> reads back the two
  numbers that the curve's signing produced, whatever their size: it accepts the signature
  exactly when the curve accepts the pair.
\<close>

theorem sign_verify:
  assumes "ecdsaSign k (sha msg) = Some (r, s)" and "r < 2 ^ 256" and "s < 2 ^ 256"
  shows "\<exists>sig. Sign sha ecdsaSign k msg = Ok (Some sig) \<and> length sig = 64
    \<and> Verify sha ecdsaVerify e msg sig = Ok (ecdsaVerify e (sha msg) r s)"
proof -
  have lt: "r < 256 ^ 32" "s < 256 ^ 32" using assms(2,3) by simp_all
  then have "Sign sha ecdsaSign k msg = Ok (Some (bigEndian 32 r @ bigEndian 32 s))"
    using assms(1) by (simp add: Sign_def fillBytes_def)
  moreover have "Verify sha ecdsaVerify e msg (bigEndian 32 r @ bigEndian 32 s) = Ok (ecdsaVerify e (sha msg) r s)"
    by (simp add: Verify_def setBytes_bigEndian[OF lt(1)] setBytes_bigEndian[OF lt(2)])
  ultimately show ?thesis by auto
qed

theorem sign_verify_witness:
  "\<exists>sig. Sign (\<lambda>d. rev d) (\<lambda>k d. Some (k, length d)) (7 :: nat) [1, 2] = Ok (Some sig) \<and> length sig = 64
    \<and> Verify (\<lambda>d. rev d) (\<lambda>e d r s. r = pubX e \<and> s = length d) \<lparr>pubX = 7, pubY = 0\<rparr> [1, 2] sig = Ok True"
  using sign_verify[of "\<lambda>k d. Some (k, length d)" 7 rev "[1, 2]" 7 2
      "\<lambda>e d r s. r = pubX e \<and> s = length d" "\<lparr>pubX = 7, pubY = 0\<rparr>"] by simp

end
