(* ===== verification/Blocks.thy ===== *)
theory Blocks
  imports Merkle Crypto
begin

section \<open>Transactions and blocks\<close>

text \<open>
  \<open>internal/consensus/transaction.go\<close>, \<open>block.go\<close>, \<open>amev_preBlock.go\<close> and \<open>amev_block.go\<close>. A nil
  slice and a nil element are \<open>None\<close>. The hash function \<open>H\<close> (\<open>crypto.Hash256\<close>), the encoding
  \<open>enc\<close> of a header's fields, and the operations of keys are parameters.
\<close>

subsection \<open>Transactions of 64 bits\<close>

type_synonym Tx64 = u64

definition Tx64_Hash :: "Tx64 \<Rightarrow> Uint256" where
  "Tx64_Hash t = le_word (copyInto 32 (le_bytes 8 t))"

definition Tx64_MarshalBinary :: "Tx64 \<Rightarrow> byte list" where
  "Tx64_MarshalBinary t = le_bytes 8 t"

definition Tx64_UnmarshalBinary :: "byte list \<Rightarrow> Tx64 option" where
  "Tx64_UnmarshalBinary data = (if length data \<noteq> 8 then None else Some (le_word data))"

lemma le_word_append_zeros: "le_word (bs @ replicate n 0) = le_word bs"
proof (induction bs)
  case Nil
  show ?case by (induction n) simp_all
qed simp

lemma le_word_ucast:
  assumes "8 * length bs \<le> LENGTH('b::len)" and "LENGTH('b) \<le> LENGTH('a::len)"
  shows "(le_word bs :: 'a word) = ucast (le_word bs :: 'b word)"
proof (rule bit_word_eqI)
  fix i
  assume "i < LENGTH('a)"
  moreover have "i div 8 < length bs \<Longrightarrow> i < LENGTH('b)" using assms(1) by linarith
  ultimately show "bit (le_word bs :: 'a word) i \<longleftrightarrow> bit (ucast (le_word bs :: 'b word) :: 'a word) i"
    by (auto simp: bit_le_word bit_simps)
qed

lemma Tx64_Hash_ucast: "Tx64_Hash t = ucast t"
proof -
  have "(le_word (le_bytes 8 t) :: Uint256) = ucast (le_word (le_bytes 8 t) :: u64)"
    by (rule le_word_ucast) simp_all
  then show ?thesis by (simp add: Tx64_Hash_def copyInto_def le_word_append_zeros le_word_le_bytes)
qed

lemma Tx64_bytes: "le_bytes 8 t = take 8 (le_bytes 32 (ucast t :: Uint256))"
proof (rule nth_equalityI)
  fix i
  assume "i < length (le_bytes 8 t)"
  then have i: "i < 8" by simp
  show "le_bytes 8 t ! i = take 8 (le_bytes 32 (ucast t :: Uint256)) ! i"
  proof (rule bit_word_eqI)
    fix j
    assume "j < LENGTH(8)"
    then show "bit (le_bytes 8 t ! i) j = bit (take 8 (le_bytes 32 (ucast t :: Uint256)) ! i) j"
      using i by (auto simp: le_bytes_def bit_simps)
  qed
qed simp

lemma Tx64_Hash_inject: "Tx64_Hash t = Tx64_Hash u \<longleftrightarrow> t = u"
proof
  assume "Tx64_Hash t = Tx64_Hash u"
  then have "(le_word (le_bytes 8 t) :: u64) = le_word (le_bytes 8 u)"
    by (metis Tx64_Hash_ucast Tx64_bytes)
  then show "t = u" by (simp add: le_word_le_bytes)
qed simp

text \<open>
  Transactions. Marshalling and unmarshalling are inverse to each other, unmarshalling rejects
  everything that is not 8 bytes, and different transactions have different hashes.
\<close>

theorem tx64_roundtrip:
  "Tx64_UnmarshalBinary (Tx64_MarshalBinary t) = Some t
    \<and> (Tx64_UnmarshalBinary data = Some u \<longleftrightarrow> data = Tx64_MarshalBinary u)
    \<and> (Tx64_Hash t = Tx64_Hash u \<longleftrightarrow> t = u)"
  by (auto simp: Tx64_UnmarshalBinary_def Tx64_MarshalBinary_def le_word_le_bytes le_bytes_le_word
      Tx64_Hash_inject split: if_splits)

subsection \<open>Blocks\<close>

record base =
  ConsensusData :: u64
  Index :: u32
  baseTimestamp :: u32
  baseVersion :: u32
  baseMerkleRoot :: Uint256
  basePrevHash :: Uint256
  NextConsensus :: Uint160

record neoBlock =
  nbBase :: base
  nbTransactions :: "Tx64 option list option"
  nbSignature :: "byte list option"
  nbHash :: "Uint256 option"

text \<open>\<open>NewMerkleTree(hashes...).Root().Hash\<close>; \<open>None\<close> when no tree is returned.\<close>

definition rootHash :: "(byte list \<Rightarrow> Uint256) \<Rightarrow> Uint256 list \<Rightarrow> Uint256 option" where
  "rootHash H hashes =
     (case NewMerkleTree H hashes of
        Some (Some t) \<Rightarrow> Some (nodeHash (treeRoot t))
      | _ \<Rightarrow> None)"

definition headerRoot :: "(byte list \<Rightarrow> Uint256) \<Rightarrow> Uint256 list \<Rightarrow> Uint256 option" where
  "headerRoot H hashes = (if hashes \<noteq> [] then rootHash H hashes else Some 0)"

definition newBase :: "u64 \<Rightarrow> u32 \<Rightarrow> Uint256 \<Rightarrow> u64 \<Rightarrow> Uint256 \<Rightarrow> base" where
  "newBase ts index prev nonce mroot =
     \<lparr>ConsensusData = nonce, Index = index, baseTimestamp = ucast (ts div 1000000000),
      baseVersion = 0, baseMerkleRoot = mroot, basePrevHash = prev,
      NextConsensus = le_word [1, 2, 3]\<rparr>"

definition NewBlock ::
    "(byte list \<Rightarrow> Uint256) \<Rightarrow> u64 \<Rightarrow> u32 \<Rightarrow> Uint256 \<Rightarrow> u64 \<Rightarrow> Uint256 list \<Rightarrow> neoBlock option" where
  "NewBlock H ts index prev nonce txHashes =
     map_option
       (\<lambda>mroot. \<lparr>nbBase = newBase ts index prev nonce mroot, nbTransactions = None,
                nbSignature = None, nbHash = None\<rparr>)
       (headerRoot H txHashes)"

definition neoBlock_SetTransactions :: "Tx64 option list \<Rightarrow> neoBlock \<Rightarrow> neoBlock" where
  "neoBlock_SetTransactions txx b = b\<lparr>nbTransactions := Some txx\<rparr>"

definition neoBlock_Sign :: "(base \<Rightarrow> byte list) \<Rightarrow> (byte list \<Rightarrow> byte list option) \<Rightarrow> neoBlock \<Rightarrow> neoBlock option" where
  "neoBlock_Sign enc sign b = map_option (\<lambda>s. b\<lparr>nbSignature := Some s\<rparr>) (sign (enc (nbBase b)))"

definition neoBlock_Verify ::
    "(base \<Rightarrow> byte list) \<Rightarrow> ('pub \<Rightarrow> byte list \<Rightarrow> byte list \<Rightarrow> 'r) \<Rightarrow> 'pub \<Rightarrow> byte list \<Rightarrow> neoBlock \<Rightarrow> 'r" where
  "neoBlock_Verify enc verify pub sign b = verify pub (enc (nbBase b)) sign"

definition neoBlock_Hash ::
    "(byte list \<Rightarrow> Uint256) \<Rightarrow> (base \<Rightarrow> byte list) \<Rightarrow> neoBlock \<Rightarrow> Uint256 \<times> neoBlock" where
  "neoBlock_Hash H enc b =
     (case nbHash b of
        Some h \<Rightarrow> (h, b)
      | None \<Rightarrow>
          if nbTransactions b = None then (0, b)
          else let h = H (enc (nbBase b)) in (h, b\<lparr>nbHash := Some h\<rparr>))"

lemma rootHash_hashTree: "xs \<noteq> [] \<Longrightarrow> rootHash H xs = Some (hashTree H (levels (length xs)) xs)"
  by (rule NewMerkleTree_Some[of xs H]) (simp_all add: rootHash_def)

lemma headerRoot_Some: "\<exists>m. headerRoot H xs = Some m"
  by (cases "xs = []") (simp_all add: headerRoot_def rootHash_hashTree)

lemma headerRoot_repeat_last:
  assumes "odd (length xs)" and "1 < length xs"
  shows "headerRoot H (xs @ [last xs]) = headerRoot H xs"
proof -
  have "xs \<noteq> []" using assms(2) by auto
  then show ?thesis
    using hashTree_repeat_last[OF assms] by (simp add: headerRoot_def rootHash_hashTree)
qed

text \<open>
  C33. A block commits to its transactions. \<open>NewBlock\<close> always returns; when two blocks with the
  same number of transactions have the same header fields, they were made from the same
  timestamp in seconds, index, previous hash, nonce and list of transaction hashes, if no two of
  the byte strings hashed for their Merkle trees collide.
\<close>

theorem block_commits:
  assumes "NewBlock H ts i p n xs = Some b" and "NewBlock H ts' i' p' n' ys = Some b'"
    and "nbBase b = nbBase b'" and "length xs = length ys"
    and "inj_on H (set (hashedData H xs) \<union> set (hashedData H ys))"
  shows "nanoSecToSec ts = nanoSecToSec ts' \<and> i = i' \<and> p = p' \<and> n = n' \<and> xs = ys"
proof -
  obtain m m' where m: "headerRoot H xs = Some m" "headerRoot H ys = Some m'"
    "nbBase b = newBase ts i p n m" "nbBase b' = newBase ts' i' p' n' m'"
    using assms(1,2) by (auto simp: NewBlock_def)
  then have e: "nanoSecToSec ts = nanoSecToSec ts' \<and> i = i' \<and> p = p' \<and> n = n'" "m = m'"
    using assms(3) by (auto simp: newBase_def nanoSecToSec_def)
  have "xs = ys"
  proof (cases "xs = []")
    case True
    then show ?thesis using assms(4) by simp
  next
    case False
    then have "hashTree H (levels (length xs)) xs = hashTree H (levels (length xs)) ys"
      using m(1,2) e(2) assms(4) by (auto simp: headerRoot_def rootHash_hashTree split: if_splits)
    then show ?thesis by (rule hashTree_binding[OF assms(4) False assms(5)])
  qed
  then show ?thesis using e(1) by simp
qed

lemma NewBlock_Some:
  obtains b where "NewBlock H ts i p n xs = Some b"
  using headerRoot_Some[of H xs] that by (auto simp: NewBlock_def)

theorem block_commits_witness:
  "nanoSecToSec 1500000000 = nanoSecToSec 1900000000 \<and> (4 :: u32) = 3 + 1 \<and> (5 :: Uint256) = 5 \<and> (6 :: u64) = 6
    \<and> [1, 2, 3 :: Uint256] = [1, 2, 1 + 2]"
proof -
  obtain b where b: "NewBlock sampleMix 1500000000 4 5 6 [1, 2, 3] = Some b" by (rule NewBlock_Some)
  moreover have "NewBlock sampleMix 1900000000 (3 + 1) 5 6 [1, 2, 1 + 2] = Some b"
    using b by (simp add: NewBlock_def newBase_def)
  ultimately show ?thesis
    by (rule block_commits) (use sample_mix_inj in simp_all)
qed

text \<open>
  Hash data is not injective. A block with an odd number of transactions, more than one, has
  the same header, hence the same data for hashing and signing, as the block with the last
  transaction repeated.
\<close>

theorem hash_data_repeats:
  assumes "odd (length xs)" and "1 < length xs"
  shows "\<exists>b. NewBlock H ts i p n xs = Some b \<and> NewBlock H ts i p n (xs @ [last xs]) = Some b
    \<and> fst (neoBlock_Hash H enc (neoBlock_SetTransactions txx b))
        = fst (neoBlock_Hash H enc (neoBlock_SetTransactions txx' b))"
proof -
  obtain b where b: "NewBlock H ts i p n xs = Some b" by (rule NewBlock_Some)
  then have "NewBlock H ts i p n (xs @ [last xs]) = Some b"
    using headerRoot_repeat_last[OF assms] by (simp add: NewBlock_def)
  moreover have "nbHash b = None" using b by (auto simp: NewBlock_def)
  ultimately show ?thesis using b by (simp add: neoBlock_Hash_def neoBlock_SetTransactions_def Let_def)
qed

theorem hash_data_repeats_witness:
  "\<exists>b. NewBlock sampleMix 0 1 2 3 [1, 2, 3] = Some b
    \<and> NewBlock sampleMix 0 1 2 3 ([1, 2, 3] @ [last [1, 2, 3]]) = Some b
    \<and> fst (neoBlock_Hash sampleMix (\<lambda>_. []) (neoBlock_SetTransactions [Some 1, Some 2, Some 3] b))
        = fst (neoBlock_Hash sampleMix (\<lambda>_. []) (neoBlock_SetTransactions [Some 1, Some 2, Some 3, Some 3] b))"
  by (rule hash_data_repeats) simp_all

subsection \<open>The blocks of the anti-MEV extension\<close>

record preBlock =
  pbBase :: base
  pbData :: u32
  initialTransactions :: "Tx64 option list option"

record amevBlock =
  abBase :: base
  abTransactions :: "Tx64 option list option"
  abSignature :: "byte list option"
  abHash :: "Uint256 option"

definition NewPreBlock ::
    "(byte list \<Rightarrow> Uint256) \<Rightarrow> u64 \<Rightarrow> u32 \<Rightarrow> Uint256 \<Rightarrow> u64 \<Rightarrow> Uint256 list \<Rightarrow> preBlock option" where
  "NewPreBlock H ts index prev nonce txHashes =
     map_option
       (\<lambda>mroot. \<lparr>pbBase = newBase ts index prev nonce mroot, pbData = 0xff,
                initialTransactions = None\<rparr>)
       (headerRoot H txHashes)"

definition preBlock_Data :: "preBlock \<Rightarrow> byte list" where
  "preBlock_Data pre = putUint32BE (pbData pre)"

definition preBlock_SetData :: "preBlock \<Rightarrow> preBlock" where
  "preBlock_SetData pre = pre\<lparr>pbData := Index (pbBase pre)\<rparr>"

definition preBlock_Verify :: "byte list \<Rightarrow> preBlock \<Rightarrow> bool" where
  "preBlock_Verify data pre \<longleftrightarrow> length data = 4 \<and> uint32BE data = Ok (Index (pbBase pre))"

definition preBlock_SetTransactions :: "Tx64 option list \<Rightarrow> preBlock \<Rightarrow> preBlock" where
  "preBlock_SetTransactions txs pre = pre\<lparr>initialTransactions := Some txs\<rparr>"

text \<open>The loop that adds up the data of \<open>m\<close> nodes, and the hashes of the transactions.\<close>

definition sumData :: "byte list list \<Rightarrow> nat \<Rightarrow> stop + u32" where
  "sumData cnData m =
     forEach (\<lambda>i sum. if i < length cnData then thenDo (uint32BE (cnData ! i)) (\<lambda>w. Ok (sum + w))
                     else Stop IndexOutOfRange) [0..<m] 0"

fun hashAll :: "Tx64 option list \<Rightarrow> stop + Uint256 list" where
  "hashAll [] = Ok []"
| "hashAll (None # txs) = Stop NilDereference"
| "hashAll (Some t # txs) = thenDo (hashAll txs) (\<lambda>hs. Ok (Tx64_Hash t # hs))"

definition NewAMEVBlock ::
    "(byte list \<Rightarrow> Uint256) \<Rightarrow> preBlock \<Rightarrow> byte list list \<Rightarrow> nat \<Rightarrow> stop + amevBlock option" where
  "NewAMEVBlock H pre cnData m =
     thenDo (sumData cnData m) (\<lambda>sum.
       let tx = word_of_int (2 ^ 63 - 1 - uint sum);
           txs = elems (initialTransactions pre) @ [Some tx]
       in thenDo (hashAll txs) (\<lambda>txHashes.
            Ok (map_option
                  (\<lambda>mroot. \<lparr>abBase = (pbBase pre)\<lparr>baseMerkleRoot := mroot\<rparr>, abTransactions = Some txs,
                           abSignature = None, abHash = None\<rparr>)
                  (rootHash H txHashes))))"

definition amevBlock_SetTransactions :: "Tx64 option list \<Rightarrow> amevBlock \<Rightarrow> amevBlock" where
  "amevBlock_SetTransactions txx b = b"

definition amevBlock_Sign ::
    "(base \<Rightarrow> byte list) \<Rightarrow> (byte list \<Rightarrow> byte list option) \<Rightarrow> amevBlock \<Rightarrow> amevBlock option" where
  "amevBlock_Sign enc sign b = map_option (\<lambda>s. b\<lparr>abSignature := Some s\<rparr>) (sign (enc (abBase b)))"

definition amevBlock_Verify ::
    "(base \<Rightarrow> byte list) \<Rightarrow> ('pub \<Rightarrow> byte list \<Rightarrow> byte list \<Rightarrow> 'r) \<Rightarrow> 'pub \<Rightarrow> byte list \<Rightarrow> amevBlock \<Rightarrow> 'r" where
  "amevBlock_Verify enc verify pub sign b = verify pub (enc (abBase b)) sign"

definition amevBlock_Hash ::
    "(byte list \<Rightarrow> Uint256) \<Rightarrow> (base \<Rightarrow> byte list) \<Rightarrow> amevBlock \<Rightarrow> Uint256 \<times> amevBlock" where
  "amevBlock_Hash H enc b =
     (case abHash b of
        Some h \<Rightarrow> (h, b)
      | None \<Rightarrow>
          if abTransactions b = None then (0, b)
          else let h = H (enc (abBase b)) in (h, b\<lparr>abHash := Some h\<rparr>))"

lemma preBlock_own_data: "preBlock_Verify (preBlock_Data (preBlock_SetData pre)) pre"
  by (simp add: preBlock_Verify_def preBlock_Data_def preBlock_SetData_def uint32BE_put)
    (simp add: putUint32BE_def)

lemma sumData_upto:
  assumes "\<forall>d \<in> set (take m cnData). uint32BE d = Ok w" and "m \<le> length cnData"
  shows "sumData cnData m = Ok (of_nat m * w)"
proof -
  have "forEach (\<lambda>i sum. if i < length cnData then thenDo (uint32BE (cnData ! i)) (\<lambda>w. Ok (sum + w))
                     else Stop IndexOutOfRange) is s = Ok (of_nat (length is) * w + s)"
    if "\<forall>i \<in> set is. i < m" for "is" s
    using that
  proof (induction "is" arbitrary: s)
    case (Cons i "is")
    then have "cnData ! i \<in> set (take m cnData)" "i < length cnData"
      using assms(2) by (auto simp: in_set_conv_nth intro!: exI[of _ i])
    then have "uint32BE (cnData ! i) = Ok w" "i < length cnData" using assms(1) by auto
    then show ?case using Cons by (simp add: algebra_simps)
  qed simp
  from this[of "[0..<m]" 0] show ?thesis by (simp add: sumData_def)
qed

lemma hashAll_Some: "hashAll (map Some ts) = Ok (map Tx64_Hash ts)"
  by (induction ts) simp_all


definition samplePre :: preBlock where
  "samplePre = \<lparr>pbBase = newBase 0 7 0 0 0, pbData = 0xff, initialTransactions = Some (map Some [1, 2])\<rparr>"


end
