(* ===== verification/Codec.thy ===== *)
theory Codec
  imports Recovery_Message
begin

section \<open>The wire format\<close>

text \<open>
  The \<open>EncodeBinary\<close> and \<open>DecodeBinary\<close> methods of \<open>internal/consensus\<close>, over a structural model of
  \<open>encoding/gob\<close>: a stream is the list of the values that \<open>Encode\<close> was called with, and a struct
  travels with the names of its fields. \<open>Decode\<close> takes the next value, fills the fields whose
  names match, leaves the others at zero, and fails when the stream has ended, when kinds differ
  or when no field matches; a number that does not fit its field fails. An empty slice is not
  transmitted, so it is decoded as nil. \<open>GJunk\<close> stands for bytes that are no gob value.
\<close>

datatype gobval = GBool bool | GInt int | GUint nat | GBytes "byte list" | GArray "byte list"
  | GSlice "gobval list" | GStruct "(string \<times> gobval) list" | GStream "gobval list" | GJunk

datatype gobErr = EndOfStream | TypeMismatch | OutOfRange | InvalidType u8 | WrongHashLength

type_synonym 'a decoded = "gobErr + 'a"
type_synonym fields = "(string \<times> gobval) list"

definition andThen :: "'a decoded \<Rightarrow> ('a \<Rightarrow> 'b decoded) \<Rightarrow> 'b decoded" where
  "andThen m k = (case m of Inl e \<Rightarrow> Inl e | Inr x \<Rightarrow> k x)"

lemma andThen_simps [simp]: "andThen (Inl e) k = Inl e" "andThen (Inr x) k = k x"
  by (simp_all add: andThen_def)

subsection \<open>Decoding values and fields\<close>

definition nextValue :: "gobval list \<Rightarrow> (gobval \<times> gobval list) decoded" where
  "nextValue s = (case s of [] \<Rightarrow> Inl EndOfStream | v # rest \<Rightarrow> Inr (v, rest))"

definition asStruct :: "string list \<Rightarrow> gobval \<Rightarrow> fields decoded" where
  "asStruct names v =
     (case v of
        GStruct fs \<Rightarrow>
          if fs \<noteq> [] \<and> (\<forall>n \<in> set names. map_of fs n = None) then Inl TypeMismatch else Inr fs
      | _ \<Rightarrow> Inl TypeMismatch)"

definition nextStruct :: "string list \<Rightarrow> gobval list \<Rightarrow> (fields \<times> gobval list) decoded" where
  "nextStruct names s =
     andThen (nextValue s) (\<lambda>(v, rest). andThen (asStruct names v) (\<lambda>fs. Inr (fs, rest)))"

definition fieldUint :: "string \<Rightarrow> fields \<Rightarrow> 'a::len word decoded" where
  "fieldUint n fs =
     (case map_of fs n of
        None \<Rightarrow> Inr 0
      | Some (GUint k) \<Rightarrow> if k < 2 ^ LENGTH('a) then Inr (of_nat k) else Inl OutOfRange
      | Some _ \<Rightarrow> Inl TypeMismatch)"

definition asHash :: "gobval \<Rightarrow> Uint256 decoded" where
  "asHash v =
     (case v of GArray bs \<Rightarrow> if length bs = 32 then Inr (le_word bs) else Inl TypeMismatch
      | _ \<Rightarrow> Inl TypeMismatch)"

definition fieldHash :: "string \<Rightarrow> fields \<Rightarrow> Uint256 decoded" where
  "fieldHash n fs = (case map_of fs n of None \<Rightarrow> Inr 0 | Some v \<Rightarrow> asHash v)"

definition fieldArray :: "nat \<Rightarrow> string \<Rightarrow> fields \<Rightarrow> byte list decoded" where
  "fieldArray k n fs =
     (case map_of fs n of
        None \<Rightarrow> Inr (replicate k 0)
      | Some (GArray bs) \<Rightarrow> if length bs = k then Inr bs else Inl TypeMismatch
      | Some _ \<Rightarrow> Inl TypeMismatch)"

definition fieldBytes :: "string \<Rightarrow> fields \<Rightarrow> byte list decoded" where
  "fieldBytes n fs =
     (case map_of fs n of
        None \<Rightarrow> Inr []
      | Some (GBytes bs) \<Rightarrow> Inr bs
      | Some _ \<Rightarrow> Inl TypeMismatch)"

definition fieldStream :: "string \<Rightarrow> fields \<Rightarrow> gobval list decoded" where
  "fieldStream n fs =
     (case map_of fs n of
        None \<Rightarrow> Inr []
      | Some (GStream s) \<Rightarrow> Inr s
      | Some _ \<Rightarrow> Inl TypeMismatch)"

fun decodeAll :: "(gobval \<Rightarrow> 'a decoded) \<Rightarrow> gobval list \<Rightarrow> 'a list decoded" where
  "decodeAll f [] = Inr []"
| "decodeAll f (v # vs) = andThen (f v) (\<lambda>x. andThen (decodeAll f vs) (\<lambda>xs. Inr (x # xs)))"

definition fieldSlice :: "(gobval \<Rightarrow> 'a decoded) \<Rightarrow> string \<Rightarrow> fields \<Rightarrow> 'a list option decoded" where
  "fieldSlice f n fs =
     (case map_of fs n of
        None \<Rightarrow> Inr None
      | Some (GSlice vs) \<Rightarrow>
          if vs = [] then Inr None else andThen (decodeAll f vs) (\<lambda>xs. Inr (Some xs))
      | Some _ \<Rightarrow> Inl TypeMismatch)"

subsection \<open>Encoding fields\<close>

definition gHash :: "Uint256 \<Rightarrow> gobval" where
  "gHash h = GArray (le_bytes 32 h)"

definition gUint :: "'a::len word \<Rightarrow> gobval" where
  "gUint w = GUint (unat w)"

subsection \<open>Message bodies\<close>

definition changeView_EncodeBinary :: "changeView \<Rightarrow> gobval list" where
  "changeView_EncodeBinary c = [GStruct [(''Timestamp'', gUint (cvTimestamp c))]]"

definition changeView_DecodeBinary :: "changeView \<Rightarrow> gobval list \<Rightarrow> changeView decoded" where
  "changeView_DecodeBinary c r =
     andThen (nextStruct [''Timestamp''] r) (\<lambda>(aux, r').
     andThen (fieldUint ''Timestamp'' aux) (\<lambda>ts. Inr (c\<lparr>cvTimestamp := ts\<rparr>)))"

definition prepareRequest_EncodeBinary :: "prepareRequest \<Rightarrow> gobval list" where
  "prepareRequest_EncodeBinary p =
     [GStruct [(''TransactionHashes'', GSlice (map gHash (elems (transactionHashes p)))),
               (''Nonce'', gUint (reqNonce p)), (''Timestamp'', gUint (reqTimestamp p))]]"

text \<open>Decoders of values that other values follow in the stream return the rest of it.\<close>

definition prepareRequest_DecodeBinary :: "gobval list \<Rightarrow> (prepareRequest \<times> gobval list) decoded" where
  "prepareRequest_DecodeBinary r =
     andThen (nextStruct [''TransactionHashes'', ''Nonce'', ''Timestamp''] r) (\<lambda>(aux, r').
     andThen (fieldSlice asHash ''TransactionHashes'' aux) (\<lambda>hashes.
     andThen (fieldUint ''Nonce'' aux) (\<lambda>nonce.
     andThen (fieldUint ''Timestamp'' aux) (\<lambda>ts.
       Inr (\<lparr>transactionHashes = hashes, reqNonce = nonce, reqTimestamp = ts\<rparr>, r')))))"

definition prepareResponse_EncodeBinary :: "prepareResponse \<Rightarrow> gobval list" where
  "prepareResponse_EncodeBinary p = [GStruct [(''PreparationHash'', gHash (preparationHash p))]]"

definition prepareResponse_DecodeBinary :: "gobval list \<Rightarrow> prepareResponse decoded" where
  "prepareResponse_DecodeBinary r =
     andThen (nextStruct [''PreparationHash''] r) (\<lambda>(aux, r').
     andThen (fieldHash ''PreparationHash'' aux) (\<lambda>h. Inr \<lparr>preparationHash = h\<rparr>))"

definition commit_EncodeBinary :: "commit \<Rightarrow> gobval list" where
  "commit_EncodeBinary c = [GStruct [(''Signature'', GArray (signature c))]]"

definition commit_DecodeBinary :: "gobval list \<Rightarrow> commit decoded" where
  "commit_DecodeBinary r =
     andThen (nextStruct [''Signature''] r) (\<lambda>(aux, r').
     andThen (fieldArray signatureSize ''Signature'' aux) (\<lambda>s. Inr \<lparr>signature = s\<rparr>))"

definition preCommit_EncodeBinary :: "preCommit \<Rightarrow> gobval list" where
  "preCommit_EncodeBinary c = [GStruct [(''Magic'', gUint (magic c))]]"

definition preCommit_DecodeBinary :: "gobval list \<Rightarrow> preCommit decoded" where
  "preCommit_DecodeBinary r =
     andThen (nextStruct [''Magic''] r) (\<lambda>(aux, r').
     andThen (fieldUint ''Magic'' aux) (\<lambda>w. Inr \<lparr>magic = w\<rparr>))"

definition recoveryRequest_EncodeBinary :: "recoveryRequest \<Rightarrow> gobval list" where
  "recoveryRequest_EncodeBinary m = [GStruct [(''Timestamp'', gUint (rrTimestamp m))]]"

definition recoveryRequest_DecodeBinary :: "gobval list \<Rightarrow> recoveryRequest decoded" where
  "recoveryRequest_DecodeBinary r =
     andThen (nextStruct [''Timestamp''] r) (\<lambda>(aux, r').
     andThen (fieldUint ''Timestamp'' aux) (\<lambda>ts. Inr \<lparr>rrTimestamp = ts\<rparr>))"

text \<open>The Commit of the anti-MEV extension (\<open>amev_commit.go\<close>).\<close>

record amevCommit =
  amevData :: "byte list"

definition dataSize :: nat where
  "dataSize = 64"

definition NewAMEVCommit :: "byte list \<Rightarrow> amevCommit" where
  "NewAMEVCommit d = \<lparr>amevData = copyInto dataSize d\<rparr>"

definition amevCommit_Signature :: "amevCommit \<Rightarrow> byte list" where
  "amevCommit_Signature c = amevData c"

definition amevCommit_EncodeBinary :: "amevCommit \<Rightarrow> gobval list" where
  "amevCommit_EncodeBinary c = [GStruct [(''Data'', GArray (amevData c))]]"

definition amevCommit_DecodeBinary :: "gobval list \<Rightarrow> amevCommit decoded" where
  "amevCommit_DecodeBinary r =
     andThen (nextStruct [''Data''] r) (\<lambda>(aux, r').
     andThen (fieldArray dataSize ''Data'' aux) (\<lambda>d. Inr \<lparr>amevData = d\<rparr>))"

subsection \<open>Compact payloads and recovery messages\<close>

definition gChangeViewCompact :: "changeViewCompact \<Rightarrow> gobval" where
  "gChangeViewCompact p =
     GStruct [(''ValidatorIndex'', gUint (cvcValidatorIndex p)),
              (''OriginalViewNumber'', gUint (cvcOriginalViewNumber p)),
              (''Timestamp'', gUint (cvcTimestamp p))]"

definition asChangeViewCompact :: "gobval \<Rightarrow> changeViewCompact decoded" where
  "asChangeViewCompact v =
     andThen (asStruct [''ValidatorIndex'', ''OriginalViewNumber'', ''Timestamp''] v) (\<lambda>fs.
     andThen (fieldUint ''ValidatorIndex'' fs) (\<lambda>i.
     andThen (fieldUint ''OriginalViewNumber'' fs) (\<lambda>ov.
     andThen (fieldUint ''Timestamp'' fs) (\<lambda>ts.
       Inr \<lparr>cvcValidatorIndex = i, cvcOriginalViewNumber = ov, cvcTimestamp = ts\<rparr>))))"

definition gPreCommitCompact :: "preCommitCompact \<Rightarrow> gobval" where
  "gPreCommitCompact p =
     GStruct [(''ViewNumber'', gUint (pccViewNumber p)),
              (''ValidatorIndex'', gUint (pccValidatorIndex p)), (''Data'', GBytes (pccData p))]"

definition asPreCommitCompact :: "gobval \<Rightarrow> preCommitCompact decoded" where
  "asPreCommitCompact v =
     andThen (asStruct [''ViewNumber'', ''ValidatorIndex'', ''Data''] v) (\<lambda>fs.
     andThen (fieldUint ''ViewNumber'' fs) (\<lambda>w.
     andThen (fieldUint ''ValidatorIndex'' fs) (\<lambda>i.
     andThen (fieldBytes ''Data'' fs) (\<lambda>d.
       Inr \<lparr>pccViewNumber = w, pccValidatorIndex = i, pccData = d\<rparr>))))"

definition gCommitCompact :: "commitCompact \<Rightarrow> gobval" where
  "gCommitCompact p =
     GStruct [(''ViewNumber'', gUint (ccViewNumber p)),
              (''ValidatorIndex'', gUint (ccValidatorIndex p)), (''Signature'', GArray (ccSignature p))]"

definition asCommitCompact :: "gobval \<Rightarrow> commitCompact decoded" where
  "asCommitCompact v =
     andThen (asStruct [''ViewNumber'', ''ValidatorIndex'', ''Signature''] v) (\<lambda>fs.
     andThen (fieldUint ''ViewNumber'' fs) (\<lambda>w.
     andThen (fieldUint ''ValidatorIndex'' fs) (\<lambda>i.
     andThen (fieldArray signatureSize ''Signature'' fs) (\<lambda>s.
       Inr \<lparr>ccViewNumber = w, ccValidatorIndex = i, ccSignature = s\<rparr>))))"

definition gPreparationCompact :: "preparationCompact \<Rightarrow> gobval" where
  "gPreparationCompact p = GStruct [(''ValidatorIndex'', gUint (prcValidatorIndex p))]"

definition asPreparationCompact :: "gobval \<Rightarrow> preparationCompact decoded" where
  "asPreparationCompact v =
     andThen (asStruct [''ValidatorIndex''] v) (\<lambda>fs.
     andThen (fieldUint ''ValidatorIndex'' fs) (\<lambda>i. Inr \<lparr>prcValidatorIndex = i\<rparr>))"

text \<open>The struct literal of \<open>EncodeBinary\<close> leaves the field \<open>PreCommitPayloads\<close> nil.\<close>

definition recoveryMessage_EncodeBinary :: "recoveryMessage \<Rightarrow> gobval list" where
  "recoveryMessage_EncodeBinary m =
     [GBool (rmPrepareRequest m \<noteq> None)]
     @ (case rmPrepareRequest m of
          Some req \<Rightarrow> prepareRequest_EncodeBinary req
        | None \<Rightarrow>
            (case rmPreparationHash m of
               None \<Rightarrow> [GInt 0]
             | Some h \<Rightarrow> [GInt 32, gHash h]))
     @ [GStruct
          [(''PreparationPayloads'', GSlice (map gPreparationCompact (rmPreparationPayloads m))),
           (''PreCommitPayloads'', GSlice []),
           (''CommitPayloads'', GSlice (map gCommitCompact (rmCommitPayloads m))),
           (''ChangeViewPayloads'', GSlice (map gChangeViewCompact (rmChangeViewPayloads m)))]]"

text \<open>The first part of \<open>DecodeBinary\<close>: the request, or the hash.\<close>

definition decodePreparation ::
    "gobval list \<Rightarrow> (prepareRequest option \<times> Uint256 option \<times> gobval list) decoded" where
  "decodePreparation r =
     andThen (nextValue r) (\<lambda>(v, r1).
       case v of
         GBool hasReq \<Rightarrow>
           if hasReq
           then andThen (prepareRequest_DecodeBinary r1) (\<lambda>(req, r2). Inr (Some req, None, r2))
           else andThen (nextValue r1) (\<lambda>(w, r2).
             case w of
               GInt l \<Rightarrow>
                 if l \<noteq> 0 then
                   if l = 32
                   then andThen (nextValue r2) (\<lambda>(hv, r3).
                        andThen (asHash hv) (\<lambda>h. Inr (None, Some h, r3)))
                   else Inl WrongHashLength
                 else Inr (None, None, r2)
             | _ \<Rightarrow> Inl TypeMismatch)
       | _ \<Rightarrow> Inl TypeMismatch)"

definition recoveryMessage_DecodeBinary :: "gobval list \<Rightarrow> recoveryMessage decoded" where
  "recoveryMessage_DecodeBinary r =
     andThen (decodePreparation r) (\<lambda>(req, h, r').
     andThen (nextStruct
       [''PreparationPayloads'', ''PreCommitPayloads'', ''CommitPayloads'', ''ChangeViewPayloads''] r')
       (\<lambda>(aux, r'').
     andThen (fieldSlice asPreparationCompact ''PreparationPayloads'' aux) (\<lambda>ps.
     andThen (fieldSlice asPreCommitCompact ''PreCommitPayloads'' aux) (\<lambda>pcs.
     andThen (fieldSlice asCommitCompact ''CommitPayloads'' aux) (\<lambda>cs.
     andThen (fieldSlice asChangeViewCompact ''ChangeViewPayloads'' aux) (\<lambda>cvs.
       Inr \<lparr>rmPreparationHash = h, rmPreparationPayloads = elems ps, rmPreCommitPayloads = [],
            rmCommitPayloads = elems cs, rmChangeViewPayloads = elems cvs,
            rmPrepareRequest = req\<rparr>))))))"

subsection \<open>Messages and payloads\<close>

definition body_EncodeBinary :: "consensusMessage \<Rightarrow> stop + gobval list" where
  "body_EncodeBinary b =
     (case b of
        NilPayload \<Rightarrow> Stop TypeAssertion
      | ChangeViewMsg c \<Rightarrow> Ok (changeView_EncodeBinary c)
      | PrepareRequestMsg r \<Rightarrow> Ok (prepareRequest_EncodeBinary r)
      | PrepareResponseMsg r \<Rightarrow> Ok (prepareResponse_EncodeBinary r)
      | PreCommitMsg c \<Rightarrow> Ok (preCommit_EncodeBinary c)
      | CommitMsg c \<Rightarrow> Ok (commit_EncodeBinary c)
      | RecoveryRequestMsg r \<Rightarrow> Ok (recoveryRequest_EncodeBinary r)
      | RecoveryMessageMsg r \<Rightarrow> Ok (recoveryMessage_EncodeBinary r))"

definition message_EncodeBinary :: "payload \<Rightarrow> stop + gobval list" where
  "message_EncodeBinary p =
     thenDo (body_EncodeBinary (body p)) (\<lambda>ww.
       Ok [GStruct [(''CMType'', gUint (typeByte (cmType p))), (''ViewNumber'', gUint (viewNumber p)),
                    (''Payload'', GStream ww)]])"

text \<open>The switch of \<open>message.DecodeBinary\<close>, with the decoder of each body.\<close>

definition body_DecodeBinary :: "MessageType \<Rightarrow> u8 \<Rightarrow> gobval list \<Rightarrow> consensusMessage decoded" where
  "body_DecodeBinary t v rr =
     (case t of
        ChangeViewType \<Rightarrow>
          andThen (changeView_DecodeBinary \<lparr>newViewNumber = v + 1, cvTimestamp = 0\<rparr> rr)
            (\<lambda>c. Inr (ChangeViewMsg c))
      | PrepareRequestType \<Rightarrow> andThen (prepareRequest_DecodeBinary rr) (\<lambda>(r, _). Inr (PrepareRequestMsg r))
      | PrepareResponseType \<Rightarrow> andThen (prepareResponse_DecodeBinary rr) (\<lambda>r. Inr (PrepareResponseMsg r))
      | CommitType \<Rightarrow> andThen (commit_DecodeBinary rr) (\<lambda>c. Inr (CommitMsg c))
      | RecoveryRequestType \<Rightarrow> andThen (recoveryRequest_DecodeBinary rr) (\<lambda>r. Inr (RecoveryRequestMsg r))
      | RecoveryMessageType \<Rightarrow> andThen (recoveryMessage_DecodeBinary rr) (\<lambda>r. Inr (RecoveryMessageMsg r))
      | _ \<Rightarrow> Inl (InvalidType (typeByte t)))"

definition message_DecodeBinary :: "gobval list \<Rightarrow> (MessageType \<times> u8 \<times> consensusMessage) decoded" where
  "message_DecodeBinary r =
     andThen (nextStruct [''CMType'', ''ViewNumber'', ''Payload''] r) (\<lambda>(aux, r').
     andThen (fieldUint ''CMType'' aux) (\<lambda>b.
     andThen (fieldUint ''ViewNumber'' aux) (\<lambda>v.
     andThen (fieldStream ''Payload'' aux) (\<lambda>rr.
     andThen (body_DecodeBinary (messageTypeOf b) v rr) (\<lambda>m.
       Inr (messageTypeOf b, v, m))))))"

definition Payload_EncodeBinary :: "payload \<Rightarrow> stop + gobval list" where
  "Payload_EncodeBinary p =
     thenDo (message_EncodeBinary p) (\<lambda>ww.
       Ok [GStruct [(''Version'', gUint (version p)), (''ValidatorIndex'', gUint (validatorIndex p)),
                    (''PrevHash'', gHash (prevHash p)), (''Height'', gUint (height p)),
                    (''Data'', GStream ww)]])"

definition Payload_DecodeBinary :: "gobval list \<Rightarrow> payload decoded" where
  "Payload_DecodeBinary r =
     andThen (nextStruct [''Version'', ''ValidatorIndex'', ''PrevHash'', ''Height'', ''Data''] r) (\<lambda>(aux, r').
     andThen (fieldUint ''Version'' aux) (\<lambda>ver.
     andThen (fieldUint ''ValidatorIndex'' aux) (\<lambda>i.
     andThen (fieldHash ''PrevHash'' aux) (\<lambda>ph.
     andThen (fieldUint ''Height'' aux) (\<lambda>h.
     andThen (fieldStream ''Data'' aux) (\<lambda>rr.
     andThen (message_DecodeBinary rr) (\<lambda>(t, v, m).
       Inr \<lparr>cmType = t, viewNumber = v, body = m, version = ver, validatorIndex = i,
            prevHash = ph, height = h\<rparr>)))))))"

text \<open>\<open>MarshalUnsigned\<close> and \<open>UnmarshalUnsigned\<close> wrap a fresh encoder and decoder.\<close>

definition MarshalUnsigned :: "payload \<Rightarrow> stop + gobval list" where
  "MarshalUnsigned p = Payload_EncodeBinary p"

definition UnmarshalUnsigned :: "gobval list \<Rightarrow> payload decoded" where
  "UnmarshalUnsigned d = Payload_DecodeBinary d"

subsection \<open>What arrives\<close>

text \<open>
  The value that the receiver decodes: a ChangeView's new view is the sender's view plus one, an
  empty list of hashes becomes nil, and a recovery message loses its PreCommits and, when it
  carries the PrepareRequest, the preparation hash.
\<close>

definition receivedRequest :: "prepareRequest \<Rightarrow> prepareRequest" where
  "receivedRequest r = r\<lparr>transactionHashes := (if elems (transactionHashes r) = [] then None else transactionHashes r)\<rparr>"

definition receivedRecovery :: "recoveryMessage \<Rightarrow> recoveryMessage" where
  "receivedRecovery m =
     m\<lparr>rmPreparationHash := (if rmPrepareRequest m = None then rmPreparationHash m else None),
       rmPreCommitPayloads := [], rmPrepareRequest := map_option receivedRequest (rmPrepareRequest m)\<rparr>"

fun receivedBody :: "u8 \<Rightarrow> consensusMessage \<Rightarrow> consensusMessage" where
  "receivedBody v (ChangeViewMsg c) = ChangeViewMsg (c\<lparr>newViewNumber := v + 1\<rparr>)"
| "receivedBody v (PrepareRequestMsg r) = PrepareRequestMsg (receivedRequest r)"
| "receivedBody v (RecoveryMessageMsg r) = RecoveryMessageMsg (receivedRecovery r)"
| "receivedBody v b = b"

text \<open>The arrays of Go have a fixed length.\<close>

fun arrays_ok :: "consensusMessage \<Rightarrow> bool" where
  "arrays_ok (CommitMsg c) = (length (signature c) = signatureSize)"
| "arrays_ok (RecoveryMessageMsg r) = (\<forall>c \<in> set (rmCommitPayloads r). length (ccSignature c) = signatureSize)"
| "arrays_ok _ = True"

lemma fieldUint_gUint: "map_of fs n = Some (gUint w) \<Longrightarrow> fieldUint n fs = Inr (w :: 'a::len word)"
proof -
  have "unat w < 2 ^ LENGTH('a)" by (rule unsigned_less)
  then show "map_of fs n = Some (gUint w) \<Longrightarrow> fieldUint n fs = Inr w"
    by (simp add: fieldUint_def gUint_def)
qed

lemma asHash_gHash: "asHash (gHash h) = Inr h"
  by (simp add: asHash_def gHash_def le_word_le_bytes)

lemma fieldHash_gHash: "map_of fs n = Some (gHash h) \<Longrightarrow> fieldHash n fs = Inr h"
  by (simp add: fieldHash_def asHash_gHash)

lemma fieldArray_GArray: "map_of fs n = Some (GArray bs) \<Longrightarrow> length bs = k \<Longrightarrow> fieldArray k n fs = Inr bs"
  by (simp add: fieldArray_def)

lemma fieldBytes_GBytes: "map_of fs n = Some (GBytes bs) \<Longrightarrow> fieldBytes n fs = Inr bs"
  by (simp add: fieldBytes_def)

lemma fieldStream_GStream: "map_of fs n = Some (GStream s) \<Longrightarrow> fieldStream n fs = Inr s"
  by (simp add: fieldStream_def)

lemma decodeAll_map: "\<forall>x \<in> set xs. f (g x) = Inr x \<Longrightarrow> decodeAll f (map g xs) = Inr xs"
  by (induction xs) simp_all

lemma fieldSlice_map:
  "map_of fs n = Some (GSlice (map g xs)) \<Longrightarrow> \<forall>x \<in> set xs. f (g x) = Inr x \<Longrightarrow>
     fieldSlice f n fs = Inr (if xs = [] then None else Some xs)"
  by (simp add: fieldSlice_def decodeAll_map)

lemma nextStruct_GStruct:
  "map_of fs n = Some v \<Longrightarrow> n \<in> set names \<Longrightarrow> nextStruct names (GStruct fs # r) = Inr (fs, r)"
  by (auto simp: nextStruct_def nextValue_def asStruct_def)

lemma asStruct_GStruct: "map_of fs n = Some v \<Longrightarrow> n \<in> set names \<Longrightarrow> asStruct names (GStruct fs) = Inr fs"
  by (auto simp: asStruct_def)

lemmas decode_simps = fieldUint_gUint fieldHash_gHash fieldArray_GArray fieldBytes_GBytes
  fieldStream_GStream nextStruct_GStruct asStruct_GStruct

lemma compact_roundtrip:
  "asChangeViewCompact (gChangeViewCompact cv) = Inr cv"
  "asPreCommitCompact (gPreCommitCompact pc) = Inr pc"
  "length (ccSignature cc) = signatureSize \<Longrightarrow> asCommitCompact (gCommitCompact cc) = Inr cc"
  "asPreparationCompact (gPreparationCompact pr) = Inr pr"
  by (simp_all add: asChangeViewCompact_def gChangeViewCompact_def asPreCommitCompact_def
      gPreCommitCompact_def asCommitCompact_def gCommitCompact_def asPreparationCompact_def
      gPreparationCompact_def decode_simps asStruct_def)

lemma changeView_roundtrip:
  "changeView_DecodeBinary c0 (changeView_EncodeBinary c) = Inr (c0\<lparr>cvTimestamp := cvTimestamp c\<rparr>)"
  by (simp add: changeView_DecodeBinary_def changeView_EncodeBinary_def decode_simps nextStruct_def
      nextValue_def asStruct_def)

lemma prepareRequest_roundtrip:
  "prepareRequest_DecodeBinary (prepareRequest_EncodeBinary r @ s) = Inr (receivedRequest r, s)"
  by (cases "transactionHashes r")
    (auto simp: prepareRequest_DecodeBinary_def prepareRequest_EncodeBinary_def receivedRequest_def
      nextStruct_def nextValue_def asStruct_def fieldUint_gUint fieldSlice_map asHash_gHash
      fieldSlice_def decodeAll_map)

lemma prepareResponse_roundtrip: "prepareResponse_DecodeBinary (prepareResponse_EncodeBinary r) = Inr r"
  by (simp add: prepareResponse_DecodeBinary_def prepareResponse_EncodeBinary_def nextStruct_def
      nextValue_def asStruct_def fieldHash_gHash)

lemma commit_roundtrip:
  "length (signature c) = signatureSize \<Longrightarrow> commit_DecodeBinary (commit_EncodeBinary c) = Inr c"
  by (simp add: commit_DecodeBinary_def commit_EncodeBinary_def nextStruct_def nextValue_def
      asStruct_def fieldArray_GArray)

lemma preCommit_roundtrip: "preCommit_DecodeBinary (preCommit_EncodeBinary c) = Inr c"
  by (simp add: preCommit_DecodeBinary_def preCommit_EncodeBinary_def nextStruct_def nextValue_def
      asStruct_def fieldUint_gUint)

lemma recoveryRequest_roundtrip: "recoveryRequest_DecodeBinary (recoveryRequest_EncodeBinary c) = Inr c"
  by (simp add: recoveryRequest_DecodeBinary_def recoveryRequest_EncodeBinary_def nextStruct_def
      nextValue_def asStruct_def fieldUint_gUint)

lemma amevCommit_roundtrip:
  "length (amevData c) = dataSize \<Longrightarrow> amevCommit_DecodeBinary (amevCommit_EncodeBinary c) = Inr c"
  by (simp add: amevCommit_DecodeBinary_def amevCommit_EncodeBinary_def nextStruct_def nextValue_def
      asStruct_def fieldArray_GArray)

text \<open>\<open>message.DecodeBinary\<close> reads every Commit as a \<open>commit\<close>, which an \<open>amevCommit\<close> does not match.\<close>

lemma amevCommit_as_commit: "commit_DecodeBinary (amevCommit_EncodeBinary c) = Inl TypeMismatch"
  by (simp add: commit_DecodeBinary_def amevCommit_EncodeBinary_def nextStruct_def nextValue_def asStruct_def)

lemma decodePreparation_encoded:
  "decodePreparation
     (GBool (rmPrepareRequest m \<noteq> None)
      # (case rmPrepareRequest m of
           Some req \<Rightarrow> prepareRequest_EncodeBinary req
         | None \<Rightarrow> (case rmPreparationHash m of None \<Rightarrow> [GInt 0] | Some h \<Rightarrow> [GInt 32, gHash h])) @ s)
   = Inr (map_option receivedRequest (rmPrepareRequest m),
          if rmPrepareRequest m = None then rmPreparationHash m else None, s)"
  by (auto simp: decodePreparation_def nextValue_def prepareRequest_roundtrip asHash_gHash
      split: option.splits)

lemma recoveryMessage_roundtrip:
  assumes "\<forall>c \<in> set (rmCommitPayloads m). length (ccSignature c) = signatureSize"
  shows "recoveryMessage_DecodeBinary (recoveryMessage_EncodeBinary m) = Inr (receivedRecovery m)"
proof -
  let ?aux = "[(''PreparationPayloads'', GSlice (map gPreparationCompact (rmPreparationPayloads m))),
           (''PreCommitPayloads'', GSlice []),
           (''CommitPayloads'', GSlice (map gCommitCompact (rmCommitPayloads m))),
           (''ChangeViewPayloads'', GSlice (map gChangeViewCompact (rmChangeViewPayloads m)))]"
  have a: "fieldSlice asPreparationCompact ''PreparationPayloads'' ?aux
      = Inr (if rmPreparationPayloads m = [] then None else Some (rmPreparationPayloads m))"
    by (rule fieldSlice_map[of _ _ gPreparationCompact]) (simp_all add: compact_roundtrip)
  have b: "fieldSlice asPreCommitCompact ''PreCommitPayloads'' ?aux = Inr None"
    by (simp add: fieldSlice_def)
  have c: "fieldSlice asCommitCompact ''CommitPayloads'' ?aux
      = Inr (if rmCommitPayloads m = [] then None else Some (rmCommitPayloads m))"
    by (rule fieldSlice_map[of _ _ gCommitCompact]) (use assms in \<open>simp_all add: compact_roundtrip\<close>)
  have d: "fieldSlice asChangeViewCompact ''ChangeViewPayloads'' ?aux
      = Inr (if rmChangeViewPayloads m = [] then None else Some (rmChangeViewPayloads m))"
    by (rule fieldSlice_map[of _ _ gChangeViewCompact]) (simp_all add: compact_roundtrip)
  have n: "nextStruct [''PreparationPayloads'', ''PreCommitPayloads'', ''CommitPayloads'', ''ChangeViewPayloads'']
      [GStruct ?aux] = Inr (?aux, [])"
    by (simp add: nextStruct_def nextValue_def asStruct_def)
  show ?thesis
    unfolding recoveryMessage_DecodeBinary_def recoveryMessage_EncodeBinary_def append.simps
      decodePreparation_encoded
    by (simp only: andThen_simps case_prod_conv n a b c d) (simp add: receivedRecovery_def)
qed

lemma body_roundtrip:
  assumes "bodyType b = Some t" and "arrays_ok b" and "t \<noteq> PreCommitType"
  obtains s where "body_EncodeBinary b = Ok s" and "body_DecodeBinary t v s = Inr (receivedBody v b)"
proof -
  have "\<exists>s. body_EncodeBinary b = Ok s \<and> body_DecodeBinary t v s = Inr (receivedBody v b)"
    using assms prepareRequest_roundtrip[of _ "[]"]
    by (cases b) (auto simp: body_EncodeBinary_def body_DecodeBinary_def changeView_roundtrip
        prepareResponse_roundtrip commit_roundtrip recoveryRequest_roundtrip recoveryMessage_roundtrip)
  then show thesis using that by blast
qed

lemma bodyType_known: "bodyType b = Some t \<Longrightarrow> messageTypeOf (typeByte t) = t"
  by (cases b) (auto simp: messageTypeOf_def)

text \<open>What the enclosing layers add and strip off.\<close>

lemma Payload_layers:
  assumes "body_EncodeBinary (body p) = Ok s"
  shows "\<exists>d. MarshalUnsigned p = Ok d
    \<and> UnmarshalUnsigned d =
        andThen (body_DecodeBinary (messageTypeOf (typeByte (cmType p))) (viewNumber p) s)
          (\<lambda>m. Inr (p\<lparr>cmType := messageTypeOf (typeByte (cmType p)), body := m\<rparr>))"
  using assms
  by (simp add: MarshalUnsigned_def Payload_EncodeBinary_def message_EncodeBinary_def
      UnmarshalUnsigned_def Payload_DecodeBinary_def message_DecodeBinary_def nextStruct_def
      nextValue_def asStruct_def fieldUint_gUint fieldHash_gHash fieldStream_GStream)
    (simp add: andThen_def split: sum.split)

subsection \<open>Properties\<close>

text \<open>
  C28. Messages on the wire. Every well-typed message but PreCommit is encoded, and what is decoded
  is the message with the documented changes of its body.
\<close>

theorem payload_roundtrip:
  assumes "wellTyped p" and "arrays_ok (body p)" and "cmType p \<noteq> PreCommitType"
  shows "\<exists>d. MarshalUnsigned p = Ok d
    \<and> UnmarshalUnsigned d = Inr (p\<lparr>body := receivedBody (viewNumber p) (body p)\<rparr>)"
proof -
  have t: "bodyType (body p) = Some (cmType p)" using assms(1) by (simp add: wellTyped_def)
  obtain s where s: "body_EncodeBinary (body p) = Ok s"
    "body_DecodeBinary (cmType p) (viewNumber p) s = Inr (receivedBody (viewNumber p) (body p))"
    by (rule body_roundtrip[OF t assms(2,3)])
  show ?thesis using Payload_layers[OF s(1)] s(2) bodyType_known[OF t] by simp
qed

theorem payload_roundtrip_witness:
  "\<exists>d. MarshalUnsigned (NewConsensusPayload CommitType 5 2 1 (CommitMsg (NewCommit [1, 2, 3]))) = Ok d
    \<and> UnmarshalUnsigned d =
        Inr ((NewConsensusPayload CommitType 5 2 1 (CommitMsg (NewCommit [1, 2, 3])))
               \<lparr>body := receivedBody (viewNumber (NewConsensusPayload CommitType 5 2 1 (CommitMsg (NewCommit [1, 2, 3]))))
                  (body (NewConsensusPayload CommitType 5 2 1 (CommitMsg (NewCommit [1, 2, 3]))))\<rparr>)"
  by (rule payload_roundtrip) (simp_all add: wellTyped_def NewCommit_def signatureSize_def)

text \<open>
  C29. PreCommit on the wire. A PreCommit is encoded, but decoding it always fails: the type is
  rejected as invalid.
\<close>

theorem preCommit_undecodable:
  assumes "cmType p = PreCommitType" and "body p = PreCommitMsg c"
  shows "\<exists>d. MarshalUnsigned p = Ok d \<and> UnmarshalUnsigned d = Inl (InvalidType 0x31)"
proof -
  have "body_EncodeBinary (body p) = Ok (preCommit_EncodeBinary c)"
    using assms(2) by (simp add: body_EncodeBinary_def)
  from Payload_layers[OF this] show ?thesis
    using assms(1) by (simp add: body_DecodeBinary_def messageTypeOf_def)
qed

theorem preCommit_undecodable_witness:
  "\<exists>d. MarshalUnsigned (NewConsensusPayload PreCommitType 5 2 1 (PreCommitMsg \<lparr>magic = 5\<rparr>)) = Ok d
    \<and> UnmarshalUnsigned d = Inl (InvalidType 0x31)"
  by (rule preCommit_undecodable[of _ "\<lparr>magic = 5\<rparr>"]) simp_all

text \<open>
  C30. Recovery messages on the wire. A recovery message that carries the PrepareRequest gives the
  receiver neither PrepareResponses nor PreCommits, however many the sender put into it.
\<close>

theorem recovery_codec_loses:
  assumes "rmPrepareRequest m = Some r"
    and "\<forall>c \<in> set (rmCommitPayloads m). length (ccSignature c) = signatureSize"
  shows "\<exists>m'. recoveryMessage_DecodeBinary (recoveryMessage_EncodeBinary m) = Inr m'
    \<and> rmPreparationPayloads m' = rmPreparationPayloads m \<and> rm_GetPrepareResponses m' p = []
    \<and> rm_GetPreCommits m' p = Ok []"
  using recoveryMessage_roundtrip[OF assms(2)] assms(1)
  by (simp add: receivedRecovery_def rm_GetPrepareResponses_def rm_GetPreCommits_def)

definition sampleRecovery :: recoveryMessage where
  "sampleRecovery =
     \<lparr>rmPreparationHash = Some 4, rmPreparationPayloads = [\<lparr>prcValidatorIndex = 2\<rparr>],
      rmPreCommitPayloads = [\<lparr>pccViewNumber = 0, pccValidatorIndex = 1, pccData = [0, 0, 0, 9]\<rparr>],
      rmCommitPayloads = [], rmChangeViewPayloads = [],
      rmPrepareRequest = Some \<lparr>transactionHashes = Some [], reqNonce = 1, reqTimestamp = 2\<rparr>\<rparr>"

theorem recovery_codec_loses_witness:
  "\<exists>m'. recoveryMessage_DecodeBinary (recoveryMessage_EncodeBinary sampleRecovery) = Inr m'
    \<and> rmPreparationPayloads m' = rmPreparationPayloads sampleRecovery
    \<and> rm_GetPrepareResponses m' (NewConsensusPayload RecoveryMessageType 1 0 0 NilPayload) = []
    \<and> rm_GetPreCommits m' (NewConsensusPayload RecoveryMessageType 1 0 0 NilPayload) = Ok []"
  by (rule recovery_codec_loses) (simp_all add: sampleRecovery_def)

end
