(* ===== verification/Config_Options.thy ===== *)
theory Config_Options
  imports Sample_Node
begin

section \<open>Configuration\<close>

text \<open>
  \<open>config.go\<close> and \<open>New\<close> (\<open>dbft.go\<close>). \<open>settings\<close> is the Go struct \<open>Config\<close>: every callback may be nil
  (\<open>None\<close>), which is what \<open>checkConfig\<close> looks at. The callbacks that only act on the outside, whose
  calls are the events of the history, are represented by an identity; the logger is left out.
  \<open>configOf\<close> reads the configuration that the algorithm runs with off accepted settings.
\<close>

datatype callback = Callback nat

record ('tx, 'b, 'pb, 'pub, 'priv) settings =
  sTimer :: "(('tx, 'b, 'pb) effect list \<Rightarrow> instant) option"
  sTimePerBlock :: "(('tx, 'b, 'pb) effect list \<Rightarrow> duration) option"
  sMaxTimePerBlock :: "(('tx, 'b, 'pb) effect list \<Rightarrow> duration) option"
  sTimestampIncrement :: u64
  sAntiMEVExtensionEnablingHeight :: int
  sGetKeyPair :: "('pub list \<Rightarrow> int \<times> 'priv option \<times> 'pub option) option"
  sNewPreBlockFromContext :: "(('tx, 'b, 'pb, 'pub, 'priv) dbft \<Rightarrow> 'pb option) option"
  sNewBlockFromContext :: "(('tx, 'b, 'pb, 'pub, 'priv) dbft \<Rightarrow> 'b option) option"
  sRequestTx :: "callback option"
  sSubscribeForTxs :: "callback option"
  sStopTxFlow :: "callback option"
  sGetTx :: "(('tx, 'b, 'pb) effect list \<Rightarrow> Uint256 \<Rightarrow> 'tx option) option"
  sGetVerified :: "(('tx, 'b, 'pb) effect list \<Rightarrow> 'tx list) option"
  sVerifyPreBlock :: "(('tx, 'b, 'pb) effect list \<Rightarrow> 'pb option \<Rightarrow> bool) option"
  sVerifyBlock :: "(('tx, 'b, 'pb) effect list \<Rightarrow> 'b option \<Rightarrow> bool) option"
  sBroadcast :: "callback option"
  sProcessPreBlock :: "(('tx, 'b, 'pb) effect list \<Rightarrow> 'pb \<Rightarrow> bool) option"
  sProcessBlock :: "(('tx, 'b, 'pb) effect list \<Rightarrow> 'b \<Rightarrow> bool) option"
  sGetBlock :: "(Uint256 \<Rightarrow> 'b option) option"
  sWatchOnly :: "bool option"
  sCurrentHeight :: "(('tx, 'b, 'pb) effect list \<Rightarrow> u32) option"
  sCurrentBlockHash :: "(('tx, 'b, 'pb) effect list \<Rightarrow> Uint256) option"
  sGetValidators :: "(('tx, 'b, 'pb) effect list \<Rightarrow> 'pub list) option"
  sNewConsensusPayload :: "(('tx, 'b, 'pb, 'pub, 'priv) dbft \<Rightarrow> MessageType \<Rightarrow> consensusMessage \<Rightarrow> payload) option"
  sNewPrepareRequest :: "(u64 \<Rightarrow> u64 \<Rightarrow> Uint256 list option \<Rightarrow> prepareRequest) option"
  sNewPrepareResponse :: "(Uint256 \<Rightarrow> prepareResponse) option"
  sNewChangeView :: "(u8 \<Rightarrow> ChangeViewReason \<Rightarrow> u64 \<Rightarrow> changeView) option"
  sNewPreCommit :: "(byte list \<Rightarrow> stop + preCommit) option"
  sNewCommit :: "(byte list \<Rightarrow> commit) option"
  sNewRecoveryRequest :: "(u64 \<Rightarrow> recoveryRequest) option"
  sNewRecoveryMessage :: "recoveryMessage option"
  sVerifyPrepareRequest :: "(('tx, 'b, 'pb) effect list \<Rightarrow> payload \<Rightarrow> bool) option"
  sVerifyPrepareResponse :: "(('tx, 'b, 'pb) effect list \<Rightarrow> payload \<Rightarrow> bool) option"
  sVerifyPreCommit :: "(('tx, 'b, 'pb) effect list \<Rightarrow> payload \<Rightarrow> bool) option"
  sVerifyCommit :: "(('tx, 'b, 'pb) effect list \<Rightarrow> payload \<Rightarrow> bool) option"

type_synonym ('tx, 'b, 'pb, 'pub, 'priv) setting =
  "('tx, 'b, 'pb, 'pub, 'priv) settings \<Rightarrow> ('tx, 'b, 'pb, 'pub, 'priv) settings"

definition defaultSecondsPerBlock :: duration where
  "defaultSecondsPerBlock = 15000000000"

definition defaultTimestampIncrement :: u64 where
  "defaultTimestampIncrement = 1000000"

definition defaultConfig :: "('tx, 'b, 'pb, 'pub, 'priv) settings" where
  "defaultConfig =
     \<lparr>sTimer = None, sTimePerBlock = Some (\<lambda>_. defaultSecondsPerBlock),
      sMaxTimePerBlock = None, sTimestampIncrement = defaultTimestampIncrement,
      sAntiMEVExtensionEnablingHeight = - 1, sGetKeyPair = None, sNewPreBlockFromContext = None,
      sNewBlockFromContext = None, sRequestTx = Some (Callback 0), sSubscribeForTxs = None,
      sStopTxFlow = Some (Callback 0), sGetTx = Some (\<lambda>_ _. None), sGetVerified = Some (\<lambda>_. []),
      sVerifyPreBlock = Some (\<lambda>_ _. True), sVerifyBlock = Some (\<lambda>_ _. True),
      sBroadcast = Some (Callback 0), sProcessPreBlock = None, sProcessBlock = Some (\<lambda>_ _. True),
      sGetBlock = Some (\<lambda>_. None), sWatchOnly = Some False, sCurrentHeight = None,
      sCurrentBlockHash = None, sGetValidators = None, sNewConsensusPayload = None,
      sNewPrepareRequest = None, sNewPrepareResponse = None, sNewChangeView = None,
      sNewPreCommit = None, sNewCommit = None, sNewRecoveryRequest = None, sNewRecoveryMessage = None,
      sVerifyPrepareRequest = Some (\<lambda>_ _. True),
      sVerifyPrepareResponse = Some (\<lambda>_ _. True), sVerifyPreCommit = Some (\<lambda>_ _. True),
      sVerifyCommit = Some (\<lambda>_ _. True)\<rparr>"

subsection \<open>Options\<close>

text \<open>Each \<open>With\<close> function sets one field, to nil if it is given nil.\<close>

definition WithGetKeyPair ::
    "('pub list \<Rightarrow> int \<times> 'priv option \<times> 'pub option) option \<Rightarrow> ('tx, 'b, 'pb, 'pub, 'priv) setting" where
  "WithGetKeyPair f cfg = cfg\<lparr>sGetKeyPair := f\<rparr>"

definition WithTimer ::
    "(('tx, 'b, 'pb) effect list \<Rightarrow> instant) option \<Rightarrow> ('tx, 'b, 'pb, 'pub, 'priv) setting" where
  "WithTimer f cfg = cfg\<lparr>sTimer := f\<rparr>"

definition WithTimePerBlock ::
    "(('tx, 'b, 'pb) effect list \<Rightarrow> duration) option \<Rightarrow> ('tx, 'b, 'pb, 'pub, 'priv) setting" where
  "WithTimePerBlock f cfg = cfg\<lparr>sTimePerBlock := f\<rparr>"

definition WithMaxTimePerBlock ::
    "(('tx, 'b, 'pb) effect list \<Rightarrow> duration) option \<Rightarrow> ('tx, 'b, 'pb, 'pub, 'priv) setting" where
  "WithMaxTimePerBlock f cfg = cfg\<lparr>sMaxTimePerBlock := f\<rparr>"

definition WithAntiMEVExtensionEnablingHeight ::
    "int \<Rightarrow> ('tx, 'b, 'pb, 'pub, 'priv) setting" where
  "WithAntiMEVExtensionEnablingHeight f cfg = cfg\<lparr>sAntiMEVExtensionEnablingHeight := f\<rparr>"

definition WithTimestampIncrement ::
    "u64 \<Rightarrow> ('tx, 'b, 'pb, 'pub, 'priv) setting" where
  "WithTimestampIncrement f cfg = cfg\<lparr>sTimestampIncrement := f\<rparr>"

definition WithNewPreBlockFromContext ::
    "(('tx, 'b, 'pb, 'pub, 'priv) dbft \<Rightarrow> 'pb option) option \<Rightarrow> ('tx, 'b, 'pb, 'pub, 'priv) setting" where
  "WithNewPreBlockFromContext f cfg = cfg\<lparr>sNewPreBlockFromContext := f\<rparr>"

definition WithNewBlockFromContext ::
    "(('tx, 'b, 'pb, 'pub, 'priv) dbft \<Rightarrow> 'b option) option \<Rightarrow> ('tx, 'b, 'pb, 'pub, 'priv) setting" where
  "WithNewBlockFromContext f cfg = cfg\<lparr>sNewBlockFromContext := f\<rparr>"

definition WithRequestTx ::
    "callback option \<Rightarrow> ('tx, 'b, 'pb, 'pub, 'priv) setting" where
  "WithRequestTx f cfg = cfg\<lparr>sRequestTx := f\<rparr>"

definition WithSubscribeForTxs ::
    "callback option \<Rightarrow> ('tx, 'b, 'pb, 'pub, 'priv) setting" where
  "WithSubscribeForTxs f cfg = cfg\<lparr>sSubscribeForTxs := f\<rparr>"

definition WithStopTxFlow ::
    "callback option \<Rightarrow> ('tx, 'b, 'pb, 'pub, 'priv) setting" where
  "WithStopTxFlow f cfg = cfg\<lparr>sStopTxFlow := f\<rparr>"

definition WithGetTx ::
    "(('tx, 'b, 'pb) effect list \<Rightarrow> Uint256 \<Rightarrow> 'tx option) option \<Rightarrow> ('tx, 'b, 'pb, 'pub, 'priv) setting" where
  "WithGetTx f cfg = cfg\<lparr>sGetTx := f\<rparr>"

definition WithGetVerified ::
    "(('tx, 'b, 'pb) effect list \<Rightarrow> 'tx list) option \<Rightarrow> ('tx, 'b, 'pb, 'pub, 'priv) setting" where
  "WithGetVerified f cfg = cfg\<lparr>sGetVerified := f\<rparr>"

definition WithVerifyPreBlock ::
    "(('tx, 'b, 'pb) effect list \<Rightarrow> 'pb option \<Rightarrow> bool) option \<Rightarrow> ('tx, 'b, 'pb, 'pub, 'priv) setting" where
  "WithVerifyPreBlock f cfg = cfg\<lparr>sVerifyPreBlock := f\<rparr>"

definition WithVerifyBlock ::
    "(('tx, 'b, 'pb) effect list \<Rightarrow> 'b option \<Rightarrow> bool) option \<Rightarrow> ('tx, 'b, 'pb, 'pub, 'priv) setting" where
  "WithVerifyBlock f cfg = cfg\<lparr>sVerifyBlock := f\<rparr>"

definition WithBroadcast ::
    "callback option \<Rightarrow> ('tx, 'b, 'pb, 'pub, 'priv) setting" where
  "WithBroadcast f cfg = cfg\<lparr>sBroadcast := f\<rparr>"

definition WithProcessBlock ::
    "(('tx, 'b, 'pb) effect list \<Rightarrow> 'b \<Rightarrow> bool) option \<Rightarrow> ('tx, 'b, 'pb, 'pub, 'priv) setting" where
  "WithProcessBlock f cfg = cfg\<lparr>sProcessBlock := f\<rparr>"

definition WithProcessPreBlock ::
    "(('tx, 'b, 'pb) effect list \<Rightarrow> 'pb \<Rightarrow> bool) option \<Rightarrow> ('tx, 'b, 'pb, 'pub, 'priv) setting" where
  "WithProcessPreBlock f cfg = cfg\<lparr>sProcessPreBlock := f\<rparr>"

definition WithGetBlock ::
    "(Uint256 \<Rightarrow> 'b option) option \<Rightarrow> ('tx, 'b, 'pb, 'pub, 'priv) setting" where
  "WithGetBlock f cfg = cfg\<lparr>sGetBlock := f\<rparr>"

definition WithWatchOnly ::
    "bool option \<Rightarrow> ('tx, 'b, 'pb, 'pub, 'priv) setting" where
  "WithWatchOnly f cfg = cfg\<lparr>sWatchOnly := f\<rparr>"

definition WithCurrentHeight ::
    "(('tx, 'b, 'pb) effect list \<Rightarrow> u32) option \<Rightarrow> ('tx, 'b, 'pb, 'pub, 'priv) setting" where
  "WithCurrentHeight f cfg = cfg\<lparr>sCurrentHeight := f\<rparr>"

definition WithCurrentBlockHash ::
    "(('tx, 'b, 'pb) effect list \<Rightarrow> Uint256) option \<Rightarrow> ('tx, 'b, 'pb, 'pub, 'priv) setting" where
  "WithCurrentBlockHash f cfg = cfg\<lparr>sCurrentBlockHash := f\<rparr>"

definition WithGetValidators ::
    "(('tx, 'b, 'pb) effect list \<Rightarrow> 'pub list) option \<Rightarrow> ('tx, 'b, 'pb, 'pub, 'priv) setting" where
  "WithGetValidators f cfg = cfg\<lparr>sGetValidators := f\<rparr>"

definition WithNewConsensusPayload ::
    "(('tx, 'b, 'pb, 'pub, 'priv) dbft \<Rightarrow> MessageType \<Rightarrow> consensusMessage \<Rightarrow> payload) option \<Rightarrow> ('tx, 'b, 'pb, 'pub, 'priv) setting" where
  "WithNewConsensusPayload f cfg = cfg\<lparr>sNewConsensusPayload := f\<rparr>"

definition WithNewPrepareRequest ::
    "(u64 \<Rightarrow> u64 \<Rightarrow> Uint256 list option \<Rightarrow> prepareRequest) option \<Rightarrow> ('tx, 'b, 'pb, 'pub, 'priv) setting" where
  "WithNewPrepareRequest f cfg = cfg\<lparr>sNewPrepareRequest := f\<rparr>"

definition WithNewPrepareResponse ::
    "(Uint256 \<Rightarrow> prepareResponse) option \<Rightarrow> ('tx, 'b, 'pb, 'pub, 'priv) setting" where
  "WithNewPrepareResponse f cfg = cfg\<lparr>sNewPrepareResponse := f\<rparr>"

definition WithNewChangeView ::
    "(u8 \<Rightarrow> ChangeViewReason \<Rightarrow> u64 \<Rightarrow> changeView) option \<Rightarrow> ('tx, 'b, 'pb, 'pub, 'priv) setting" where
  "WithNewChangeView f cfg = cfg\<lparr>sNewChangeView := f\<rparr>"

definition WithNewCommit ::
    "(byte list \<Rightarrow> commit) option \<Rightarrow> ('tx, 'b, 'pb, 'pub, 'priv) setting" where
  "WithNewCommit f cfg = cfg\<lparr>sNewCommit := f\<rparr>"

definition WithNewPreCommit ::
    "(byte list \<Rightarrow> stop + preCommit) option \<Rightarrow> ('tx, 'b, 'pb, 'pub, 'priv) setting" where
  "WithNewPreCommit f cfg = cfg\<lparr>sNewPreCommit := f\<rparr>"

definition WithNewRecoveryRequest ::
    "(u64 \<Rightarrow> recoveryRequest) option \<Rightarrow> ('tx, 'b, 'pb, 'pub, 'priv) setting" where
  "WithNewRecoveryRequest f cfg = cfg\<lparr>sNewRecoveryRequest := f\<rparr>"

definition WithNewRecoveryMessage ::
    "recoveryMessage option \<Rightarrow> ('tx, 'b, 'pb, 'pub, 'priv) setting" where
  "WithNewRecoveryMessage f cfg = cfg\<lparr>sNewRecoveryMessage := f\<rparr>"

definition WithVerifyPrepareRequest ::
    "(('tx, 'b, 'pb) effect list \<Rightarrow> payload \<Rightarrow> bool) option \<Rightarrow> ('tx, 'b, 'pb, 'pub, 'priv) setting" where
  "WithVerifyPrepareRequest f cfg = cfg\<lparr>sVerifyPrepareRequest := f\<rparr>"

definition WithVerifyPrepareResponse ::
    "(('tx, 'b, 'pb) effect list \<Rightarrow> payload \<Rightarrow> bool) option \<Rightarrow> ('tx, 'b, 'pb, 'pub, 'priv) setting" where
  "WithVerifyPrepareResponse f cfg = cfg\<lparr>sVerifyPrepareResponse := f\<rparr>"

definition WithVerifyPreCommit ::
    "(('tx, 'b, 'pb) effect list \<Rightarrow> payload \<Rightarrow> bool) option \<Rightarrow> ('tx, 'b, 'pb, 'pub, 'priv) setting" where
  "WithVerifyPreCommit f cfg = cfg\<lparr>sVerifyPreCommit := f\<rparr>"

definition WithVerifyCommit ::
    "(('tx, 'b, 'pb) effect list \<Rightarrow> payload \<Rightarrow> bool) option \<Rightarrow> ('tx, 'b, 'pb, 'pub, 'priv) setting" where
  "WithVerifyCommit f cfg = cfg\<lparr>sVerifyCommit := f\<rparr>"

subsection \<open>\<open>checkConfig\<close>\<close>

text \<open>The error is its text, and \<open>None\<close> is the nil error.\<close>

definition checkAntiMEV :: "('tx, 'b, 'pb, 'pub, 'priv) settings \<Rightarrow> string option" where
  "checkAntiMEV cfg =
     (if sAntiMEVExtensionEnablingHeight cfg \<ge> 0
      then if sNewPreBlockFromContext cfg = None then Some ''NewPreBlockFromContext is nil''
           else if sProcessPreBlock cfg = None then Some ''ProcessPreBlock is nil''
           else if sNewPreCommit cfg = None then Some ''NewPreCommit is nil''
           else None
      else if sNewPreBlockFromContext cfg \<noteq> None
           then Some ''NewPreBlockFromContext is set, but AntiMEVExtensionEnablingHeight is not specified''
           else if sProcessPreBlock cfg \<noteq> None
           then Some ''ProcessPreBlock is set, but AntiMEVExtensionEnablingHeight is not specified''
           else if sNewPreCommit cfg \<noteq> None
           then Some ''NewPreCommit is set, but AntiMEVExtensionEnablingHeight is not specified''
           else None)"

definition checkConfig :: "('tx, 'b, 'pb, 'pub, 'priv) settings \<Rightarrow> string option" where
  "checkConfig cfg =
     (if sGetKeyPair cfg = None then Some ''private key is nil''
      else if sTimer cfg = None then Some ''Timer is nil''
      else if sCurrentHeight cfg = None then Some ''CurrentHeight is nil''
      else if sCurrentBlockHash cfg = None then Some ''CurrentBlockHash is nil''
      else if sGetValidators cfg = None then Some ''GetValidators is nil''
      else if sNewBlockFromContext cfg = None then Some ''NewBlockFromContext is nil''
      else if sNewConsensusPayload cfg = None then Some ''NewConsensusPayload is nil''
      else if sNewPrepareRequest cfg = None then Some ''NewPrepareRequest is nil''
      else if sNewPrepareResponse cfg = None then Some ''NewPrepareResponse is nil''
      else if sNewChangeView cfg = None then Some ''NewChangeView is nil''
      else if sNewCommit cfg = None then Some ''NewCommit is nil''
      else if sNewRecoveryRequest cfg = None then Some ''NewRecoveryRequest is nil''
      else if sNewRecoveryMessage cfg = None then Some ''NewRecoveryMessage is nil''
      else if checkAntiMEV cfg \<noteq> None then checkAntiMEV cfg
      else if (sMaxTimePerBlock cfg = None) \<noteq> (sSubscribeForTxs cfg = None)
      then Some ''MaxTimePerBlock and SubscribeForTxs should be specified/not specified at the same time''
      else None)"

subsection \<open>\<open>New\<close>\<close>

text \<open>
  The record the algorithm runs with. The methods of the user's objects and the two clocks that
  are not part of the struct come with \<open>m\<close>. A callback that \<open>checkConfig\<close> does not check and that an
  option has set to nil would panic when called; the model of the algorithm takes it as set.
\<close>

definition configOf ::
    "('tx, 'b, 'pb, 'pub, 'priv) config \<Rightarrow> ('tx, 'b, 'pb, 'pub, 'priv) settings
       \<Rightarrow> ('tx, 'b, 'pb, 'pub, 'priv) config" where
  "configOf m s =
     m\<lparr>cfgTimePerBlock := the (sTimePerBlock s), cfgMaxTimePerBlock := sMaxTimePerBlock s,
       TimestampIncrement := sTimestampIncrement s,
       AntiMEVExtensionEnablingHeight := sAntiMEVExtensionEnablingHeight s,
       GetKeyPair := the (sGetKeyPair s),
       NewPreBlockFromContext :=
         (case sNewPreBlockFromContext s of None \<Rightarrow> NewPreBlockFromContext m | Some f \<Rightarrow> f),
       NewBlockFromContext := the (sNewBlockFromContext s),
       GetTx := the (sGetTx s), GetVerified := the (sGetVerified s),
       VerifyPreBlock := the (sVerifyPreBlock s), VerifyBlock := the (sVerifyBlock s),
       ProcessPreBlock := (case sProcessPreBlock s of None \<Rightarrow> ProcessPreBlock m | Some f \<Rightarrow> f),
       ProcessBlock := the (sProcessBlock s), cfgWatchOnly := the (sWatchOnly s),
       CurrentHeight := the (sCurrentHeight s), CurrentBlockHash := the (sCurrentBlockHash s),
       GetValidators := the (sGetValidators s),
       VerifyPrepareRequest := the (sVerifyPrepareRequest s),
       VerifyPrepareResponse := the (sVerifyPrepareResponse s),
       VerifyPreCommit := the (sVerifyPreCommit s), VerifyCommit := the (sVerifyCommit s),
       TimerNow := the (sTimer s)\<rparr>"

definition applyOptions :: "('tx, 'b, 'pb, 'pub, 'priv) setting list \<Rightarrow> ('tx, 'b, 'pb, 'pub, 'priv) settings" where
  "applyOptions opts = fold (\<lambda>opt cfg. opt cfg) opts defaultConfig"

definition New ::
    "('tx, 'b, 'pb, 'pub, 'priv) config \<Rightarrow> ('tx, 'b, 'pb, 'pub, 'priv) setting list
       \<Rightarrow> string + ('tx, 'b, 'pb, 'pub, 'priv) config \<times> ('tx, 'b, 'pb, 'pub, 'priv) dbft" where
  "New m opts =
     (let cfg = applyOptions opts
      in case checkConfig cfg of
           Some e \<Rightarrow> Inl (''invalid config: '' @ e)
         | None \<Rightarrow> Inr (configOf m cfg, newDbft (configOf m cfg)))"

subsection \<open>What is checked\<close>

text \<open>The callbacks that must be set, and the extension of the algorithm they belong to.\<close>

definition required :: "('tx, 'b, 'pb, 'pub, 'priv) settings \<Rightarrow> bool list" where
  "required s =
     [sGetKeyPair s \<noteq> None, sTimer s \<noteq> None, sCurrentHeight s \<noteq> None, sCurrentBlockHash s \<noteq> None, sGetValidators s \<noteq> None, sNewBlockFromContext s \<noteq> None, sNewConsensusPayload s \<noteq> None, sNewPrepareRequest s \<noteq> None, sNewPrepareResponse s \<noteq> None, sNewChangeView s \<noteq> None, sNewCommit s \<noteq> None, sNewRecoveryRequest s \<noteq> None, sNewRecoveryMessage s \<noteq> None]"

definition antiMEVCallbacks :: "('tx, 'b, 'pb, 'pub, 'priv) settings \<Rightarrow> bool list" where
  "antiMEVCallbacks s =
     [sNewPreBlockFromContext s \<noteq> None, sProcessPreBlock s \<noteq> None, sNewPreCommit s \<noteq> None]"

lemma checkAntiMEV_None_iff:
  "checkAntiMEV s = None \<longleftrightarrow> (\<forall>ok \<in> set (antiMEVCallbacks s). ok = (sAntiMEVExtensionEnablingHeight s \<ge> 0))"
  by (auto simp: checkAntiMEV_def antiMEVCallbacks_def)

lemma checkConfig_None_iff:
  "checkConfig s = None \<longleftrightarrow>
     (\<forall>ok \<in> set (required s). ok) \<and> checkAntiMEV s = None
     \<and> (sMaxTimePerBlock s = None \<longleftrightarrow> sSubscribeForTxs s = None)"
  by (cases "sMaxTimePerBlock s"; cases "sSubscribeForTxs s"; cases "checkAntiMEV s")
    (simp_all add: checkConfig_def required_def)

text \<open>
  C37. What \<open>New\<close> accepts. It returns an instance exactly when every required callback is set, the
  three callbacks of the anti-MEV extension are set if and only if its height is, and the two
  callbacks of the dynamic block time go together; the instance is a fresh one.
\<close>

theorem new_accepts:
  "(\<exists>e. New m opts = Inl e) = (checkConfig (applyOptions opts) \<noteq> None)
   \<and> (New m opts = Inr (cfg, d) \<longleftrightarrow>
        (\<forall>ok \<in> set (required (applyOptions opts)). ok)
        \<and> (\<forall>ok \<in> set (antiMEVCallbacks (applyOptions opts)).
             ok = (sAntiMEVExtensionEnablingHeight (applyOptions opts) \<ge> 0))
        \<and> (sMaxTimePerBlock (applyOptions opts) = None \<longleftrightarrow> sSubscribeForTxs (applyOptions opts) = None)
        \<and> cfg = configOf m (applyOptions opts) \<and> d = newDbft cfg)"
  using checkConfig_None_iff[of "applyOptions opts"] checkAntiMEV_None_iff[of "applyOptions opts"]
  by (cases "checkConfig (applyOptions opts)") (auto simp: New_def Let_def)
text \<open>Options that carry the callbacks of the concrete node.\<close>

definition sampleOptions :: "sconfig \<Rightarrow> (nat, sblock, u32, nat, nat) setting list" where
  "sampleOptions m =
     [WithGetKeyPair (Some (GetKeyPair m)), WithTimer (Some (TimerNow m)),
      WithCurrentHeight (Some (CurrentHeight m)), WithCurrentBlockHash (Some (CurrentBlockHash m)),
      WithGetValidators (Some (GetValidators m)), WithNewBlockFromContext (Some (NewBlockFromContext m)),
      WithNewConsensusPayload (Some ownPayload),
      WithNewPrepareRequest (Some NewPrepareRequest), WithNewPrepareResponse (Some NewPrepareResponse),
      WithNewChangeView (Some NewChangeView), WithNewCommit (Some NewCommit),
      WithNewRecoveryRequest (Some NewRecoveryRequest),
      WithNewRecoveryMessage (Some (NewRecoveryMessage None))]"

lemmas sample_options = WithGetKeyPair_def
  WithTimer_def WithCurrentHeight_def WithCurrentBlockHash_def WithGetValidators_def
  WithNewBlockFromContext_def WithNewConsensusPayload_def WithNewPrepareRequest_def
  WithNewPrepareResponse_def WithNewChangeView_def WithNewCommit_def WithNewRecoveryRequest_def
  WithNewRecoveryMessage_def

lemma sample_settings:
  "applyOptions (sampleOptions m) =
     defaultConfig\<lparr>sGetKeyPair := Some (GetKeyPair m), sTimer := Some (TimerNow m),
       sCurrentHeight := Some (CurrentHeight m), sCurrentBlockHash := Some (CurrentBlockHash m),
       sGetValidators := Some (GetValidators m), sNewBlockFromContext := Some (NewBlockFromContext m),
       sNewConsensusPayload := Some ownPayload, sNewPrepareRequest := Some NewPrepareRequest,
       sNewPrepareResponse := Some NewPrepareResponse, sNewChangeView := Some NewChangeView,
       sNewCommit := Some NewCommit, sNewRecoveryRequest := Some NewRecoveryRequest,
       sNewRecoveryMessage := Some (NewRecoveryMessage None)\<rparr>"
  by (simp only: applyOptions_def sampleOptions_def fold_simps sample_options)

lemma default_sel:
  "sNewPreBlockFromContext defaultConfig = None"
  "sProcessPreBlock defaultConfig = None"
  "sNewPreCommit defaultConfig = None"
  "sMaxTimePerBlock defaultConfig = None"
  "sSubscribeForTxs defaultConfig = None"
  "sAntiMEVExtensionEnablingHeight defaultConfig = - 1"
  by (simp_all add: defaultConfig_def)

lemma sample_sel:
  "sGetKeyPair (applyOptions (sampleOptions m)) \<noteq> None"
  "sTimer (applyOptions (sampleOptions m)) \<noteq> None"
  "sCurrentHeight (applyOptions (sampleOptions m)) \<noteq> None"
  "sCurrentBlockHash (applyOptions (sampleOptions m)) \<noteq> None"
  "sGetValidators (applyOptions (sampleOptions m)) \<noteq> None"
  "sNewBlockFromContext (applyOptions (sampleOptions m)) \<noteq> None"
  "sNewConsensusPayload (applyOptions (sampleOptions m)) \<noteq> None"
  "sNewPrepareRequest (applyOptions (sampleOptions m)) \<noteq> None"
  "sNewPrepareResponse (applyOptions (sampleOptions m)) \<noteq> None"
  "sNewChangeView (applyOptions (sampleOptions m)) \<noteq> None"
  "sNewCommit (applyOptions (sampleOptions m)) \<noteq> None"
  "sNewRecoveryRequest (applyOptions (sampleOptions m)) \<noteq> None"
  "sNewRecoveryMessage (applyOptions (sampleOptions m)) \<noteq> None"
  "sNewPreBlockFromContext (applyOptions (sampleOptions m)) = None"
  "sProcessPreBlock (applyOptions (sampleOptions m)) = None"
  "sNewPreCommit (applyOptions (sampleOptions m)) = None"
  "sMaxTimePerBlock (applyOptions (sampleOptions m)) = None"
  "sSubscribeForTxs (applyOptions (sampleOptions m)) = None"
  "sAntiMEVExtensionEnablingHeight (applyOptions (sampleOptions m)) = - 1"
  by (simp_all add: sample_settings default_sel)

lemma sample_required:
  "(\<forall>ok \<in> set (required (applyOptions (sampleOptions m))). ok)"
  "(\<forall>ok \<in> set (antiMEVCallbacks (applyOptions (sampleOptions m))).
      ok = (sAntiMEVExtensionEnablingHeight (applyOptions (sampleOptions m)) \<ge> 0))"
  "sMaxTimePerBlock (applyOptions (sampleOptions m)) = None \<longleftrightarrow> sSubscribeForTxs (applyOptions (sampleOptions m)) = None"
  by (simp_all add: required_def antiMEVCallbacks_def sample_sel del: not_None_eq)

theorem new_accepts_witness:
  "New (sampleConfig 0 (- 1) 0) (sampleOptions (sampleConfig 0 (- 1) 0))
    = Inr (configOf (sampleConfig 0 (- 1) 0) (applyOptions (sampleOptions (sampleConfig 0 (- 1) 0))),
           newDbft (configOf (sampleConfig 0 (- 1) 0) (applyOptions (sampleOptions (sampleConfig 0 (- 1) 0)))))"
  by (rule conjunct2[OF new_accepts, THEN iffD2]) (intro conjI sample_required refl)

text \<open>
  A zero timestamp increment is accepted by \<open>checkConfig\<close>, and then every attempt of a primary
  to make a PrepareRequest divides by zero.
\<close>

theorem zero_increment:
  assumes "checkConfig s = None"
  shows "checkConfig (WithTimestampIncrement 0 s) = None
    \<and> sendPrepareRequest (configOf m (WithTimestampIncrement 0 s)) True c = Stop DivisionByZero"
proof -
  let ?cfg = "configOf m (WithTimestampIncrement 0 s)"
  have z: "TimestampIncrement ?cfg = 0" by (simp add: configOf_def WithTimestampIncrement_def)
  have "Fill ?cfg True c = Stop DivisionByZero"
    by (simp add: Fill_def getTimestamp_def z Let_def)
  then have "makePrepareRequest ?cfg True c = Stop DivisionByZero"
    by (simp add: makePrepareRequest_def)
  then have "sendPrepareRequest ?cfg True c = Stop DivisionByZero"
    by (simp add: sendPrepareRequest_def)
  moreover have "checkConfig (WithTimestampIncrement 0 s) = None"
    using assms unfolding checkConfig_None_iff checkAntiMEV_None_iff
    by (simp add: required_def antiMEVCallbacks_def WithTimestampIncrement_def)
  ultimately show ?thesis by blast
qed

theorem zero_increment_witness:
  "checkConfig (WithTimestampIncrement 0 (applyOptions (sampleOptions (sampleConfig 1 (- 1) 0)))) = None
    \<and> sendPrepareRequest
        (configOf (sampleConfig 1 (- 1) 0)
          (WithTimestampIncrement 0 (applyOptions (sampleOptions (sampleConfig 1 (- 1) 0))))) True
        (newDbft (sampleConfig 1 (- 1) 0)) = Stop DivisionByZero"
proof (rule zero_increment)
  show "checkConfig (applyOptions (sampleOptions (sampleConfig 1 (- 1) 0))) = None"
    unfolding checkConfig_None_iff checkAntiMEV_None_iff by (intro conjI sample_required)
qed

end
