(* ===== verification/Instance.thy ===== *)
theory Instance
  imports Blocks Codec Config_Options
begin

section \<open>The instance of \<open>internal/consensus\<close>\<close>

text \<open>
  \<open>internal/consensus/consensus.go\<close>: the library instantiated with 64-bit transactions, the blocks
  of \<open>Blocks\<close> and ECDSA keys. \<open>sha\<close> is SHA-256, \<open>gobBytes\<close> the bytes of a gob stream, \<open>enc\<close> the gob
  encoding of a block's header fields and \<open>ecdsaSign\<close>, \<open>ecdsaVerify\<close> the primitives of P-256.
\<close>

type_synonym 'priv node = "(Tx64, neoBlock, preBlock, ECDSAPub, 'priv) dbft"
type_synonym history = "(Tx64, neoBlock, preBlock) effect list"

definition newBlockFromContext :: "(byte list \<Rightarrow> Uint256) \<Rightarrow> 'priv node \<Rightarrow> neoBlock option" where
  "newBlockFromContext H c =
     (case TransactionHashes c of
        None \<Rightarrow> None
      | Some hashes \<Rightarrow> NewBlock H (Timestamp c) (BlockIndex c) (PrevHash c) (Nonce c) hashes)"

text \<open>The \<open>GetKeyPair\<close> callback: the first validator that equals the node's public key.\<close>

fun keyIndex :: "ECDSAPub \<Rightarrow> ECDSAPub list \<Rightarrow> nat option" where
  "keyIndex pub [] = None"
| "keyIndex pub (p # ps) = (if Equals pub p then Some 0 else map_option Suc (keyIndex pub ps))"

definition instanceKeyPair ::
    "'priv \<Rightarrow> ECDSAPub \<Rightarrow> ECDSAPub list \<Rightarrow> int \<times> 'priv option \<times> ECDSAPub option" where
  "instanceKeyPair key pub pubs =
     (case keyIndex pub pubs of
        Some i \<Rightarrow> (int i, Some key, Some pub)
      | None \<Rightarrow> (- 1, None, None))"

definition instanceOptions ::
    "(byte list \<Rightarrow> Uint256) \<Rightarrow> (history \<Rightarrow> instant) \<Rightarrow> 'priv \<Rightarrow> ECDSAPub
       \<Rightarrow> (history \<Rightarrow> Uint256 \<Rightarrow> Tx64 option) \<Rightarrow> (history \<Rightarrow> Tx64 list) \<Rightarrow> (history \<Rightarrow> neoBlock \<Rightarrow> bool)
       \<Rightarrow> (history \<Rightarrow> u32) \<Rightarrow> (history \<Rightarrow> Uint256) \<Rightarrow> (history \<Rightarrow> ECDSAPub list)
       \<Rightarrow> (history \<Rightarrow> payload \<Rightarrow> bool)
       \<Rightarrow> (Tx64, neoBlock, preBlock, ECDSAPub, 'priv) setting list" where
  "instanceOptions H now key pub getTx getVerified processBlock currentHeight currentBlockHash
      getValidators verifyPayload =
     [WithTimer (Some now), WithTimePerBlock (Some (\<lambda>_. 5000000000)),
      WithGetKeyPair (Some (instanceKeyPair key pub)),
      WithGetTx (Some getTx), WithGetVerified (Some getVerified), WithBroadcast (Some (Callback 1)),
      WithProcessBlock (Some processBlock), WithCurrentHeight (Some currentHeight),
      WithCurrentBlockHash (Some currentBlockHash), WithGetValidators (Some getValidators),
      WithVerifyPrepareRequest (Some verifyPayload), WithVerifyPrepareResponse (Some verifyPayload),
      WithVerifyCommit (Some verifyPayload),
      WithNewBlockFromContext (Some (newBlockFromContext H)), WithNewConsensusPayload (Some ownPayload),
      WithNewPrepareRequest (Some NewPrepareRequest), WithNewPrepareResponse (Some NewPrepareResponse),
      WithNewChangeView (Some NewChangeView), WithNewCommit (Some NewCommit),
      WithNewRecoveryMessage (Some (NewRecoveryMessage None)), WithNewRecoveryRequest (Some NewRecoveryRequest)]"

lemmas instance_options = sample_options
  WithTimePerBlock_def WithGetTx_def WithGetVerified_def WithBroadcast_def WithProcessBlock_def
  WithVerifyPrepareRequest_def WithVerifyPrepareResponse_def WithVerifyCommit_def

lemma instance_settings:
  "applyOptions (instanceOptions H now key pub gtx gv pb ch cbh vs vp) =
     defaultConfig\<lparr>sTimer := Some now, sTimePerBlock := Some (\<lambda>_. 5000000000),
      sGetKeyPair := Some (instanceKeyPair key pub), sGetTx := Some gtx, sGetVerified := Some gv,
      sBroadcast := Some (Callback 1), sProcessBlock := Some pb, sCurrentHeight := Some ch,
      sCurrentBlockHash := Some cbh, sGetValidators := Some vs, sVerifyPrepareRequest := Some vp,
      sVerifyPrepareResponse := Some vp, sVerifyCommit := Some vp,
      sNewBlockFromContext := Some (newBlockFromContext H), sNewConsensusPayload := Some ownPayload,
      sNewPrepareRequest := Some NewPrepareRequest, sNewPrepareResponse := Some NewPrepareResponse,
      sNewChangeView := Some NewChangeView, sNewCommit := Some NewCommit,
      sNewRecoveryMessage := Some (NewRecoveryMessage None), sNewRecoveryRequest := Some NewRecoveryRequest\<rparr>"
  by (simp only: applyOptions_def instanceOptions_def fold_simps instance_options)

text \<open>
  \<open>consensus.New\<close> never fails: with these options \<open>checkConfig\<close> accepts whatever callbacks are given.
\<close>

lemma instance_accepted:
  "New m (instanceOptions H now key pub gtx gv pb ch cbh vs vp) =
     Inr (configOf m (applyOptions (instanceOptions H now key pub gtx gv pb ch cbh vs vp)),
          newDbft (configOf m (applyOptions (instanceOptions H now key pub gtx gv pb ch cbh vs vp))))"
proof -
  have "checkConfig (applyOptions (instanceOptions H now key pub gtx gv pb ch cbh vs vp)) = None"
    unfolding checkConfig_None_iff checkAntiMEV_None_iff
    by (simp add: instance_settings required_def antiMEVCallbacks_def default_sel)
  then show ?thesis by (simp add: New_def Let_def)
qed

text \<open>\<open>Payload.Hash\<close>: the message is marshalled and hashed twice.\<close>

definition Payload_Hash :: "(byte list \<Rightarrow> byte list) \<Rightarrow> (gobval list \<Rightarrow> byte list) \<Rightarrow> payload \<Rightarrow> stop + Uint256" where
  "Payload_Hash sha gobBytes p = thenDo (MarshalUnsigned p) (\<lambda>data. Ok (Hash256 sha (gobBytes data)))"

subsection \<open>The proposal that the backups accept is the primary's\<close>

lemma newBlock_seconds:
  "nanoSecToSec ts = nanoSecToSec ts' \<Longrightarrow> NewBlock H ts i p n hs = NewBlock H ts' i p n hs"
  by (simp add: NewBlock_def newBase_def nanoSecToSec_def)

lemma accepted_fields:
  assumes "acceptProposal r d = Inr d'"
  shows "Timestamp d' = prepareRequest_Timestamp r" "Nonce d' = reqNonce r"
    "TransactionHashes d' = transactionHashes r" "BlockIndex d' = BlockIndex d" "PrevHash d' = PrevHash d"
  using assms by (auto simp: acceptProposal_def)

lemma header_of_request:
  assumes "acceptProposal r d = Inr d'" and "BlockIndex d = BlockIndex c" and "PrevHash d = PrevHash c"
    and "transactionHashes r = TransactionHashes c" and "reqNonce r = Nonce c"
    and "reqTimestamp r = nanoSecToSec (Timestamp c)"
  shows "newBlockFromContext H d' = newBlockFromContext H c"
proof -
  note f = accepted_fields[OF assms(1)]
  have "nanoSecToSec (Timestamp d') = nanoSecToSec (Timestamp c)"
    by (simp add: f prepareRequest_Timestamp_def nanoSecToSec_secToNanoSec assms(6))
  then show ?thesis
    by (simp add: newBlockFromContext_def f(2-5) assms(2-5) newBlock_seconds[of "Timestamp d'"] split: option.split)
qed

text \<open>
  C31. One header. A backup at the primary's height and previous block, which accepts the
  PrepareRequest that the primary made, builds the header that the primary builds, although the
  request carries the time in seconds. After a transfer over the wire this holds for proposals
  with transactions; from an empty proposal the backup builds no header.
\<close>

theorem header_agreed:
  assumes "BlockIndex d = BlockIndex c" and "PrevHash d = PrevHash c"
    and "r = NewPrepareRequest (Timestamp c) (Nonce c) (TransactionHashes c)"
    and "acceptProposal r d = Inr d'" and "acceptProposal (receivedRequest r) d = Inr w"
  shows "newBlockFromContext H d' = newBlockFromContext H c
    \<and> newBlockFromContext H w = (if elems (TransactionHashes c) = [] then None else newBlockFromContext H c)"
proof
  show "newBlockFromContext H d' = newBlockFromContext H c"
    by (rule header_of_request[OF assms(4,1,2)]) (simp_all add: assms(3) NewPrepareRequest_def)
  show "newBlockFromContext H w = (if elems (TransactionHashes c) = [] then None else newBlockFromContext H c)"
  proof (cases "elems (TransactionHashes c) = []")
    case True
    then have "TransactionHashes w = None"
      using accepted_fields(3)[OF assms(5)] by (simp add: assms(3) receivedRequest_def NewPrepareRequest_def)
    then show ?thesis using True by (simp add: newBlockFromContext_def)
  next
    case False
    have "newBlockFromContext H w = newBlockFromContext H c"
      by (rule header_of_request[OF assms(5,1,2)])
        (use False in \<open>simp_all add: assms(3) receivedRequest_def NewPrepareRequest_def\<close>)
    then show ?thesis using False by simp
  qed
qed

definition sampleProposer :: "nat node" where
  "sampleProposer =
     (newDbft undefined)\<lparr>BlockIndex := 3, PrevHash := 8, Timestamp := 1700000000123000000, Nonce := 6,
       TransactionHashes := Some [1, 2]\<rparr>"

theorem header_agreed_witness:
  "newBlockFromContext sampleMix (sampleProposer\<lparr>Timestamp := 1700000000000000000\<rparr>) = newBlockFromContext sampleMix sampleProposer"
proof -
  let ?r = "NewPrepareRequest (Timestamp sampleProposer) (Nonce sampleProposer) (TransactionHashes sampleProposer)"
  have "acceptProposal ?r sampleProposer = Inr (sampleProposer\<lparr>Timestamp := 1700000000000000000\<rparr>)"
    by (simp add: acceptProposal_def NewPrepareRequest_def sampleProposer_def prepareRequest_Timestamp_def
        nanoSecToSec_def secToNanoSec_def)
  moreover obtain w where "acceptProposal (receivedRequest ?r) sampleProposer = Inr w"
    by (simp add: acceptProposal_def)
  ultimately show ?thesis
    using header_agreed[OF refl refl refl, of sampleProposer _ _ sampleMix] by blast
qed

text \<open>
  C32. Commits verify. If what the curve signs with a key it verifies with the public key, the
  Commit that a node makes for its header is accepted by every node that has the same header.
\<close>

theorem commit_verifies:
  assumes "\<forall>h r s. ecdsaSign k h = Some (r, s) \<longrightarrow> ecdsaVerify pub h r s \<and> r < 2 ^ 256 \<and> s < 2 ^ 256"
    and "newBlockFromContext H c = Some b" and "newBlockFromContext H d = Some b"
    and "Sign sha ecdsaSign k (enc (nbBase b)) = Ok (signer (enc (nbBase b)))"
    and "neoBlock_Sign enc signer b = Some b'"
  shows "neoBlock_Verify enc (Verify sha ecdsaVerify) pub (signature (NewCommit (the (nbSignature b')))) b = Ok True"
proof -
  obtain s where s: "signer (enc (nbBase b)) = Some s" "nbSignature b' = Some s"
    using assms(5) by (auto simp: neoBlock_Sign_def)
  obtain r t where rt: "ecdsaSign k (sha (enc (nbBase b))) = Some (r, t)"
    using assms(4) s(1) by (cases "ecdsaSign k (sha (enc (nbBase b)))") (auto simp: Sign_def)
  then have v: "ecdsaVerify pub (sha (enc (nbBase b))) r t" "r < 2 ^ 256" "t < 2 ^ 256"
    using assms(1) by blast+
  have l: "length s = 64" by (rule Sign_length[OF assms(4)[unfolded s(1)]])
  have "Verify sha ecdsaVerify pub (enc (nbBase b)) s = Ok True"
    using sign_verify[of ecdsaSign k sha "enc (nbBase b)" r t, OF rt v(2,3)] assms(4) s(1) v(1) by auto
  then show ?thesis
    using l s(2) by (simp add: neoBlock_Verify_def NewCommit_def copyInto_id signatureSize_def)
qed

text \<open>A curve on which a signature is the key and a number read off the hash.\<close>

definition toySign :: "nat \<Rightarrow> byte list \<Rightarrow> (nat \<times> nat) option" where
  "toySign k h = Some (k mod 1000, length h mod 1000)"

definition toyVerify :: "ECDSAPub \<Rightarrow> byte list \<Rightarrow> nat \<Rightarrow> nat \<Rightarrow> bool" where
  "toyVerify e h r s \<longleftrightarrow> r = pubX e \<and> s = length h mod 1000"

theorem commit_verifies_witness:
  "\<exists>b (b' :: neoBlock). newBlockFromContext sampleMix sampleProposer = Some b
    \<and> neoBlock_Verify (\<lambda>h. [1]) (Verify rev toyVerify) \<lparr>pubX = 7, pubY = 0\<rparr>
        (signature (NewCommit (the (nbSignature b')))) b = Ok True"
proof -
  obtain b where b: "newBlockFromContext sampleMix sampleProposer = Some b"
    by (rule NewBlock_Some[of sampleMix "Timestamp sampleProposer" "BlockIndex sampleProposer"
          "PrevHash sampleProposer" "Nonce sampleProposer" "[1, 2]"])
      (simp add: newBlockFromContext_def sampleProposer_def)
  have law: "\<forall>h r s. toySign 7 h = Some (r, s) \<longrightarrow> toyVerify \<lparr>pubX = 7, pubY = 0\<rparr> h r s \<and> r < 2 ^ 256 \<and> s < 2 ^ 256"
  proof (intro allI impI)
    fix h :: "byte list" and r s
    assume "toySign 7 h = Some (r, s)"
    then have "r = 7" "s = length h mod 1000" by (simp_all add: toySign_def)
    moreover have "length h mod 1000 < 1000" by simp
    then have "length h mod 1000 < 2 ^ 256" by (rule less_trans) simp
    ultimately show "toyVerify \<lparr>pubX = 7, pubY = 0\<rparr> h r s \<and> r < 2 ^ 256 \<and> s < 2 ^ 256"
      by (simp add: toyVerify_def)
  qed
  obtain sig where sig: "Sign rev toySign 7 [1] = Ok (Some sig)"
    by (simp add: Sign_def toySign_def fillBytes_def)
  have "neoBlock_Sign (\<lambda>h. [1]) (\<lambda>msg. Some sig) b = Some (b\<lparr>nbSignature := Some sig\<rparr>)"
    by (simp add: neoBlock_Sign_def)
  from commit_verifies[where enc = "\<lambda>h. [1]" and signer = "\<lambda>msg. Some sig" and ecdsaSign = toySign
      and k = 7 and ecdsaVerify = toyVerify and pub = "\<lparr>pubX = 7, pubY = 0\<rparr>" and sha = rev,
      OF law b b sig this] b
  show ?thesis by blast
qed

end
