(* ===== verification/Simulation.thy ===== *)
theory Simulation
  imports Instance Node_Safety Sample_Runs
begin

section \<open>The simulation\<close>

text \<open>
  \<open>internal/simulation/main.go\<close>: a cluster of nodes in one process, each with a memory pool, a
  bounded channel of messages and an event loop. A node's ledger and pool change only when it
  processes a block, so they are functions of its history. Left out are flags, logging, pprof and
  signals; \<open>main\<close> starts every \<open>Run\<close> and waits.
\<close>

subsection \<open>The memory pool\<close>

type_synonym memPool = "(Uint256 \<times> Tx64) list"

definition newMemoryPool :: memPool where
  "newMemoryPool = []"

definition pool_Add :: "Tx64 \<Rightarrow> memPool \<Rightarrow> memPool" where
  "pool_Add tx p = (if map_of p (Tx64_Hash tx) = None then AList.update (Tx64_Hash tx) tx p else p)"

definition pool_Get :: "Uint256 \<Rightarrow> memPool \<Rightarrow> Tx64 option" where
  "pool_Get h p = map_of p h"

definition pool_Delete :: "Uint256 \<Rightarrow> memPool \<Rightarrow> memPool" where
  "pool_Delete h p = AList.delete h p"

text \<open>The loop of \<open>GetVerified\<close>: append, count down, stop at zero. \<open>n\<close> is positive.\<close>

fun takeTxs :: "nat \<Rightarrow> Tx64 list \<Rightarrow> Tx64 list" where
  "takeTxs n [] = []"
| "takeTxs n (tx # txs) = tx # (if n - 1 = 0 then [] else takeTxs (n - 1) txs)"

text \<open>\<open>iter\<close> chooses the order in which \<open>range\<close> visits the map; \<open>n\<close> is the flag \<open>-txblock\<close>.\<close>

definition pool_GetVerified :: "nat \<Rightarrow> (Tx64 list \<Rightarrow> Tx64 list) \<Rightarrow> memPool \<Rightarrow> Tx64 list" where
  "pool_GetVerified n iter p =
     (if n = 0 then []
      else let txs = map snd p; xs = iter txs
           in takeTxs n (if mset xs = mset txs then xs else txs))"

definition addTx :: "nat \<Rightarrow> memPool \<Rightarrow> memPool" where
  "addTx k p = fold (\<lambda>i. pool_Add (of_nat i)) [0..<k] p"

definition pool_ok :: "memPool \<Rightarrow> bool" where
  "pool_ok p \<longleftrightarrow> distinct (map fst p) \<and> (\<forall>(h, tx) \<in> set p. h = Tx64_Hash tx)"

lemma takeTxs_take: "0 < n \<Longrightarrow> takeTxs n txs = take n txs"
  by (induction n txs rule: takeTxs.induct) (auto simp: take_Cons')

lemma pool_ok_Add: "pool_ok p \<Longrightarrow> pool_ok (pool_Add tx p)"
  using set_AList_update[of "Tx64_Hash tx" tx p]
  by (auto simp: pool_ok_def pool_Add_def distinct_update)

lemma pool_ok_Delete: "pool_ok p \<Longrightarrow> pool_ok (pool_Delete h p)"
  using set_AList_delete[of h p] by (auto simp: pool_ok_def pool_Delete_def distinct_delete)

lemma map_of_pool: "pool_ok p \<Longrightarrow> map_of p h = Some tx \<Longrightarrow> h = Tx64_Hash tx"
  by (auto simp: pool_ok_def dest!: map_of_SomeD)

lemma pool_mem: "pool_ok p \<Longrightarrow> tx \<in> snd ` set p \<longleftrightarrow> map_of p (Tx64_Hash tx) = Some tx"
  by (force simp: pool_ok_def dest!: map_of_SomeD intro: map_of_is_SomeI)

text \<open>
  The pool is a set of transactions: \<open>Get\<close> finds exactly what was added and not deleted, and
  \<open>GetVerified\<close> returns different transactions of the pool, as many as asked for or all of them.
\<close>

theorem pool_lookup:
  assumes "pool_ok p"
  shows "pool_ok (pool_Add tx p) \<and> pool_ok (pool_Delete h p)
    \<and> pool_Get h' (pool_Add tx p) = (if h' = Tx64_Hash tx then Some tx else pool_Get h' p)
    \<and> pool_Get h' (pool_Delete h p) = (if h' = h then None else pool_Get h' p)
    \<and> distinct (pool_GetVerified n iter p) \<and> length (pool_GetVerified n iter p) = min n (length p)
    \<and> (\<forall>t \<in> set (pool_GetVerified n iter p). pool_Get (Tx64_Hash t) p = Some t)"
proof -
  have add: "pool_Get h' (pool_Add tx p) = (if h' = Tx64_Hash tx then Some tx else pool_Get h' p)"
  proof (cases "map_of p (Tx64_Hash tx)")
    case None
    then show ?thesis by (simp add: pool_Get_def pool_Add_def update_conv')
  next
    case (Some u)
    then have "u = tx" using map_of_pool[OF assms Some] by (simp add: Tx64_Hash_inject)
    then show ?thesis using Some by (auto simp: pool_Get_def pool_Add_def)
  qed
  have del: "pool_Get h' (pool_Delete h p) = (if h' = h then None else pool_Get h' p)"
    by (simp add: pool_Get_def pool_Delete_def delete_conv')
  let ?ts = "map snd p"
  define xs where "xs = (if mset (iter ?ts) = mset ?ts then iter ?ts else ?ts)"
  have ms: "mset xs = mset ?ts" by (simp add: xs_def)
  have "distinct ?ts"
  proof -
    have "map fst p = map Tx64_Hash ?ts" using assms by (force simp: pool_ok_def)
    then show ?thesis using assms by (metis distinct_map pool_ok_def)
  qed
  then have d: "distinct xs" using ms mset_eq_imp_distinct_iff by blast
  have s: "set xs = snd ` set p" using mset_eq_setD[OF ms] by simp
  have l: "length xs = length p" using mset_eq_length[OF ms] by simp
  have g: "pool_GetVerified n iter p = take n xs"
    by (simp add: pool_GetVerified_def takeTxs_take xs_def Let_def)
  have "\<forall>t \<in> set (take n xs). pool_Get (Tx64_Hash t) p = Some t"
    using s pool_mem[OF assms] by (auto simp: pool_Get_def dest: in_set_takeD)
  then show ?thesis
    using add del d l by (simp add: g pool_ok_Add[OF assms] pool_ok_Delete[OF assms] distinct_take min.commute)
qed

lemma pool_ok_addTx: "pool_ok (addTx k newMemoryPool)"
proof -
  have "pool_ok (fold (\<lambda>i. pool_Add (of_nat i)) is p)" if "pool_ok p" for "is" p
    using that by (induction "is" arbitrary: p) (simp_all add: pool_ok_Add)
  moreover have "pool_ok []" by (simp add: pool_ok_def)
  ultimately show ?thesis by (simp add: addTx_def newMemoryPool_def)
qed

theorem pool_lookup_witness:
  "pool_Get (Tx64_Hash 9) (pool_Add 9 (addTx 5 newMemoryPool)) = Some 9
    \<and> pool_Get (Tx64_Hash 9) (pool_Delete (Tx64_Hash 9) (addTx 5 newMemoryPool)) = None
    \<and> length (pool_GetVerified 2 rev (addTx 5 newMemoryPool)) = min 2 (length (addTx 5 newMemoryPool))"
  using pool_lookup[OF pool_ok_addTx, of 9 5 "Tx64_Hash 9" "Tx64_Hash 9" 2 rev] by simp

subsection \<open>The callbacks of a simulated node\<close>

text \<open>\<open>ProcessBlock\<close> removes the block's transactions from the pool and moves the ledger on.\<close>

fun simPool :: "nat \<Rightarrow> history \<Rightarrow> memPool" where
  "simPool txCount [] = addTx txCount newMemoryPool"
| "simPool txCount (e # es) =
     (case e of
        EProcessBlock b ok \<Rightarrow>
          fold (\<lambda>tx. case tx of None \<Rightarrow> id | Some t \<Rightarrow> pool_Delete (Tx64_Hash t))
            (elems (nbTransactions b)) (simPool txCount es)
      | _ \<Rightarrow> simPool txCount es)"

fun simHeight :: "history \<Rightarrow> u32" where
  "simHeight [] = 0"
| "simHeight (e # es) = (case e of EProcessBlock b ok \<Rightarrow> Index (nbBase b) | _ \<Rightarrow> simHeight es)"

fun simLastHash :: "(byte list \<Rightarrow> Uint256) \<Rightarrow> (base \<Rightarrow> byte list) \<Rightarrow> history \<Rightarrow> Uint256" where
  "simLastHash H enc [] = 0"
| "simLastHash H enc (e # es) =
     (case e of EProcessBlock b ok \<Rightarrow> fst (neoBlock_Hash H enc b) | _ \<Rightarrow> simLastHash H enc es)"

text \<open>The flag \<open>-blocked\<close> names a validator whose payloads are dropped.\<close>

definition VerifyPayload :: "int \<Rightarrow> payload \<Rightarrow> bool" where
  "VerifyPayload blocked p \<longleftrightarrow> \<not> (blocked \<noteq> - 1 \<and> validatorIndex p = word_of_int blocked)"

definition sortValidators :: "ECDSAPub list \<Rightarrow> ECDSAPub list" where
  "sortValidators pubs = sort_key pubX pubs"

definition updatePublicKeys :: "ECDSAPub list \<Rightarrow> nat \<Rightarrow> ECDSAPub list" where
  "updatePublicKeys pubs n = sortValidators (take n pubs)"

text \<open>The settings that \<open>initSimNode\<close> passes to \<open>consensus.New\<close>.\<close>

definition simSettings ::
    "(byte list \<Rightarrow> Uint256) \<Rightarrow> (base \<Rightarrow> byte list) \<Rightarrow> (history \<Rightarrow> instant) \<Rightarrow> (Tx64 list \<Rightarrow> Tx64 list)
       \<Rightarrow> nat \<Rightarrow> nat \<Rightarrow> int \<Rightarrow> 'priv \<Rightarrow> ECDSAPub \<Rightarrow> ECDSAPub list
       \<Rightarrow> (Tx64, neoBlock, preBlock, ECDSAPub, 'priv) settings" where
  "simSettings H enc now iter txPerBlock txCount blocked key pub validators =
     applyOptions (instanceOptions H now key pub
       (\<lambda>es h. pool_Get h (simPool txCount es)) (\<lambda>es. pool_GetVerified txPerBlock iter (simPool txCount es))
       (\<lambda>es b. True) simHeight (simLastHash H enc) (\<lambda>es. validators) (\<lambda>es. VerifyPayload blocked))"

lemma Compare_le: "Compare p q \<le> 0 \<longleftrightarrow> pubX p \<le> pubX q"
  by (auto simp: Compare_def)

subsection \<open>The cluster\<close>

text \<open>
  The steps of the cluster: a node starts, its timer fires, or it takes a message from its
  channel. A call runs to its end before another step; what it broadcasts is then put into the
  channels of the others, unless they are full. A call that stops ends the whole process: no
  step. The timer may fire at any time.
\<close>

record ('tx, 'b, 'pb, 'pub, 'priv) simNode =
  snState :: "('tx, 'b, 'pb, 'pub, 'priv) dbft option"
  snMessages :: "payload list"

definition defaultChanSize :: nat where
  "defaultChanSize = 100"

definition chanSend :: "payload \<Rightarrow> payload list \<Rightarrow> payload list" where
  "chanSend m q = (if length q < defaultChanSize then q @ [m] else q)"

definition broadcastsOf ::
    "('tx, 'b, 'pb, 'pub, 'priv) dbft \<Rightarrow> ('tx, 'b, 'pb, 'pub, 'priv) dbft \<Rightarrow> payload list" where
  "broadcastsOf c d =
     rev (List.map_filter (\<lambda>e. case e of EBroadcast m \<Rightarrow> Some m | _ \<Rightarrow> None)
            (take (length (log d) - length (log c)) (log d)))"

definition sendToOthers ::
    "nat \<Rightarrow> payload list \<Rightarrow> ('tx, 'b, 'pb, 'pub, 'priv) simNode list \<Rightarrow> ('tx, 'b, 'pb, 'pub, 'priv) simNode list" where
  "sendToOthers i ms cl =
     map (\<lambda>j. if j \<noteq> i then (cl ! j)\<lparr>snMessages := fold chanSend ms (snMessages (cl ! j))\<rparr> else cl ! j)
       [0..<length cl]"

definition simInit :: "nat \<Rightarrow> ('tx, 'b, 'pb, 'pub, 'priv) simNode list" where
  "simInit n = replicate n \<lparr>snState = None, snMessages = []\<rparr>"

inductive simStep ::
    "(nat \<Rightarrow> ('tx, 'b, 'pb, 'pub, 'priv) config) \<Rightarrow> ('tx, 'b, 'pb, 'pub, 'priv) simNode list
       \<Rightarrow> ('tx, 'b, 'pb, 'pub, 'priv) simNode list \<Rightarrow> bool"
  for cfg where
  sim_start: "i < length cl \<Longrightarrow> snState (cl ! i) = None \<Longrightarrow>
     exec (cfg i) (CallStart 0) (newDbft (cfg i)) = Inr d \<Longrightarrow>
     simStep cfg cl (sendToOthers i (broadcastsOf (newDbft (cfg i)) d) (cl[i := (cl ! i)\<lparr>snState := Some d\<rparr>]))"
| sim_timeout: "i < length cl \<Longrightarrow> snState (cl ! i) = Some c \<Longrightarrow>
     exec (cfg i) (CallTimeout (timerHeight (log c)) (timerView (log c))) c = Inr d \<Longrightarrow>
     simStep cfg cl (sendToOthers i (broadcastsOf c d) (cl[i := (cl ! i)\<lparr>snState := Some d\<rparr>]))"
| sim_message: "i < length cl \<Longrightarrow> snState (cl ! i) = Some c \<Longrightarrow> snMessages (cl ! i) = m # ms \<Longrightarrow>
     exec (cfg i) (CallReceive m) c = Inr d \<Longrightarrow>
     simStep cfg cl (sendToOthers i (broadcastsOf c d)
       (cl[i := (cl ! i)\<lparr>snState := Some d, snMessages := ms\<rparr>]))"

subsection \<open>What a run of the cluster can do\<close>

lemma lstep_log_grows:
  assumes "lstep cfg c d"
  shows "\<exists>es. log d = es @ log c \<and> (\<forall>e \<in> set es. sameHeight e)"
  using assms
proof cases
  case lquiet
  then show ?thesis by (auto simp: quiet_def dest: quietEffect_sameHeight)
next
  case (lsaycommit m)
  then show ?thesis by (intro exI[of _ "[EBroadcast (SetValidatorIndex (word_of_int (MyIndex c)) m)]"]) simp
qed simp_all

lemma nstep_log_grows:
  assumes "nstep cfg c d"
  shows "\<exists>es. log d = es @ log c \<and> (\<forall>e \<in> set es. sameHeight e)"
  using assms
proof cases
  case nview_same
  then show ?thesis
  proof cases
    case klocal
    then show ?thesis by (rule lstep_log_grows)
  next
    case (kblock b ok)
    then show ?thesis by (intro exI[of _ "[EProcessBlock b ok]"]) simp
  qed
next
  case (nview_change view ts)
  then show ?thesis using reset_Ok(13) by fastforce
qed

lemma nsteps_log_grows:
  "nsteps cfg c d \<Longrightarrow> \<exists>es. log d = es @ log c \<and> (\<forall>e \<in> set es. sameHeight e)"
proof (induction rule: rtranclp_induct)
  case (step t u)
  then obtain es fs where "log t = es @ log c" "\<forall>e \<in> set es. sameHeight e"
    "log u = fs @ log t" "\<forall>e \<in> set fs. sameHeight e"
    using nstep_log_grows by meson
  then show ?case by (intro exI[of _ "fs @ es"]) auto
qed simp

text \<open>A node that was started and never reset: its whole history is one height.\<close>

definition neverReset :: "('tx, 'b, 'pb, 'pub, 'priv) dbft \<Rightarrow> bool" where
  "neverReset c \<longleftrightarrow> log c = heightLog (log c) @ [ECall (CallStart 0)]"

lemma neverReset_grows:
  assumes "log d = es @ log c" and "\<forall>e \<in> set es. sameHeight e" and "neverReset c"
  shows "neverReset d"
proof -
  have "heightLog (log d) = es @ heightLog (log c)"
    unfolding assms(1) by (rule heightLog_append) (use assms(2) in blast)
  then show ?thesis using assms(1,3) by (simp add: neverReset_def)
qed

lemma neverReset_start:
  assumes "exec cfg (CallStart 0) (newDbft cfg) = Inr d"
  shows "neverReset d"
proof -
  obtain ts c0 c1 where r: "reset cfg 0 ts c0 = Inr c1" and n: "nsteps cfg c1 d"
    and l: "log c0 = ECall (CallStart 0) # log (newDbft cfg)"
    by (rule height_call_steps[OF assms _ newDbft_cache]) simp
  obtain es where es: "log d = es @ log c1" "\<forall>e \<in> set es. sameHeight e"
    using nsteps_log_grows[OF n] by blast
  have "log c1 = [ECall (CallStart 0)]" using reset_Ok(13)[OF r] l by (simp add: newDbft_def)
  then have "neverReset c1" by (simp add: neverReset_def)
  then show ?thesis by (rule neverReset_grows[OF es])
qed

lemma neverReset_call:
  assumes "reachable cfg c" and "exec cfg a c = Inr d" and "\<not> isHeightCall a" and "neverReset c"
  shows "neverReset d"
proof -
  have "nsteps cfg c d"
    using exec_may[OF assms(2) reachable_wf[OF assms(1)] assms(3)] by (simp add: may_def)
  then show ?thesis using nsteps_log_grows neverReset_grows assms(4) by meson
qed

definition node_ok ::
    "('tx, 'b, 'pb, 'pub, 'priv) config \<Rightarrow> ('tx, 'b, 'pb, 'pub, 'priv) simNode \<Rightarrow> bool" where
  "node_ok cfg n \<longleftrightarrow>
     length (snMessages n) \<le> defaultChanSize
     \<and> (case snState n of None \<Rightarrow> True | Some c \<Rightarrow> reachable cfg c \<and> neverReset c)"

definition cluster_ok ::
    "(nat \<Rightarrow> ('tx, 'b, 'pb, 'pub, 'priv) config) \<Rightarrow> ('tx, 'b, 'pb, 'pub, 'priv) simNode list \<Rightarrow> bool" where
  "cluster_ok cfg cl \<longleftrightarrow> (\<forall>i < length cl. node_ok (cfg i) (cl ! i))"

lemma fold_chanSend_length: "length q \<le> defaultChanSize \<Longrightarrow> length (fold chanSend ms q) \<le> defaultChanSize"
  by (induction ms arbitrary: q) (simp_all add: chanSend_def)

lemma cluster_ok_step:
  assumes "cluster_ok cfg cl" and "i < length cl" and "reachable (cfg i) d" and "neverReset d"
    and "snState n = Some d" and "length (snMessages n) \<le> defaultChanSize"
  shows "cluster_ok cfg (sendToOthers i ms (cl[i := n]))"
  unfolding cluster_ok_def
proof (intro allI impI)
  fix j
  assume "j < length (sendToOthers i ms (cl[i := n]))"
  then have j: "j < length cl" by (simp add: sendToOthers_def)
  have old: "node_ok (cfg j) (cl ! j)" using assms(1) j by (simp add: cluster_ok_def)
  show "node_ok (cfg j) (sendToOthers i ms (cl[i := n]) ! j)"
    using old j assms(2-) fold_chanSend_length[of "snMessages (cl ! j)" ms]
    by (cases "j = i") (simp_all add: sendToOthers_def node_ok_def)
qed

lemma simStep_ok: "simStep cfg cl cl' \<Longrightarrow> cluster_ok cfg cl \<Longrightarrow> cluster_ok cfg cl'"
proof (induction rule: simStep.induct)
  case (sim_start i cl d)
  have r: "reachable (cfg i) d" by (rule reach_start[OF sim_start(3)])
  have n: "node_ok (cfg i) (cl ! i)" using sim_start(1,4) by (simp add: cluster_ok_def)
  show ?case
    by (rule cluster_ok_step[OF sim_start(4,1) r neverReset_start[OF sim_start(3)]])
      (use n in \<open>simp_all add: node_ok_def\<close>)
next
  case (sim_timeout i cl c d)
  have n: "node_ok (cfg i) (cl ! i)" using sim_timeout(1,4) by (simp add: cluster_ok_def)
  then have c: "reachable (cfg i) c" "neverReset c" using sim_timeout(2) by (simp_all add: node_ok_def)
  show ?case
    by (rule cluster_ok_step[OF sim_timeout(4,1) reach_call[OF c(1) _ sim_timeout(3)]
          neverReset_call[OF c(1) sim_timeout(3) _ c(2)]])
      (use n in \<open>simp_all add: node_ok_def\<close>)
next
  case (sim_message i cl c m ms d)
  have n: "node_ok (cfg i) (cl ! i)" using sim_message(1,5) by (simp add: cluster_ok_def)
  then have c: "reachable (cfg i) c" "neverReset c" using sim_message(2) by (simp_all add: node_ok_def)
  show ?case
    by (rule cluster_ok_step[OF sim_message(5,1) reach_call[OF c(1) _ sim_message(4)]
          neverReset_call[OF c(1) sim_message(4) _ c(2)]])
      (use n sim_message(3) in \<open>simp_all add: node_ok_def\<close>)
qed

lemma simSteps_ok: "(simStep cfg)\<^sup>*\<^sup>* cl cl' \<Longrightarrow> cluster_ok cfg cl \<Longrightarrow> cluster_ok cfg cl'"
  by (induction rule: rtranclp_induct) (auto intro: simStep_ok)

lemma cluster_ok_init: "cluster_ok cfg (simInit n)"
  by (simp add: cluster_ok_def simInit_def node_ok_def)

text \<open>
  C40. A cluster makes one block. In every run of the cluster the channels stay within their size,
  every started node is in a reachable state of the algorithm, and no node ever accepts a second
  block: nothing in the event loop calls \<open>Reset\<close>.
\<close>

theorem simulation_one_block:
  assumes "(simStep cfg)\<^sup>*\<^sup>* (simInit n) cl" and "i < length cl"
  shows "length (snMessages (cl ! i)) \<le> defaultChanSize
    \<and> (case snState (cl ! i) of
         None \<Rightarrow> True
       | Some c \<Rightarrow> reachable (cfg i) c \<and> length (filter isAccepted (log c)) \<le> 1)"
proof -
  have ok: "node_ok (cfg i) (cl ! i)"
    using simSteps_ok[OF assms(1) cluster_ok_init] assms(2) by (simp add: cluster_ok_def)
  have "length (filter isAccepted (log c)) \<le> 1" if "reachable (cfg i) c" "neverReset c" for c
  proof -
    have "filter isAccepted (log c) = filter isAccepted (heightLog (log c))"
    proof -
      have "filter isAccepted (log c) = filter isAccepted (heightLog (log c) @ [ECall (CallStart 0)])"
        by (rule arg_cong[OF that(2)[unfolded neverReset_def]])
      then show ?thesis by (simp add: isAccepted_def)
    qed
    then show ?thesis using accepted.holds[OF that(1)] by (simp add: acceptedOnce_def split: if_split_asm)
  qed
  then show ?thesis using ok by (auto simp: node_ok_def split: option.splits)
qed

lemma plain_started: "\<exists>d. exec (plain 0) (CallStart 0) (newDbft (plain 0)) = Inr d"
proof -
  have "isRun (exec (plain 0) (CallStart 0) (newDbft (plain 0)))" by code_simp
  then show ?thesis by (auto simp: isRun_def split: sum.splits)
qed

theorem simulation_one_block_witness:
  "\<exists>cl c. (simStep plain)\<^sup>*\<^sup>* (simInit 4) cl \<and> snState (cl ! 0) = Some c
    \<and> length (snMessages (cl ! 0)) \<le> defaultChanSize \<and> reachable (plain 0) c
    \<and> length (filter isAccepted (log c)) \<le> 1"
proof -
  obtain d where d: "exec (plain 0) (CallStart 0) (newDbft (plain 0)) = Inr d" using plain_started by blast
  let ?cl = "sendToOthers 0 (broadcastsOf (newDbft (plain 0)) d)
      ((simInit 4)[0 := (simInit 4 ! 0)\<lparr>snState := Some d\<rparr>])"
  have step: "(simStep plain)\<^sup>*\<^sup>* (simInit 4) ?cl"
    by (rule r_into_rtranclp, rule sim_start[where cfg = plain and i = 0, OF _ _ d]) (simp_all add: simInit_def)
  have s: "snState (?cl ! 0) = Some d" "0 < length ?cl" by (simp_all add: sendToOthers_def simInit_def)
  show ?thesis using simulation_one_block[OF step s(2)] s(1) step by auto
qed

text \<open>
  The validators are in order. \<open>updatePublicKeys\<close> gives every node the keys of the first \<open>n\<close>
  nodes, each as often as it occurs there, in ascending order by \<open>Compare\<close>.
\<close>

theorem validators_sorted:
  "mset (updatePublicKeys pubs n) = mset (take n pubs)
   \<and> sorted_wrt (\<lambda>p q. Compare p q \<le> 0) (updatePublicKeys pubs n)"
proof
  show "mset (updatePublicKeys pubs n) = mset (take n pubs)"
    by (simp add: updatePublicKeys_def sortValidators_def)
  have "sorted (map pubX (updatePublicKeys pubs n))"
    by (simp add: updatePublicKeys_def sortValidators_def)
  then show "sorted_wrt (\<lambda>p q. Compare p q \<le> 0) (updatePublicKeys pubs n)"
    by (simp add: Compare_le sorted_map)
qed

end
