(* ===== verification/Proposal.thy ===== *)
theory Proposal
  imports Keeping Handlers Simulation
begin

section \<open>The proposal and its transactions\<close>

text \<open>
  \<open>hasAllTransactions\<close> compares two lengths. This theory shows that on every reachable state the
  comparison means what its name says: the stored transactions always belong to the proposal, so
  when the lengths agree the block is made of exactly the proposed transactions, in order. The
  memory pool is an interface (locale \<open>tx_pool\<close>): \<open>GetTx\<close> answers a hash with a transaction that has
  it. The invariant is carried through every operation with the rules of \<open>Keeping\<close>.
\<close>

subsection \<open>The invariant\<close>

text \<open>What is stored belongs to the proposal; nothing is stored before there is a proposal.\<close>

definition proposal_part ::
    "('tx, 'b, 'pb, 'pub, 'priv) config \<Rightarrow> ('tx, 'b, 'pb, 'pub, 'priv) dbft \<Rightarrow> bool" where
  "proposal_part cfg c \<longleftrightarrow>
     distinct (map fst (Transactions c))
     \<and> fst ` set (Transactions c) \<subseteq> set (elems (TransactionHashes c))
     \<and> (\<forall>(h, tx) \<in> set (Transactions c). txHash cfg tx = h)
     \<and> set (MissingTransactions c) \<subseteq> set (elems (TransactionHashes c))
     \<and> PrimaryIndex c < length (PreparationPayloads c)
     \<and> PrimaryIndex c = GetPrimaryIndex c (ViewNumber c)"

definition proposal_ok ::
    "('tx, 'b, 'pb, 'pub, 'priv) config \<Rightarrow> ('tx, 'b, 'pb, 'pub, 'priv) dbft \<Rightarrow> bool" where
  "proposal_ok cfg c \<longleftrightarrow>
     proposal_part cfg c
     \<and> (RequestSentOrReceived c \<or> Transactions c = [] \<and> MissingTransactions c = [])"

lemma proposal_part_upd [simp]:
  "proposal_part cfg (c\<lparr>log := l\<rparr>) = proposal_part cfg c"
  "proposal_part cfg (c\<lparr>dcache := ca\<rparr>) = proposal_part cfg c"
  "proposal_part cfg (c\<lparr>recovering := x\<rparr>) = proposal_part cfg c"
  "proposal_part cfg (c\<lparr>txSubscriptionOn := x\<rparr>) = proposal_part cfg c"
  "proposal_part cfg (c\<lparr>prepareSentTime := t\<rparr>) = proposal_part cfg c"
  "proposal_part cfg (c\<lparr>rttEstimates := r\<rparr>) = proposal_part cfg c"
  "proposal_part cfg (c\<lparr>LastSeenMessage := ls\<rparr>) = proposal_part cfg c"
  "proposal_part cfg (c\<lparr>ChangeViewPayloads := ps\<rparr>) = proposal_part cfg c"
  "proposal_part cfg (c\<lparr>CommitPayloads := ps\<rparr>) = proposal_part cfg c"
  "proposal_part cfg (c\<lparr>PreCommitPayloads := ps\<rparr>) = proposal_part cfg c"
  "proposal_part cfg (c\<lparr>header := h\<rparr>) = proposal_part cfg c"
  "proposal_part cfg (c\<lparr>preHeader := ph\<rparr>) = proposal_part cfg c"
  "proposal_part cfg (c\<lparr>blockSet := x\<rparr>) = proposal_part cfg c"
  "proposal_part cfg (c\<lparr>preBlockSet := x\<rparr>) = proposal_part cfg c"
  "proposal_part cfg (c\<lparr>blockProcessed := x\<rparr>) = proposal_part cfg c"
  "proposal_part cfg (c\<lparr>preBlockProcessed := x\<rparr>) = proposal_part cfg c"
  "proposal_part cfg (c\<lparr>lastBlockTime := t\<rparr>) = proposal_part cfg c"
  "proposal_part cfg (c\<lparr>lastBlockIndex := i\<rparr>) = proposal_part cfg c"
  "proposal_part cfg (c\<lparr>lastBlockView := v\<rparr>) = proposal_part cfg c"
  "proposal_part cfg (c\<lparr>PreparationPayloads := (PreparationPayloads c)[j := m]\<rparr>) = proposal_part cfg c"
  by (simp_all add: proposal_part_def GetPrimaryIndex_def Let_def)

lemma RequestSentOrReceived_keep [simp]:
  "RequestSentOrReceived (c\<lparr>log := l\<rparr>) = RequestSentOrReceived c"
  "RequestSentOrReceived (c\<lparr>dcache := ca\<rparr>) = RequestSentOrReceived c"
  "RequestSentOrReceived (c\<lparr>recovering := x\<rparr>) = RequestSentOrReceived c"
  "RequestSentOrReceived (c\<lparr>txSubscriptionOn := x\<rparr>) = RequestSentOrReceived c"
  "RequestSentOrReceived (c\<lparr>prepareSentTime := t\<rparr>) = RequestSentOrReceived c"
  "RequestSentOrReceived (c\<lparr>rttEstimates := r\<rparr>) = RequestSentOrReceived c"
  "RequestSentOrReceived (c\<lparr>LastSeenMessage := ls\<rparr>) = RequestSentOrReceived c"
  "RequestSentOrReceived (c\<lparr>ChangeViewPayloads := ps\<rparr>) = RequestSentOrReceived c"
  "RequestSentOrReceived (c\<lparr>CommitPayloads := ps\<rparr>) = RequestSentOrReceived c"
  "RequestSentOrReceived (c\<lparr>PreCommitPayloads := ps\<rparr>) = RequestSentOrReceived c"
  "RequestSentOrReceived (c\<lparr>header := h\<rparr>) = RequestSentOrReceived c"
  "RequestSentOrReceived (c\<lparr>preHeader := ph\<rparr>) = RequestSentOrReceived c"
  "RequestSentOrReceived (c\<lparr>blockSet := x\<rparr>) = RequestSentOrReceived c"
  "RequestSentOrReceived (c\<lparr>preBlockSet := x\<rparr>) = RequestSentOrReceived c"
  "RequestSentOrReceived (c\<lparr>blockProcessed := x\<rparr>) = RequestSentOrReceived c"
  "RequestSentOrReceived (c\<lparr>preBlockProcessed := x\<rparr>) = RequestSentOrReceived c"
  "RequestSentOrReceived (c\<lparr>lastBlockTime := t\<rparr>) = RequestSentOrReceived c"
  "RequestSentOrReceived (c\<lparr>lastBlockIndex := i\<rparr>) = RequestSentOrReceived c"
  "RequestSentOrReceived (c\<lparr>lastBlockView := v\<rparr>) = RequestSentOrReceived c"
  by (simp_all add: RequestSentOrReceived_def)

lemma proposal_ok_upd [simp]:
  "proposal_ok cfg (c\<lparr>log := l\<rparr>) = proposal_ok cfg c"
  "proposal_ok cfg (c\<lparr>dcache := ca\<rparr>) = proposal_ok cfg c"
  "proposal_ok cfg (c\<lparr>recovering := x\<rparr>) = proposal_ok cfg c"
  "proposal_ok cfg (c\<lparr>txSubscriptionOn := x\<rparr>) = proposal_ok cfg c"
  "proposal_ok cfg (c\<lparr>prepareSentTime := t\<rparr>) = proposal_ok cfg c"
  "proposal_ok cfg (c\<lparr>rttEstimates := r\<rparr>) = proposal_ok cfg c"
  "proposal_ok cfg (c\<lparr>LastSeenMessage := ls\<rparr>) = proposal_ok cfg c"
  "proposal_ok cfg (c\<lparr>ChangeViewPayloads := ps\<rparr>) = proposal_ok cfg c"
  "proposal_ok cfg (c\<lparr>CommitPayloads := ps\<rparr>) = proposal_ok cfg c"
  "proposal_ok cfg (c\<lparr>PreCommitPayloads := ps\<rparr>) = proposal_ok cfg c"
  "proposal_ok cfg (c\<lparr>header := h\<rparr>) = proposal_ok cfg c"
  "proposal_ok cfg (c\<lparr>preHeader := ph\<rparr>) = proposal_ok cfg c"
  "proposal_ok cfg (c\<lparr>blockSet := x\<rparr>) = proposal_ok cfg c"
  "proposal_ok cfg (c\<lparr>preBlockSet := x\<rparr>) = proposal_ok cfg c"
  "proposal_ok cfg (c\<lparr>blockProcessed := x\<rparr>) = proposal_ok cfg c"
  "proposal_ok cfg (c\<lparr>preBlockProcessed := x\<rparr>) = proposal_ok cfg c"
  "proposal_ok cfg (c\<lparr>lastBlockTime := t\<rparr>) = proposal_ok cfg c"
  "proposal_ok cfg (c\<lparr>lastBlockIndex := i\<rparr>) = proposal_ok cfg c"
  "proposal_ok cfg (c\<lparr>lastBlockView := v\<rparr>) = proposal_ok cfg c"
  by (simp_all add: proposal_ok_def)

lemma proposal_ok_put:
  "proposal_ok cfg c \<Longrightarrow> proposal_ok cfg (c\<lparr>PreparationPayloads := (PreparationPayloads c)[i := Some m]\<rparr>)"
  by (auto simp: proposal_ok_def RequestSentOrReceived_def slot_update)

lemma proposal_ok_drop:
  "proposal_ok cfg c \<Longrightarrow> i \<noteq> PrimaryIndex c \<Longrightarrow>
     proposal_ok cfg (c\<lparr>PreparationPayloads := (PreparationPayloads c)[i := None]\<rparr>)"
  by (auto simp: proposal_ok_def RequestSentOrReceived_def slot_update)

text \<open>The proposal is complete when the request is stored.\<close>

lemma proposal_part_stored:
  assumes "proposal_part cfg c"
  shows "proposal_ok cfg (c\<lparr>PreparationPayloads := (PreparationPayloads c)[PrimaryIndex c := Some m]\<rparr>)"
proof -
  have "PrimaryIndex c < length (PreparationPayloads c)" using assms by (simp add: proposal_part_def)
  then show ?thesis
    using assms unfolding proposal_ok_def proposal_part_upd by (simp add: RequestSentOrReceived_def)
qed

subsection \<open>The sending and checking half\<close>

text \<open>The primary of the round is fixed meanwhile.\<close>

abbreviation partAt ::
    "('tx, 'b, 'pb, 'pub, 'priv) config \<Rightarrow> nat \<Rightarrow> ('tx, 'b, 'pb, 'pub, 'priv) dbft \<Rightarrow> bool" where
  "partAt cfg k c \<equiv> proposal_part cfg c \<and> PrimaryIndex c = k"

interpretation part: indifferent cfg "partAt cfg k" for cfg k
  by unfold_locales simp_all

interpretation whole: indifferent cfg "proposal_ok cfg" for cfg
  by unfold_locales (simp_all add: proposal_ok_put)

subsection \<open>Establishing the invariant\<close>

lemma reset_proposal:
  assumes "reset cfg view ts c = Inr d"
  shows "proposal_ok cfg d"
proof -
  let ?r = "resetState cfg view ts c"
  obtain seen where n: "ctxN ?r \<noteq> 0" and d: "d = (enterView view ?r)\<lparr>LastSeenMessage := seen\<rparr>"
    by (rule reset_OkE[OF assms])
  have e: "Transactions ?r = []" "MissingTransactions ?r = []" "length (PreparationPayloads ?r) = ctxN ?r"
    by (simp_all add: resetState_def resetRound_sel ctxN_def)
  have p: "GetPrimaryIndex (enterView view ?r) view = GetPrimaryIndex ?r view"
    by (simp add: enterView_def GetPrimaryIndex_def Let_def)
  have "GetPrimaryIndex ?r view < ctxN ?r" using n by (intro GetPrimaryIndex_less) simp
  then have "proposal_ok cfg (enterView view ?r)"
    using e p by (simp add: proposal_ok_def proposal_part_def enterView_def)
  then show ?thesis by (simp add: d)
qed

lemma dropOtherResponse_part: "keeps (partAt cfg k) (dropOtherResponse cfg msg i)"
  by (rule keepsI) (auto simp: dropOtherResponse_def split: option.splits if_splits)

lemma updateExistingPayloads_part: "keeps (partAt cfg k) (updateExistingPayloads cfg msg)"
  by (rule part.updateExistingPayloads_keeps) (rule dropOtherResponse_part)

lemma fold_update:
  assumes "distinct (map fst xs)"
  shows "distinct (map fst (fold (\<lambda>t. AList.update (k t) t) ts xs))"
    and "fst ` set (fold (\<lambda>t. AList.update (k t) t) ts xs) = fst ` set xs \<union> k ` set ts"
    and "\<forall>(h, t) \<in> set xs. k t = h \<Longrightarrow> \<forall>(h, t) \<in> set (fold (\<lambda>t. AList.update (k t) t) ts xs). k t = h"
proof -
  show "distinct (map fst (fold (\<lambda>t. AList.update (k t) t) ts xs))"
    using assms by (induction ts arbitrary: xs) (simp_all add: distinct_update)
  show "fst ` set (fold (\<lambda>t. AList.update (k t) t) ts xs) = fst ` set xs \<union> k ` set ts"
    by (induction ts arbitrary: xs) (auto simp: dom_update)
  show "\<forall>(h, t) \<in> set xs. k t = h \<Longrightarrow> \<forall>(h, t) \<in> set (fold (\<lambda>t. AList.update (k t) t) ts xs). k t = h"
  proof (induction ts arbitrary: xs)
    case (Cons t ts)
    have "\<forall>(h, t) \<in> set (AList.update (k t) t xs). k t = h"
      using set_AList_update[of "k t" t xs] Cons.prems by fastforce
    then show ?case using Cons.IH by simp
  qed simp
qed

lemma Fill_proposal:
  assumes "proposal_ok cfg c" and "\<not> RequestSentOrReceived c" and "Fill cfg force c = Inr (filled, d)"
  shows "if filled then proposal_part cfg d \<and> PrimaryIndex d = PrimaryIndex c \<and> MyIndex d = MyIndex c else d = c"
proof -
  let ?txx = "GetVerified cfg (log c)"
  have e: "Transactions c = []" "MissingTransactions c = []" "PrimaryIndex c < length (PreparationPayloads c)"
    "PrimaryIndex c = GetPrimaryIndex c (ViewNumber c)"
    using assms(1,2) by (auto simp: proposal_ok_def proposal_part_def)
  note f = fold_update[of "[]" "txHash cfg" ?txx]
  define c1 where "c1 t = c\<lparr>Nonce := Rand cfg (log c), TransactionHashes := Some (map (txHash cfg) ?txx),
      Transactions := fold (\<lambda>tx. AList.update (txHash cfg tx) tx) ?txx (Transactions c), Timestamp := t\<rparr>" for t
  have c1: "proposal_part cfg (c1 t) \<and> PrimaryIndex (c1 t) = PrimaryIndex c \<and> MyIndex (c1 t) = MyIndex c" for t
    using f e by (simp add: proposal_part_def GetPrimaryIndex_def Let_def c1_def)
  show ?thesis
  proof (cases "cfgMaxTimePerBlock cfg \<noteq> None \<and> \<not> force \<and> ?txx = []")
    case True
    then show ?thesis using assms(3) by (simp add: Fill_def)
  next
    case False
    let ?c = "c1 (lastBlockTimestamp c + TimestampIncrement cfg)"
    obtain now where "Ok (True, if now > lastBlockTimestamp c + TimestampIncrement cfg
        then ?c\<lparr>Timestamp := now\<rparr> else ?c) = Inr (filled, d)"
      using assms(3) False unfolding Fill_def Let_def if_not_P[OF False] c1_def by (elim thenDo_OkE)
    moreover have "?c\<lparr>Timestamp := now\<rparr> = c1 now" by (simp add: c1_def)
    ultimately have "filled \<and> (\<exists>t. d = c1 t)" by (simp split: if_split_asm) blast+
    then show ?thesis using c1 by auto
  qed
qed

lemma proposeRequest_proposal:
  assumes "proposal_part cfg c" and "IsPrimary c" and "proposeRequest cfg msg c = Inr d"
  shows "proposal_ok cfg d"
proof -
  let ?c = "c\<lparr>txSubscriptionOn := False\<rparr>"
  have "proposal_part cfg ?c" using assms(1) by simp
  then have "proposal_ok cfg (?c\<lparr>PreparationPayloads := (PreparationPayloads ?c)[PrimaryIndex ?c := Some msg]\<rparr>)"
    by (rule proposal_part_stored)
  then have p: "proposal_ok cfg (c\<lparr>txSubscriptionOn := False,
      PreparationPayloads := (PreparationPayloads c)[nat (MyIndex c) := Some msg]\<rparr>)"
    using assms(2) by (simp add: IsPrimary_def)
  have k: "keeps (proposal_ok cfg) (steps
      [broadcast msg, (\<lambda>c. Ok (c\<lparr>prepareSentTime := TimerNow cfg (log c)\<rparr>)),
       (\<lambda>c. changeTimer (if ViewNumber c = 0
             then wrap64 (shl64 (timePerBlock c) (unat (ViewNumber c + 1)) - timePerBlock c)
             else shl64 (timePerBlock c) (unat (ViewNumber c + 1))) c), checkPrepare cfg])"
    by (intro keep whole.broadcast_keeps whole.changeTimer_keeps whole.checkPrepare_keeps) simp
  show ?thesis
    by (rule keepsD[OF k p]) (use assms(3) in \<open>simp add: proposeRequest_def unsubscribeFromTransactions_def\<close>)
qed

lemma sendPrepareRequest_proposal:
  assumes "proposal_ok cfg c" and "\<not> RequestSentOrReceived c" and "IsPrimary c"
    and "sendPrepareRequest cfg force c = Inr d"
  shows "proposal_ok cfg d"
proof -
  have made: "if m = None then d1 = c1 else proposal_part cfg d1 \<and> IsPrimary d1"
    if "makePrepareRequest cfg force c1 = Inr (m, d1)" "proposal_ok cfg c1" "\<not> RequestSentOrReceived c1"
      "IsPrimary c1" for c1 d1 m
    using that(1,4) Fill_proposal[OF that(2,3)]
    by (auto simp: makePrepareRequest_def thenDo_Ok_iff IsPrimary_def split: if_splits)
  obtain m c1 where m: "makePrepareRequest cfg force c = Inr (m, c1)"
    and r: "(case m of Some msg \<Rightarrow> proposeRequest cfg msg c1
       | None \<Rightarrow> thenDo (subscribeForTransactions c1) (\<lambda>c2.
           thenDo (makePrepareRequest cfg force c2) (\<lambda>(m', c3).
             case m' of
               Some msg \<Rightarrow> proposeRequest cfg msg c3
             | None \<Rightarrow> changeTimer (wrap64 (maxTimePerBlock c3 - timePerBlock c3)) c3))) = Inr d"
    using assms(4) by (auto simp: sendPrepareRequest_def thenDo_Ok_iff)
  show ?thesis
  proof (cases m)
    case (Some msg)
    then show ?thesis using r made[OF m assms(1-3)] proposeRequest_proposal[of cfg c1 msg d] by simp
  next
    case None
    then have "c1 = c" using made[OF m assms(1-3)] by simp
    then obtain c2 m' c3 where s: "subscribeForTransactions c = Inr c2"
      and m': "makePrepareRequest cfg force c2 = Inr (m', c3)"
      and r': "(case m' of Some msg \<Rightarrow> proposeRequest cfg msg c3
             | None \<Rightarrow> changeTimer (wrap64 (maxTimePerBlock c3 - timePerBlock c3)) c3) = Inr d"
      using r None by (auto simp: thenDo_Ok_iff)
    have "c2 = c\<lparr>txSubscriptionOn := True, log := ESubscribeForTxs # log c\<rparr>"
      using s by (simp add: subscribeForTransactions_def)
    then have c2: "proposal_ok cfg c2" "\<not> RequestSentOrReceived c2" "IsPrimary c2"
      using assms(1-3) by (simp_all add: IsPrimary_def)
    show ?thesis
      using r' made[OF m' c2] proposeRequest_proposal[of cfg c3 _ d] c2(1)
      by (cases m') (auto simp: changeTimer_def emit_def)
  qed
qed

lemma sliceIndex_mem: "sliceIndex xs x = Some i \<Longrightarrow> x \<in> set xs"
  by (induction xs arbitrary: i) (auto split: if_split_asm)

lemma sliceDelete_sub: "sliceDelete xs i = Inr ys \<Longrightarrow> set ys \<subseteq> set xs"
  by (auto simp: sliceDelete_def dest: in_set_takeD in_set_dropD split: if_split_asm)

lemma initializeConsensus_fresh:
  assumes "initializeConsensus cfg rcv 0 ts c = Inr d" and "mail (dcache c) = []"
  shows "\<not> RequestSentOrReceived d"
proof -
  obtain c1 c2 c3 where 1: "reset cfg 0 ts c = Inr c1" and 2: "emit EStopTxFlow c1 = Inr c2"
    and 3: "replayCached cfg rcv c2 = Inr c3"
    and 4: "(if WatchOnly cfg c3 then Ok c3 else changeTimer (roundTimeout cfg 0 c3) c3) = Inr d"
    using assms(1) by (auto simp: initializeConsensus_def thenDo_Ok_iff)
  have "\<not> RequestSentOrReceived c1" by (simp add: RequestSentOrReceived_def reset_Ok(6)[OF 1])
  moreover have "c3 = c2" using replayCached_empty[OF 3] 2 reset_Ok(12)[OF 1] assms(2) by (auto simp: emit_def)
  ultimately show ?thesis using 2 4 by (auto simp: emit_def changeTimer_def split: if_split_asm)
qed

lemma if_OkE:
  assumes "(if b then x else y) = Inr d"
  obtains "b" "x = Inr d" | "\<not> b" "y = Inr d"
  using assms by (auto split: if_split_asm)

text \<open>The interface of the memory pool.\<close>

locale tx_pool =
  fixes cfg :: "('tx, 'b, 'pb, 'pub, 'priv) config"
  assumes GetTx_hash: "GetTx cfg l h = Some tx \<Longrightarrow> txHash cfg tx = h"
begin

lemma lookupProposed_part:
  assumes "h \<in> set (elems (TransactionHashes c))" and "lookupProposed cfg h c = Inr d" and "proposal_part cfg c"
  shows "proposal_part cfg d \<and> TransactionHashes d = TransactionHashes c"
proof (cases "map_of (Transactions c) h")
  case None
  show ?thesis
  proof (cases "GetTx cfg (log c) h")
    case (Some tx)
    let ?ts = "AList.update h tx (Transactions c)"
    have "fst ` set ?ts = insert h (fst ` set (Transactions c))" by (simp add: dom_update)
    moreover have "\<forall>(k, t) \<in> set ?ts. txHash cfg t = k"
      using set_AList_update[of h tx "Transactions c"] GetTx_hash[OF Some] assms(3)
      by (fastforce simp: proposal_part_def)
    ultimately have "proposal_part cfg (c\<lparr>Transactions := ?ts\<rparr>)"
      using assms(1,3) by (simp add: proposal_part_def distinct_update GetPrimaryIndex_def Let_def)
    then show ?thesis using assms(2) None Some by (auto simp: lookupProposed_def)
  next
    case missing: None
    have "proposal_part cfg (c\<lparr>MissingTransactions := MissingTransactions c @ [h]\<rparr>)"
      using assms(1,3) by (simp add: proposal_part_def GetPrimaryIndex_def Let_def)
    then show ?thesis using assms(2) None missing by (auto simp: lookupProposed_def)
  qed
qed (use assms in \<open>auto simp: lookupProposed_def\<close>)

lemma processMissingTx_part:
  assumes "proposal_part cfg c" and "processMissingTx cfg c = Inr d"
  shows "proposal_part cfg d \<and> RequestSentOrReceived d = RequestSentOrReceived c
    \<and> PrimaryIndex d = PrimaryIndex c"
proof -
  obtain c1 where l: "forEach (lookupProposed cfg) (elems (TransactionHashes c)) c = Inr c1"
    and e: "(if MissingTransactions c1 \<noteq> [] then emit (ERequestTx (MissingTransactions c1)) c1 else Ok c1) = Inr d"
    using assms(2) by (auto simp: processMissingTx_def thenDo_Ok_iff)
  have "proposal_part cfg c1 \<and> TransactionHashes c1 = TransactionHashes c"
  proof (rule forEach_inv[OF _ _ l])
    fix h t u
    assume "h \<in> set (elems (TransactionHashes c))" "lookupProposed cfg h t = Inr u"
      "proposal_part cfg t \<and> TransactionHashes t = TransactionHashes c"
    then show "proposal_part cfg u \<and> TransactionHashes u = TransactionHashes c"
      using lookupProposed_part[of h t u] by simp
  qed (use assms(1) in simp)
  moreover have "RequestSentOrReceived c1 = RequestSentOrReceived c \<and> PrimaryIndex c1 = PrimaryIndex c"
    using lookupProposed_all[of cfg "elems (TransactionHashes c)" c] l by (auto simp: RequestSentOrReceived_def)
  ultimately show ?thesis using e by (auto simp: emit_def split: if_splits)
qed

lemma sendRecoveryRequest_keeps [keep]: "keeps (proposal_ok cfg) (sendRecoveryRequest cfg)"
proof (rule keepsI)
  fix c d
  assume c: "proposal_ok cfg c" and "sendRecoveryRequest cfg c = Inr d"
  then obtain c1 where p: "(if RequestSentOrReceived c \<and> \<not> hasAllTransactions c then processMissingTx cfg c else Ok c) = Inr c1"
    and b: "broadcast (ownPayload c1 RecoveryRequestType (RecoveryRequestMsg (NewRecoveryRequest (nowNano cfg c1)))) c1 = Inr d"
    by (auto simp: sendRecoveryRequest_def thenDo_Ok_iff)
  have "proposal_ok cfg c1"
    using c p processMissingTx_part[of c c1] by (auto simp: proposal_ok_def split: if_splits)
  then show "proposal_ok cfg d" using keepsD[OF whole.broadcast_keeps _ b] by blast
qed

end

subsection \<open>The handlers\<close>

locale proposing = tx_pool cfg
  for cfg :: "('tx, 'b, 'pb, 'pub, 'priv) config" +
  fixes rcv :: "payload \<Rightarrow> ('tx, 'b, 'pb, 'pub, 'priv) dbft act"
  assumes rcv_keeps [keep]: "keeps (proposal_ok cfg) (rcv m)"
begin

lemmas whole_keep [keep] = whole.emit_keeps whole.subscribe_keeps whole.changeTimer_keeps
  whole.extendTimer_keeps whole.broadcast_keeps whole.sendPrepareResponse_keeps whole.checkPrepare_keeps
  whole.verifyPayloads_keeps whole.checkCommit_keeps whole.checkPreCommit_keeps

lemma replayCached_keeps [keep]: "keeps (proposal_ok cfg) (replayCached cfg rcv)"
proof (rule keepsI)
  fix c d
  assume c: "proposal_ok cfg c" and r: "replayCached cfg rcv c = Inr d"
  have "keeps (proposal_ok cfg) (forEach rcv ms)" for ms by (intro keep)
  then have "keeps (proposal_ok cfg) (replayBox cfg rcv kvs)" for kvs
    unfolding keeps_def replayBox_def by blast
  then have s: "keeps (proposal_ok cfg) (steps
      [replayBox cfg rcv (inPrepare b), replayBox cfg rcv (inChViews b),
       replayBox cfg rcv (inPreCommit b), replayBox cfg rcv (inCommit b)])" for b
    by (intro keep)
  obtain mb ca where g: "getHeight (BlockIndex c) (dcache c) = (mb, ca)" by fastforce
  have c1: "proposal_ok cfg (c\<lparr>dcache := ca\<rparr>)" using c by simp
  show "proposal_ok cfg d"
  proof (cases mb)
    case None
    then show ?thesis using r g c1 by (auto simp: replayCached_def)
  next
    case (Some b)
    show ?thesis by (rule keepsD[OF s c1]) (use r g Some in \<open>simp add: replayCached_def del: steps.simps\<close>)
  qed
qed

lemma initializeConsensus_proposal:
  assumes "initializeConsensus cfg rcv view ts c = Inr d"
  shows "proposal_ok cfg d"
proof -
  obtain c1 where r: "reset cfg view ts c = Inr c1"
    and s: "steps [emit EStopTxFlow, replayCached cfg rcv,
            (\<lambda>c. if WatchOnly cfg c then Ok c else changeTimer (roundTimeout cfg view c) c)] c1 = Inr d"
    using assms by (auto simp: initializeConsensus_def thenDo_Ok_iff)
  have k: "keeps (proposal_ok cfg) (steps [emit EStopTxFlow, replayCached cfg rcv,
            (\<lambda>c. if WatchOnly cfg c then Ok c else changeTimer (roundTimeout cfg view c) c)])"
    by (intro keep) simp
  show ?thesis by (rule keepsD[OF k reset_proposal[OF r] s])
qed

lemma initializeConsensus_keeps [keep]:
  "keeps (proposal_ok cfg) (\<lambda>c. initializeConsensus cfg rcv view (ts c) c)"
  by (rule keepsI) (rule initializeConsensus_proposal)

lemma agreeChangeView_keeps [keep]: "keeps (proposal_ok cfg) (agreeChangeView cfg view)"
  by (rule keepsI) (auto simp: agreeChangeView_def broadcast_def emit_def dest: whole.makeChangeView_keeps
      split: if_splits option.splits prod.splits)

lemma checkChangeView_keeps [keep]: "keeps (proposal_ok cfg) (checkChangeView cfg rcv view)"
proof (rule keepsI)
  fix c d
  assume c: "proposal_ok cfg c" and r: "checkChangeView cfg rcv view c = Inr d"
  have s: "keeps (proposal_ok cfg) (steps [agreeChangeView cfg view,
      (\<lambda>c. initializeConsensus cfg rcv view (lastBlockTimestamp c) c)])"
    by (intro keep)
  show "proposal_ok cfg d"
    using r c by (auto simp: checkChangeView_def simp del: steps.simps intro: keepsD[OF s c] split: if_splits)
qed

lemma requestChangeView_keeps [keep]: "keeps (proposal_ok cfg) (requestChangeView cfg reason)"
  by (rule keepsI) (auto simp: requestChangeView_def broadcast_def emit_def dest: whole.makeChangeView_keeps
      split: prod.splits)

lemma sendChangeView_keeps [keep]: "keeps (proposal_ok cfg) (sendChangeView cfg rcv reason)"
proof (rule keepsI)
  fix c d
  assume c: "proposal_ok cfg c" and r: "sendChangeView cfg rcv reason c = Inr d"
  have s: "keeps (proposal_ok cfg) (steps [requestChangeView cfg x, checkChangeView cfg rcv v])" for x v
    by (intro keep)
  have ch: "proposal_ok cfg t" if "changeTimer x c = Inr t" for x t
    using keepsD[OF whole.changeTimer_keeps c that] .
  show "proposal_ok cfg d"
  proof (cases "WatchOnly cfg c")
    case True
    then show ?thesis using r c by (simp add: sendChangeView_def)
  next
    case False
    obtain c1 where c1: "changeTimer (shl64 (timePerBlock c) (unat (ViewNumber c + 1 + 1))) c = Inr c1"
      and r': "(if reason = CVTimeout \<and> CountCommitted c1 + CountFailed c1 > ctxF c1
             then sendRecoveryRequest cfg c1
             else steps [requestChangeView cfg (if \<not> hasAllTransactions c1 \<and> reason = CVTimeout
                              then CVTxNotFound else reason), checkChangeView cfg rcv (ViewNumber c + 1)] c1) = Inr d"
      using r unfolding sendChangeView_def Let_def if_not_P[OF False] by (rule thenDo_OkE)
    show ?thesis
      using r' keepsD[OF s ch[OF c1]] keepsD[OF sendRecoveryRequest_keeps ch[OF c1]]
      by (simp split: if_split_asm del: steps.simps)
  qed
qed

lemma createAndCheckBlock_keeps:
  assumes "proposal_ok cfg c" and "createAndCheckBlock cfg rcv c = Inr (ok, d)"
  shows "proposal_ok cfg d"
proof -
  have "\<exists>b c1. proposal_ok cfg c1
      \<and> (if b then Ok (True, c1) else thenDo (sendChangeView cfg rcv CVTxInvalid c1) (\<lambda>c2. Ok (False, c2))) = Inr (ok, d)"
  proof (cases "isAntiMEVExtensionEnabled cfg c")
    case True
    obtain b c1 where b: "CreatePreBlock cfg c = (b, c1)" by fastforce
    show ?thesis
      by (rule exI[of _ "VerifyPreBlock cfg (log c1) b"], rule exI[of _ c1], rule conjI)
        (use whole.block_keeps(2)[OF assms(1) b] assms(2) True b in \<open>simp_all add: createAndCheckBlock_def Let_def\<close>)
  next
    case False
    obtain b c1 where b: "CreateBlock cfg c = (b, c1)" by fastforce
    show ?thesis
      by (rule exI[of _ "VerifyBlock cfg (log c1) b"], rule exI[of _ c1], rule conjI)
        (use whole.block_keeps(1)[OF assms(1) b] assms(2) False b in \<open>simp_all add: createAndCheckBlock_def Let_def\<close>)
  qed
  then obtain b c1 where c1: "proposal_ok cfg c1"
    and r: "(if b then Ok (True, c1) else thenDo (sendChangeView cfg rcv CVTxInvalid c1) (\<lambda>c2. Ok (False, c2))) = Inr (ok, d)"
    by blast
  show ?thesis
    using r c1 keepsD[OF sendChangeView_keeps c1] by (auto simp: thenDo_Ok_iff split: if_splits)
qed

lemma addTransaction_proposal:
  assumes "proposal_ok cfg c" and "RequestSentOrReceived c" and "txHash cfg tx \<in> set (elems (TransactionHashes c))"
    and "addTransaction cfg rcv tx c = Inr d"
  shows "proposal_ok cfg d"
proof -
  let ?ts = "AList.update (txHash cfg tx) tx (Transactions c)"
  let ?c = "c\<lparr>Transactions := ?ts\<rparr>"
  have "fst ` set ?ts = insert (txHash cfg tx) (fst ` set (Transactions c))" by (simp add: dom_update)
  moreover have "\<forall>(k, t) \<in> set ?ts. txHash cfg t = k"
    using set_AList_update[of "txHash cfg tx" tx "Transactions c"] assms(1)
    by (fastforce simp: proposal_ok_def proposal_part_def)
  ultimately have c: "proposal_ok cfg ?c"
    using assms(1-3)
    by (simp add: proposal_ok_def proposal_part_def distinct_update GetPrimaryIndex_def Let_def RequestSentOrReceived_def)
  have s: "keeps (proposal_ok cfg) (steps [verifyPreCommitPayloadsAgainstPreBlock cfg, extendTimer cfg 2,
      sendPrepareResponse cfg, checkPrepare cfg])"
    by (intro keep)
  have b: "proposal_ok cfg e" if "createAndCheckBlock cfg rcv ?c = Inr (ok, e)" for ok e
    using createAndCheckBlock_keeps[OF c that] .
  show ?thesis
    using assms(4) c keepsD[OF s b]
    by (auto simp: addTransaction_def Let_def thenDo_Ok_iff simp del: steps.simps dest: b split: if_splits)
qed

lemma extendTimer_kept:
  assumes "extendTimer cfg n c = Inr d"
  shows "RequestSentOrReceived d = RequestSentOrReceived c" "PrimaryIndex d = PrimaryIndex c"
proof -
  obtain l where "d = c\<lparr>log := l\<rparr>" using extendTimer_eq[OF assms] by blast
  then show "RequestSentOrReceived d = RequestSentOrReceived c" "PrimaryIndex d = PrimaryIndex c"
    by simp_all
qed

lemma acceptProposal_part:
  assumes "proposal_ok cfg c" and "\<not> RequestSentOrReceived c"
    and "steps [acceptProposal p, processMissingTx cfg, updateExistingPayloads cfg msg,
               (\<lambda>c. Ok (c\<lparr>PreparationPayloads := (PreparationPayloads c)[PrimaryIndex c0 := Some msg]\<rparr>))] c = Inr d"
    and "PrimaryIndex c0 = PrimaryIndex c"
  shows "proposal_ok cfg d"
proof -
  let ?c = "c\<lparr>Timestamp := prepareRequest_Timestamp p, Nonce := reqNonce p, TransactionHashes := transactionHashes p\<rparr>"
  have "proposal_part cfg ?c"
    using assms(1,2) by (simp add: proposal_ok_def proposal_part_def GetPrimaryIndex_def Let_def)
  moreover obtain c1 c2 where 1: "processMissingTx cfg ?c = Inr c1" and 2: "updateExistingPayloads cfg msg c1 = Inr c2"
    and d: "d = c2\<lparr>PreparationPayloads := (PreparationPayloads c2)[PrimaryIndex c0 := Some msg]\<rparr>"
    using assms(3) by (auto simp: acceptProposal_def thenDo_Ok_iff)
  ultimately have c1: "proposal_part cfg c1 \<and> PrimaryIndex c1 = PrimaryIndex c"
    using processMissingTx_part[of ?c c1] by simp
  have "partAt cfg (PrimaryIndex c0) c2"
    by (rule keepsD[OF updateExistingPayloads_part _ 2]) (use c1 assms(4) in simp)
  then show ?thesis using proposal_part_stored[of cfg c2 msg] d by simp
qed

lemma onPrepareRequest_keeps [keep]: "keeps (proposal_ok cfg) (onPrepareRequest cfg rcv msg)"
proof (rule keepsI)
  fix c d
  assume c: "proposal_ok cfg c" and r: "onPrepareRequest cfg rcv msg c = Inr d"
  have s: "keeps (proposal_ok cfg) (steps [sendPrepareResponse cfg, checkPrepare cfg])"
    by (intro keep)
  show "proposal_ok cfg d"
  proof (cases "\<not> RequestSentOrReceived c \<and> ViewNumber c = viewNumber msg
      \<and> unat (validatorIndex msg) = GetPrimaryIndex c (ViewNumber c)")
    case False
    then have "d = c" using r by (auto simp: onPrepareRequest_def split: if_splits)
    then show ?thesis using c by simp
  next
    case new: True
    show ?thesis
    proof (cases "VerifyPrepareRequest cfg (log c) msg")
      case False
      then have "sendChangeView cfg rcv CVBlockRejectedByPolicy c = Inr d"
        using r new by (simp add: onPrepareRequest_def)
      then show ?thesis by (rule keepsD[OF sendChangeView_keeps c])
    next
      case True
      have i: "unat (validatorIndex msg) = PrimaryIndex c"
        using new c by (simp add: proposal_ok_def proposal_part_def)
      obtain c1 p c2 where e: "extendTimer cfg 2 c = Inr c1"
        and a: "steps [acceptProposal p, processMissingTx cfg, updateExistingPayloads cfg msg,
               (\<lambda>c'. Ok (c'\<lparr>PreparationPayloads := (PreparationPayloads c')[PrimaryIndex c := Some msg]\<rparr>))] c1
               = Inr c2"
        and rest: "(if \<not> hasAllTransactions c2 then Ok c2
                else thenDo (createAndCheckBlock cfg rcv c2) (\<lambda>(ok, c3).
                  if \<not> ok \<or> WatchOnly cfg c3 then Ok c3
                  else steps [sendPrepareResponse cfg, checkPrepare cfg] c3)) = Inr d"
        using r new True i
        by (auto simp: onPrepareRequest_def thenDo_Ok_iff simp del: steps.simps split: option.splits)
      have c1: "proposal_ok cfg c1" "\<not> RequestSentOrReceived c1" "PrimaryIndex c = PrimaryIndex c1"
        using keepsD[OF whole.extendTimer_keeps c e] new extendTimer_kept[OF e] by simp_all
      note c2 = acceptProposal_part[OF c1(1,2) a c1(3)]
      show ?thesis
        using rest c2 createAndCheckBlock_keeps[OF c2] keepsD[OF s createAndCheckBlock_keeps[OF c2]]
        by (auto simp: thenDo_Ok_iff simp del: steps.simps split: if_splits)
    qed
  qed
qed

lemma acceptPrepareResponse_keeps [keep]: "keeps (proposal_ok cfg) (acceptPrepareResponse cfg)"
  unfolding acceptPrepareResponse_def by (intro keep) simp_all

lemma onPrepareResponse_keeps [keep]: "keeps (proposal_ok cfg) (onPrepareResponse cfg msg)"
proof (rule keepsI)
  fix c d
  assume c: "proposal_ok cfg c" and r: "onPrepareResponse cfg msg c = Inr d"
  let ?i = "unat (validatorIndex msg)"
  let ?c = "c\<lparr>PreparationPayloads := (PreparationPayloads c)[?i := Some msg]\<rparr>"
  note p = proposal_ok_put[OF c, of ?i msg]
  have "GetPrimaryIndex c (ViewNumber c) = PrimaryIndex c"
    using c by (simp add: proposal_ok_def proposal_part_def)
  then have "?i \<noteq> PrimaryIndex c \<Longrightarrow>
      proposal_ok cfg (?c\<lparr>PreparationPayloads := (PreparationPayloads ?c)[?i := None]\<rparr>)"
    by (intro proposal_ok_drop p) simp
  then show "proposal_ok cfg d"
    using r c keepsD[OF acceptPrepareResponse_keeps p] \<open>GetPrimaryIndex c (ViewNumber c) = PrimaryIndex c\<close>
    by (auto simp: onPrepareResponse_def Let_def split: if_split_asm option.split_asm)
qed

lemma sendRecoveryMessage_keeps [keep]: "keeps (proposal_ok cfg) (sendRecoveryMessage cfg)"
  by (rule keepsI) (auto simp: sendRecoveryMessage_def thenDo_Ok_iff dest: keepsD[OF whole.broadcast_keeps])

lemma onRecoveryRequest_keeps [keep]: "keeps (proposal_ok cfg) (onRecoveryRequest cfg msg)"
  by (rule keepsI) (auto simp: onRecoveryRequest_def dest: keepsD[OF sendRecoveryMessage_keeps] split: if_split_asm)

lemma onChangeView_keeps [keep]: "keeps (proposal_ok cfg) (onChangeView cfg rcv msg)"
proof (rule keepsI)
  fix c d
  assume c: "proposal_ok cfg c" and r: "onChangeView cfg rcv msg c = Inr d"
  let ?c = "c\<lparr>ChangeViewPayloads := (ChangeViewPayloads c)[unat (validatorIndex msg) := Some msg]\<rparr>"
  have "proposal_ok cfg ?c" using c by simp
  note check = keepsD[OF checkChangeView_keeps this]
  show "proposal_ok cfg d"
    using r c keepsD[OF sendRecoveryMessage_keeps c] keepsD[OF onRecoveryRequest_keeps c]
    by (auto simp: onChangeView_def dest: check split: if_split_asm option.split_asm)
qed

lemma onPreCommit_keeps [keep]: "keeps (proposal_ok cfg) (onPreCommit cfg msg)"
proof (rule keepsI)
  fix c d
  assume c: "proposal_ok cfg c" and r: "onPreCommit cfg msg c = Inr d"
  let ?c = "c\<lparr>PreCommitPayloads := (PreCommitPayloads c)[unat (validatorIndex msg) := Some msg]\<rparr>"
  have "proposal_ok cfg ?c" using c by simp
  note e = keepsD[OF whole.extendTimer_keeps this]
  have made: "proposal_ok cfg (snd (CreatePreBlock cfg t))" if "proposal_ok cfg t" for t
    using whole.block_keeps(2)[OF that] by (cases "CreatePreBlock cfg t") simp
  have check: "proposal_ok cfg d" if "checkPreCommit cfg (snd (CreatePreBlock cfg t)) = Inr d" and "proposal_ok cfg t" for t
    using keepsD[OF whole.checkPreCommit_keeps made[OF that(2)] that(1)] .
  show "proposal_ok cfg d"
    using r c by (auto simp: onPreCommit_def Let_def case_prod_beta elim!: thenDo_OkE dest!: e
        dest: check simp: made split: if_split_asm option.split_asm)
qed

lemma onCommit_keeps [keep]: "keeps (proposal_ok cfg) (onCommit cfg msg)"
proof (rule keepsI)
  fix c d
  assume c: "proposal_ok cfg c" and r: "onCommit cfg msg c = Inr d"
  let ?c = "c\<lparr>CommitPayloads := (CommitPayloads c)[unat (validatorIndex msg) := Some msg]\<rparr>"
  have "proposal_ok cfg ?c" using c by simp
  note e = keepsD[OF whole.extendTimer_keeps this]
  have made: "proposal_ok cfg (snd (MakeHeader cfg t))" if "proposal_ok cfg t" for t
    using whole.header_keeps(1)[OF that] by (cases "MakeHeader cfg t") simp
  have check: "proposal_ok cfg d" if "checkCommit cfg (snd (MakeHeader cfg t)) = Inr d" and "proposal_ok cfg t" for t
    using keepsD[OF whole.checkCommit_keeps made[OF that(2)] that(1)] .
  show "proposal_ok cfg d"
    using r c by (auto simp: onCommit_def Let_def case_prod_beta elim!: thenDo_OkE dest!: e
        dest: check simp: made split: if_split_asm option.split_asm)
qed

lemma recoverPreparations_keeps [keep]: "keeps (proposal_ok cfg) (recoverPreparations rcv r msg)"
proof (rule keepsI)
  fix c d
  assume c: "proposal_ok cfg c" and "recoverPreparations rcv r msg c = Inr d"
  then obtain c1 where 1: "c1 = c \<or> (\<exists>m. rcv m c = Inr c1)"
    and 2: "forEach rcv (rm_GetPrepareResponses r msg) c1 = Inr d"
    by (auto simp: recoverPreparations_def thenDo_Ok_iff split: if_split_asm option.split_asm)
  have "keeps (proposal_ok cfg) (forEach rcv ms)" for ms by (intro keep)
  moreover have "proposal_ok cfg c1" using 1 c keepsD[OF rcv_keeps] by blast
  ultimately show "proposal_ok cfg d" using 2 by (rule keepsD)
qed

lemma recoverCommits_keeps [keep]: "keeps (proposal_ok cfg) (recoverCommits rcv r msg)"
proof (rule keepsI)
  fix c d
  assume c: "proposal_ok cfg c" and "recoverCommits rcv r msg c = Inr d"
  then obtain pcs where s: "steps [forEach rcv pcs, forEach rcv (rm_GetCommits r msg)] c = Inr d"
    by (auto simp: recoverCommits_def thenDo_Ok_iff simp del: steps.simps)
  have "keeps (proposal_ok cfg) (steps [forEach rcv pcs, forEach rcv (rm_GetCommits r msg)])"
    by (intro keep)
  then show "proposal_ok cfg d" using c s by (rule keepsD)
qed

lemma recoverAll_keeps [keep]: "keeps (proposal_ok cfg) (recoverAll cfg rcv r msg)"
  unfolding recoverAll_def[abs_def] by (intro keep)

lemma onRecoveryMessage_keeps [keep]: "keeps (proposal_ok cfg) (onRecoveryMessage cfg rcv msg)"
proof (rule keepsI)
  fix c d
  assume c: "proposal_ok cfg c" and "onRecoveryMessage cfg rcv msg c = Inr d"
  then obtain r where s: "steps [(\<lambda>c. Ok (c\<lparr>recovering := True\<rparr>)), recoverAll cfg rcv r msg,
                 (\<lambda>c. Ok (c\<lparr>recovering := False\<rparr>))] c = Inr d"
    by (auto simp: onRecoveryMessage_def simp del: steps.simps split: option.split_asm)
  have "keeps (proposal_ok cfg) (steps [(\<lambda>c. Ok (c\<lparr>recovering := True\<rparr>)), recoverAll cfg rcv r msg,
                 (\<lambda>c. Ok (c\<lparr>recovering := False\<rparr>))])"
    by (intro keep) simp_all
  then show "proposal_ok cfg d" using c s by (rule keepsD)
qed

lemma receive_keeps: "keeps (proposal_ok cfg) (receive cfg rcv msg)"
proof (rule keepsI)
  fix c d
  assume c: "proposal_ok cfg c" and r: "receive cfg rcv msg c = Inr d"
  have "keeps (proposal_ok cfg) (dispatch cfg rcv msg)"
    unfolding dispatch_def[abs_def] by (cases "cmType msg") (simp_all, (intro keep; simp)+)
  moreover have "proposal_ok cfg (noteSeen msg c)" using c by (simp add: noteSeen_def split: option.split)
  ultimately have "dispatch cfg rcv msg (noteSeen msg c) = Inr t \<Longrightarrow> proposal_ok cfg t" for t
    by (rule keepsD)
  then show "proposal_ok cfg d"
    using r c \<open>proposal_ok cfg (noteSeen msg c)\<close> by (auto simp: receive_def Let_def split: if_split_asm)
qed

lemma onTimeout_proposal:
  assumes "proposal_ok cfg c" and "onTimeout cfg rcv h view force c = Inr d"
  shows "proposal_ok cfg d"
proof -
  let ?retry = "steps [sendRecoveryMessage cfg, (\<lambda>c. changeTimer (shl64 (timePerBlock c) 1) c)]"
  let ?unsub = "steps [(\<lambda>c. changeTimer (shl64 (timePerBlock c) 1) c), unsubscribeFromTransactions]"
  let ?sub = "steps [subscribeForTransactions,
       (\<lambda>c. changeTimer (wrap64 (shl64 (maxTimePerBlock c) 1 - shl64 (timePerBlock c) 1)) c)]"
  have s: "keeps (proposal_ok cfg) ?retry" "keeps (proposal_ok cfg) ?unsub" "keeps (proposal_ok cfg) ?sub"
    by (intro keep)+
  have prep: "IsPrimary c \<and> \<not> RequestSentOrReceived c \<Longrightarrow> sendPrepareRequest cfg f c = Inr d \<Longrightarrow> proposal_ok cfg d"
    for f using sendPrepareRequest_proposal[OF assms(1)] by blast
  have same: "Ok c = Inr d \<Longrightarrow> proposal_ok cfg d" using assms(1) by simp
  note leaf = keepsD[OF s(1) assms(1)] keepsD[OF s(2) assms(1)] keepsD[OF s(3) assms(1)]
    keepsD[OF sendChangeView_keeps assms(1)] same
  show ?thesis
    using assms(2) unfolding onTimeout_def by (elim if_OkE) (erule leaf | erule (1) prep)+
qed

lemma onTransaction_proposal:
  assumes "proposal_ok cfg c" and "onTransaction cfg rcv tx c = Inr d"
  shows "proposal_ok cfg d"
proof (cases "d = c")
  case False
  let ?add = "\<lambda>i. thenDo (addTransaction cfg rcv tx c) (\<lambda>c1. if MissingTransactions c1 = [] then Ok c1
       else thenDo (sliceDelete (MissingTransactions c1) i) (\<lambda>ms. Ok (c1\<lparr>MissingTransactions := ms\<rparr>)))"
  have "RequestSentOrReceived c \<and> (\<exists>i. sliceIndex (MissingTransactions c) (txHash cfg tx) = Some i \<and> ?add i = Inr d)"
    using assms(2) unfolding onTransaction_def
  proof (elim if_OkE)
    assume "Ok c = Inr d"
    with False show ?thesis by simp
  qed (cases "sliceIndex (MissingTransactions c) (txHash cfg tx)"; use False in simp)
  then obtain i where req: "RequestSentOrReceived c" and i: "sliceIndex (MissingTransactions c) (txHash cfg tx) = Some i"
    and r: "?add i = Inr d"
    by blast
  obtain c1 where a: "addTransaction cfg rcv tx c = Inr c1"
    and m: "(if MissingTransactions c1 = [] then Ok c1
       else thenDo (sliceDelete (MissingTransactions c1) i) (\<lambda>ms. Ok (c1\<lparr>MissingTransactions := ms\<rparr>))) = Inr d"
    using r by (rule thenDo_OkE)
  have "txHash cfg tx \<in> set (elems (TransactionHashes c))"
    using sliceIndex_mem[OF i] assms(1) by (auto simp: proposal_ok_def proposal_part_def)
  then have c1: "proposal_ok cfg c1" using addTransaction_proposal[OF assms(1) req _ a] by blast
  show ?thesis
  proof (rule if_OkE[OF m])
    assume e: "MissingTransactions c1 \<noteq> []"
      and "thenDo (sliceDelete (MissingTransactions c1) i) (\<lambda>ms. Ok (c1\<lparr>MissingTransactions := ms\<rparr>)) = Inr d"
    then obtain ms where ms: "set ms \<subseteq> set (MissingTransactions c1)" and d: "d = c1\<lparr>MissingTransactions := ms\<rparr>"
      by (elim thenDo_OkE) (auto dest: sliceDelete_sub)
    have "RequestSentOrReceived c1" using e c1 by (simp add: proposal_ok_def)
    then show "proposal_ok cfg d"
      using c1 ms by (auto simp: d proposal_ok_def proposal_part_def RequestSentOrReceived_def GetPrimaryIndex_def Let_def)
  qed (use c1 in simp)
qed (use assms in simp)

end

subsection \<open>The interface\<close>

context tx_pool
begin

lemma OnReceiveN_keeps: "keeps (proposal_ok cfg) (OnReceiveN cfg n m)"
proof (induction n arbitrary: m)
  case 0
  show ?case by (rule keepsI) simp
next
  case (Suc n)
  have "proposing cfg (OnReceiveN cfg n)" by unfold_locales (rule Suc.IH)
  then have "keeps (proposal_ok cfg) (receive cfg (OnReceiveN cfg n) m)" by (rule proposing.receive_keeps)
  then show ?case by (simp add: keeps_def)
qed

end

sublocale tx_pool \<subseteq> received: proposing cfg "OnReceive cfg"
  by unfold_locales (simp add: OnReceive_def OnReceiveN_keeps)

context tx_pool
begin

lemma start_proposal:
  assumes "start cfg ts c = Inr d"
  shows "proposal_ok cfg d"
proof -
  let ?c = "c\<lparr>dcache := newCache\<rparr>"
  obtain c1 where ic: "initializeConsensus cfg (OnReceive cfg) 0 ts ?c = Inr c1"
    and p: "(if IsPrimary c1 then sendPrepareRequest cfg True c1 else Ok c1) = Inr d"
    using assms by (auto simp: start_def thenDo_Ok_iff)
  have c1: "proposal_ok cfg c1" by (rule received.initializeConsensus_proposal[OF ic])
  have "\<not> RequestSentOrReceived c1"
    using initializeConsensus_fresh[OF ic] by (simp add: newCache_def)
  then show ?thesis using p c1 sendPrepareRequest_proposal[OF c1] by (simp split: if_split_asm)
qed

lemma exec_proposal:
  assumes "exec cfg a c = Inr d" and "proposal_ok cfg c \<or> (\<exists>ts. a = CallStart ts)"
  shows "proposal_ok cfg d"
proof -
  let ?c = "c\<lparr>log := ECall a # log c\<rparr>"
  have r: "runCall cfg a ?c = Inr d" using assms(1) by (simp add: exec_def emit_def)
  show ?thesis
  proof (cases "\<exists>ts. a = CallStart ts")
    case True
    then show ?thesis using r start_proposal by auto
  next
    case False
    then have c: "proposal_ok cfg ?c" using assms(2) by simp
    note keep_call = received.onTimeout_proposal[OF c] received.onTransaction_proposal[OF c]
      received.initializeConsensus_proposal keepsD[OF received.rcv_keeps c]
    show ?thesis
    proof (cases a)
      case CallNewTransaction
      then have "d = ?c \<or> onTimeout cfg (OnReceive cfg) (timerHeight (log ?c)) (timerView (log ?c)) True ?c = Inr d"
        using r by (auto simp: onNewTransaction_def split: if_split_asm)
      then show ?thesis using c keep_call(1) by blast
    qed (use False r in \<open>auto simp: resetNode_def intro: keep_call\<close>)
  qed
qed

lemma reachable_proposal: "reachable cfg c \<Longrightarrow> proposal_ok cfg c"
proof (induction rule: reachable.induct)
  case (reach_start ts c)
  from reach_start(1) show ?case by (rule exec_proposal) blast
next
  case (reach_call c a c')
  from reach_call(3) show ?case by (rule exec_proposal) (rule disjI1, rule reach_call.IH)
qed

end

subsection \<open>The pool of the simulation\<close>

lemma simPool_ok: "pool_ok (simPool n es)"
proof (induction es)
  case (Cons e es)
  have "pool_ok (fold (\<lambda>tx. case tx of None \<Rightarrow> id | Some t \<Rightarrow> pool_Delete (Tx64_Hash t)) txs p)"
    if "pool_ok p" for txs p
    using that by (induction txs arbitrary: p) (simp_all add: pool_ok_Delete split: option.split)
  then show ?case using Cons by (cases e) simp_all
qed (simp add: pool_ok_addTx)

interpretation simulated: tx_pool
  "configOf (m\<lparr>txHash := Tx64_Hash\<rparr>) (simSettings H enc now iter txPerBlock txCount blocked key pub validators)"
  for m H enc now iter txPerBlock txCount blocked key pub validators
  by unfold_locales
    (use simPool_ok in \<open>auto simp: configOf_def simSettings_def instance_settings pool_Get_def dest: map_of_pool\<close>)

subsection \<open>Complete proposals\<close>

text \<open>
  C18. Complete means complete. If \<open>GetTx\<close> answers a hash only with a transaction that has it, then
  on every reachable node \<open>hasAllTransactions\<close>, which compares two lengths, holds only if the
  hashes of the proposal are distinct and \<open>proposedTransactions\<close>, which goes into the block, are the
  transactions with exactly these hashes, in their order, none missing.
\<close>

theorem proposal_complete:
  assumes "reachable cfg c" and "hasAllTransactions c"
    and "\<forall>es h tx. GetTx cfg es h = Some tx \<longrightarrow> txHash cfg tx = h"
  shows "distinct (elems (TransactionHashes c))
    \<and> (\<exists>txs. proposedTransactions c = map Some txs \<and> map (txHash cfg) txs = elems (TransactionHashes c))"
proof -
  let ?hs = "elems (TransactionHashes c)" and ?ts = "Transactions c"
  have "tx_pool cfg" using assms(3) by unfold_locales blast
  then have "proposal_part cfg c" using tx_pool.reachable_proposal[OF _ assms(1)] by (simp add: proposal_ok_def)
  then have d: "distinct (map fst ?ts)" and s: "fst ` set ?ts \<subseteq> set ?hs"
    and h: "\<forall>(h, tx) \<in> set ?ts. txHash cfg tx = h"
    by (simp_all add: proposal_part_def)
  have l: "length ?hs = length ?ts" using assms(2) by (simp add: hasAllTransactions_def)
  have k: "card (fst ` set ?ts) = length ?ts" using distinct_card[OF d] by simp
  moreover have "card (fst ` set ?ts) \<le> card (set ?hs)" using s by (simp add: card_mono)
  ultimately have n: "card (set ?hs) = length ?hs" using card_length[of ?hs] l by simp
  then have all: "fst ` set ?ts = set ?hs" using k l by (intro card_subset_eq s) simp_all
  from n have dist: "distinct ?hs" by (rule card_distinct)
  define tx where "tx k = the (map_of ?ts k)" for k
  have "map_of ?ts k = Some (tx k) \<and> txHash cfg (tx k) = k" if "k \<in> set ?hs" for k
  proof -
    have "map_of ?ts k \<noteq> None" using that all by (simp add: map_of_eq_None_iff)
    then obtain t where m: "map_of ?ts k = Some t" by blast
    then have "(k, t) \<in> set ?ts" by (rule map_of_SomeD)
    then show ?thesis using h m by (auto simp: tx_def)
  qed
  then have "proposedTransactions c = map Some (map tx ?hs) \<and> map (txHash cfg) (map tx ?hs) = ?hs"
    by (simp add: proposedTransactions_def map_idI)
  with dist show ?thesis by blast
qed

text \<open>
  Validator 0 knows transaction 5 of the proposal and learns transaction 6 later.
\<close>

definition pooled :: sconfig where
  "pooled = (plain 0)\<lparr>GetTx := (\<lambda>_ h. if h = 5 then Some 5 else None)\<rparr>"

definition pooledCalls :: "nat call list" where
  "pooledCalls = [CallReceive (reqFrom 1 1 0 [5, 6]), CallTransaction 6]"

definition pooledNode :: sdbft where
  "pooledNode = stateOf (sampleRun pooled (CallStart 0 # pooledCalls))"

lemma pooled_check:
  "case sampleRun pooled (CallStart 0 # pooledCalls) of
     Inl e \<Rightarrow> False | Inr c \<Rightarrow> hasAllTransactions c \<and> TransactionHashes c = Some [5, 6]"
  by code_simp

theorem proposal_complete_witness:
  "\<exists>txs. proposedTransactions pooledNode = map Some txs \<and> map (txHash pooled) txs = [5, 6]"
proof -
  have r: "sampleRun pooled (CallStart 0 # pooledCalls) = Inr pooledNode"
    and h: "hasAllTransactions pooledNode" "TransactionHashes pooledNode = Some [5, 6]"
    using pooled_check by (auto simp: pooledNode_def stateOf_def split: sum.splits)
  have "reachable pooled pooledNode"
    using r runCalls_reachable[of pooled 0 pooledCalls] by (simp add: sampleRun_def pooledCalls_def)
  from proposal_complete[OF this h(1)] show ?thesis
    by (simp add: h(2) pooled_def plain_def sampleConfig_def)
qed

end
