(* ===== verification/Honest.thy ===== *)
theory Honest
  imports Keeping
begin

section \<open>A node among honest nodes\<close>

text \<open>
  What a node that runs the code may rely on when everybody else runs the code too. The messages
  that exist are those the others have broadcast and the node's own broadcasts; the facts about
  them (\<open>prepared\<close>, \<open>proposed\<close>, \<open>committed\<close>) are what the payloads in the node's tables, in its cache
  and inside recovery messages stand for. A recovery message gives the Commits it carries its own
  view, so a stored Commit only says that its sender committed in that view or an earlier one, and
  that somebody committed in that view (\<open>backed\<close>).
\<close>

subsection \<open>Statements that return\<close>

text \<open>
  \<open>returns E Q r\<close>: the result is a value for which \<open>Q\<close> holds, or one of the stops \<open>E\<close>.
\<close>

definition returns :: "stop set \<Rightarrow> ('a \<Rightarrow> bool) \<Rightarrow> stop + 'a \<Rightarrow> bool" where
  "returns E Q r \<longleftrightarrow> (case r of Inl e \<Rightarrow> e \<in> E | Inr x \<Rightarrow> Q x)"

lemma returns_simps [simp]: "returns E Q (Inr x) = Q x" "returns E Q (Inl e) = (e \<in> E)"
  by (simp_all add: returns_def)

lemma returns_mono: "returns E P r \<Longrightarrow> (\<And>x. P x \<Longrightarrow> Q x) \<Longrightarrow> returns E Q r"
  by (cases r) simp_all

lemma returns_thenDo:
  "returns E P m \<Longrightarrow> (\<And>x. P x \<Longrightarrow> returns E Q (k x)) \<Longrightarrow> returns E Q (thenDo m k)"
  by (cases m) simp_all

lemma returns_if:
  "(b \<Longrightarrow> returns E Q x) \<Longrightarrow> (\<not> b \<Longrightarrow> returns E Q y) \<Longrightarrow> returns E Q (if b then x else y)"
  by simp

lemma returns_Nil: "Q c \<Longrightarrow> returns E Q (steps [] c)"
  by simp

lemma returns_Cons:
  "returns E P (f c) \<Longrightarrow> (\<And>d. P d \<Longrightarrow> returns E Q (steps fs d)) \<Longrightarrow> returns E Q (steps (f # fs) c)"
  by (simp add: returns_thenDo)

lemma returns_forEach:
  "Q c \<Longrightarrow> (\<And>x d. x \<in> set xs \<Longrightarrow> Q d \<Longrightarrow> returns E Q (f x d)) \<Longrightarrow> returns E Q (forEach f xs c)"
proof (induction xs arbitrary: c)
  case (Cons x xs)
  have "returns E Q (f x c)" using Cons.prems by simp
  then show ?case
    by (simp only: forEach.simps) (rule returns_thenDo, assumption, rule Cons.IH, use Cons.prems in auto)
qed simp

subsection \<open>Facts about the messages that exist\<close>

definition prepared :: "payload set \<Rightarrow> nat \<Rightarrow> u8 \<Rightarrow> bool" where
  "prepared A i v \<longleftrightarrow>
     (\<exists>m \<in> A. unat (validatorIndex m) = i \<and> viewNumber m = v
        \<and> (cmType m = PrepareRequestType \<or> cmType m = PrepareResponseType))"

definition proposed :: "payload set \<Rightarrow> nat \<Rightarrow> u8 \<Rightarrow> prepareRequest \<Rightarrow> bool" where
  "proposed A i v p \<longleftrightarrow>
     transactionHashes p \<noteq> None
     \<and> (\<exists>m \<in> A. unat (validatorIndex m) = i \<and> viewNumber m = v \<and> cmType m = PrepareRequestType
          \<and> body m = PrepareRequestMsg p)"

definition committed :: "payload set \<Rightarrow> nat \<Rightarrow> u8 \<Rightarrow> bool" where
  "committed A i v \<longleftrightarrow>
     (\<exists>m \<in> A. unat (validatorIndex m) = i \<and> viewNumber m = v \<and> cmType m = CommitType)"

definition backed :: "payload set \<Rightarrow> nat \<Rightarrow> u8 \<Rightarrow> bool" where
  "backed A i v \<longleftrightarrow> (\<exists>w \<le> v. committed A i w) \<and> (\<exists>k. committed A k v)"

text \<open>What a recovery message of view \<open>v\<close> may carry; \<open>pr\<close> is the primary of a view.\<close>

definition goodRecovery :: "(u8 \<Rightarrow> nat) \<Rightarrow> payload set \<Rightarrow> u8 \<Rightarrow> recoveryMessage \<Rightarrow> bool" where
  "goodRecovery pr A v r \<longleftrightarrow>
     (\<forall>p. rmPrepareRequest r = Some p \<longrightarrow> proposed A (pr v) v p)
     \<and> (\<forall>x \<in> set (rmPreparationPayloads r). prepared A (unat (prcValidatorIndex x)) v)
     \<and> (\<forall>x \<in> set (rmCommitPayloads r). backed A (unat (ccValidatorIndex x)) v)
     \<and> rmPreCommitPayloads r = []"

definition good :: "(u8 \<Rightarrow> nat) \<Rightarrow> payload set \<Rightarrow> payload \<Rightarrow> bool" where
  "good pr A m \<longleftrightarrow>
     wellTyped m
     \<and> (case body m of
          PrepareRequestMsg p \<Rightarrow> proposed A (unat (validatorIndex m)) (viewNumber m) p
        | PrepareResponseMsg p \<Rightarrow> prepared A (unat (validatorIndex m)) (viewNumber m)
        | CommitMsg p \<Rightarrow> backed A (unat (validatorIndex m)) (viewNumber m)
        | RecoveryMessageMsg r \<Rightarrow> goodRecovery pr A (viewNumber m) r
        | _ \<Rightarrow> True)"

lemma prepared_mono: "prepared A i v \<Longrightarrow> A \<subseteq> B \<Longrightarrow> prepared B i v"
  unfolding prepared_def by blast

lemma proposed_mono: "proposed A i v p \<Longrightarrow> A \<subseteq> B \<Longrightarrow> proposed B i v p"
  unfolding proposed_def by blast

lemma proposed_prepared: "proposed A i v p \<Longrightarrow> prepared A i v"
  unfolding proposed_def prepared_def by blast

lemma committed_mono: "committed A i v \<Longrightarrow> A \<subseteq> B \<Longrightarrow> committed B i v"
  unfolding committed_def by blast

lemma backed_mono: "backed A i v \<Longrightarrow> A \<subseteq> B \<Longrightarrow> backed B i v"
  unfolding backed_def using committed_mono by blast

lemma goodRecovery_mono:
  assumes "goodRecovery pr A v r" and "A \<subseteq> B"
  shows "goodRecovery pr B v r"
  using assms(1) prepared_mono[OF _ assms(2)] proposed_mono[OF _ assms(2)] backed_mono[OF _ assms(2)]
  by (simp add: goodRecovery_def)

lemma good_mono:
  assumes "good pr A m" and "A \<subseteq> B"
  shows "good pr B m"
proof (cases "body m")
  case (PrepareRequestMsg p)
  then show ?thesis using assms proposed_mono[OF _ assms(2)] by (simp add: good_def)
next
  case (PrepareResponseMsg p)
  then show ?thesis using assms prepared_mono[OF _ assms(2)] by (simp add: good_def)
next
  case (CommitMsg p)
  then show ?thesis using assms backed_mono[OF _ assms(2)] by (simp add: good_def)
next
  case (RecoveryMessageMsg r)
  then show ?thesis using assms goodRecovery_mono[OF _ assms(2)] by (simp add: good_def)
qed (use assms in \<open>simp_all add: good_def\<close>)

lemma finite_prepared: "finite {i. prepared A i v}"
proof (rule finite_subset)
  show "{i. prepared A i v} \<subseteq> range (\<lambda>i :: u16. unat i)" unfolding prepared_def by blast
qed simp

lemma prepared_card_mono: "A \<subseteq> B \<Longrightarrow> card {i. prepared A i v} \<le> card {i. prepared B i v}"
  by (rule card_mono[OF finite_prepared]) (auto intro: prepared_mono)

subsection \<open>The invariant of a node\<close>

text \<open>
  The place of a node: the validators, the primary of each view, the node's index, the previous
  block, what the header of a proposal looks like, and the messages of the others.
\<close>

record ('pub, 'b) place =
  plValidators :: "'pub list"
  plPrimary :: "u8 \<Rightarrow> nat"
  plMe :: int
  plIndex :: u32
  plPrev :: Uint256
  plHeader :: "prepareRequest \<Rightarrow> 'b \<Rightarrow> bool"
  plOthers :: "payload set"

definition plM :: "('pub, 'b) place \<Rightarrow> nat" where
  "plM w = length (plValidators w) - (length (plValidators w) - 1) div 3"

definition spokenIn :: "('tx, 'b, 'pb) effect list \<Rightarrow> payload set" where
  "spokenIn es = {m. EBroadcast m \<in> set es}"

definition spoken :: "('tx, 'b, 'pb, 'pub, 'priv) dbft \<Rightarrow> payload set" where
  "spoken c = spokenIn (log c)"

definition said :: "('pub, 'b) place \<Rightarrow> ('tx, 'b, 'pb, 'pub, 'priv) dbft \<Rightarrow> payload set" where
  "said w c = plOthers w \<union> spoken c"

definition placed :: "('pub, 'b) place \<Rightarrow> ('tx, 'b, 'pb, 'pub, 'priv) dbft \<Rightarrow> bool" where
  "placed w c \<longleftrightarrow>
     Validators c = plValidators w \<and> (\<forall>v. GetPrimaryIndex c v = plPrimary w v)
     \<and> PrimaryIndex c = plPrimary w (ViewNumber c) \<and> MyIndex c = plMe w
     \<and> BlockIndex c = plIndex w \<and> PrevHash c = plPrev w
     \<and> plMe w < int (length (plValidators w)) \<and> PrimaryIndex c < length (plValidators w)
     \<and> length (PreparationPayloads c) = length (plValidators w)
     \<and> length (CommitPayloads c) = length (plValidators w)
     \<and> length (LastSeenMessage c) = length (plValidators w)"

definition prepsOk :: "payload set \<Rightarrow> nat \<Rightarrow> u8 \<Rightarrow> payload option list \<Rightarrow> bool" where
  "prepsOk A p v ms \<longleftrightarrow>
     (\<forall>i m. slot ms i = Some m \<longrightarrow>
        wellTyped m \<and> viewNumber m = v \<and> unat (validatorIndex m) = i \<and> prepared A i v
        \<and> cmType m = (if i = p then PrepareRequestType else PrepareResponseType)
        \<and> (\<forall>r. body m = PrepareRequestMsg r \<longrightarrow> proposed A i v r))"

lemma prepsOkD:
  assumes "prepsOk A p v ms" and "slot ms i = Some m"
  shows "wellTyped m" "viewNumber m = v" "unat (validatorIndex m) = i" "prepared A i v"
    "cmType m = PrepareRequestType \<or> cmType m = PrepareResponseType" "cmType m = PrepareRequestType \<longleftrightarrow> i = p"
    "body m = PrepareRequestMsg r \<Longrightarrow> proposed A i v r"
  using assms unfolding prepsOk_def by (cases "i = p"; simp)+

definition commitsOk :: "payload set \<Rightarrow> u8 \<Rightarrow> payload option list \<Rightarrow> bool" where
  "commitsOk A v ms \<longleftrightarrow>
     (\<forall>i m. slot ms i = Some m \<longrightarrow>
        wellTyped m \<and> cmType m = CommitType \<and> unat (validatorIndex m) = i \<and> viewNumber m \<le> v
        \<and> backed A i (viewNumber m))"

lemma commitsOkD:
  assumes "commitsOk A v ms" and "slot ms i = Some m"
  shows "wellTyped m" "cmType m = CommitType" "unat (validatorIndex m) = i" "viewNumber m \<le> v"
    "backed A i (viewNumber m)"
  using assms unfolding commitsOk_def by simp_all

definition changeViewsOk :: "payload option list \<Rightarrow> bool" where
  "changeViewsOk ms \<longleftrightarrow> (\<forall>i m. slot ms i = Some m \<longrightarrow> wellTyped m \<and> cmType m = ChangeViewType)"

definition cachedOk :: "(u8 \<Rightarrow> nat) \<Rightarrow> payload set \<Rightarrow> cache \<Rightarrow> bool" where
  "cachedOk pr A ca \<longleftrightarrow> (\<forall>(h, b) \<in> set (mail ca). \<forall>k. \<forall>(i, m) \<in> set (box k b). good pr A m)"

definition agrees :: "prepareRequest \<Rightarrow> ('tx, 'b, 'pb, 'pub, 'priv) dbft \<Rightarrow> bool" where
  "agrees p c \<longleftrightarrow>
     transactionHashes p = TransactionHashes c \<and> reqNonce p = Nonce c \<and> reqTimestamp p = nanoSecToSec (Timestamp c)"

text \<open>
  What the node has said itself: in its own name, at most in the current view, nothing but the
  truth; a Commit only with a quorum of preparations, and it is locked since; one proposal per
  view.
\<close>

definition ownOk :: "('pub, 'b) place \<Rightarrow> ('tx, 'b, 'pb, 'pub, 'priv) dbft \<Rightarrow> bool" where
  "ownOk w c \<longleftrightarrow>
     (\<forall>m \<in> spoken c.
        0 \<le> plMe w \<and> unat (validatorIndex m) = nat (plMe w) \<and> viewNumber m \<le> ViewNumber c
        \<and> good (plPrimary w) (said w c) m)"

definition lockOk :: "('pub, 'b) place \<Rightarrow> ('tx, 'b, 'pb, 'pub, 'priv) dbft \<Rightarrow> bool" where
  "lockOk w c \<longleftrightarrow>
     (\<forall>m \<in> spoken c. cmType m = CommitType \<longrightarrow>
        viewNumber m = ViewNumber c \<and> RequestSentOrReceived c
        \<and> slot (CommitPayloads c) (nat (plMe w)) \<noteq> None
        \<and> plM w \<le> card {i. prepared (said w c) i (viewNumber m)})"

definition requestsOk :: "('tx, 'b, 'pb, 'pub, 'priv) dbft \<Rightarrow> bool" where
  "requestsOk c \<longleftrightarrow>
     (\<forall>m \<in> spoken c. cmType m = PrepareRequestType \<longrightarrow>
        (viewNumber m = ViewNumber c \<longrightarrow> RequestSentOrReceived c)
        \<and> (\<forall>m' \<in> spoken c. cmType m' = PrepareRequestType \<longrightarrow> viewNumber m' = viewNumber m \<longrightarrow> body m' = body m))"

definition tablesOk :: "('pub, 'b) place \<Rightarrow> payload set \<Rightarrow> ('tx, 'b, 'pb, 'pub, 'priv) dbft \<Rightarrow> bool" where
  "tablesOk w A c \<longleftrightarrow>
     placed w c
     \<and> prepsOk A (PrimaryIndex c) (ViewNumber c) (PreparationPayloads c)
     \<and> commitsOk A (ViewNumber c) (CommitPayloads c)
     \<and> changeViewsOk (ChangeViewPayloads c) \<and> changeViewsOk (LastChangeViewPayloads c)
     \<and> (\<forall>i. slot (PreCommitPayloads c) i = None)
     \<and> cachedOk (plPrimary w) A (dcache c)
     \<and> (RequestSentOrReceived c \<longrightarrow> (\<exists>p. proposed A (PrimaryIndex c) (ViewNumber c) p \<and> agrees p c))
     \<and> (header c \<noteq> None \<longrightarrow> RequestSentOrReceived c)
     \<and> (\<forall>b p. header c = Some b \<longrightarrow> agrees p c \<longrightarrow> plHeader w p b) \<and> (blockSet c \<longrightarrow> header c \<noteq> None)"

definition honest :: "('pub, 'b) place \<Rightarrow> ('tx, 'b, 'pb, 'pub, 'priv) dbft \<Rightarrow> bool" where
  "honest w c \<longleftrightarrow> tablesOk w (said w c) c \<and> ownOk w c \<and> lockOk w c \<and> requestsOk c"

text \<open>\<open>B\<close> is a set of messages known to exist: it stays so, because the node's log only grows.\<close>

definition hon :: "('pub, 'b) place \<Rightarrow> payload set \<Rightarrow> ('tx, 'b, 'pb, 'pub, 'priv) dbft \<Rightarrow> bool" where
  "hon w B c \<longleftrightarrow> honest w c \<and> B \<subseteq> said w c"

text \<open>The node has not committed itself yet.\<close>

definition free :: "('pub, 'b) place \<Rightarrow> payload set \<Rightarrow> ('tx, 'b, 'pb, 'pub, 'priv) dbft \<Rightarrow> bool" where
  "free w B c \<longleftrightarrow> hon w B c \<and> (\<forall>m \<in> spoken c. cmType m \<noteq> CommitType)"

subsection \<open>What the invariant ignores\<close>

lemma spokenIn_simps [simp]:
  "spokenIn (EBroadcast m # l) = insert m (spokenIn l)"
  "(\<And>m. e \<noteq> EBroadcast m) \<Longrightarrow> spokenIn (e # l) = spokenIn l"
  by (auto simp: spokenIn_def)

lemma spoken_log [simp]: "spoken (c\<lparr>log := l\<rparr>) = spokenIn l"
  by (simp add: spoken_def)

lemma spoken_upd [simp]:
  "spoken (c\<lparr>recovering := x\<rparr>) = spoken c"
  "spoken (c\<lparr>txSubscriptionOn := x\<rparr>) = spoken c"
  "spoken (c\<lparr>prepareSentTime := t\<rparr>) = spoken c"
  "spoken (c\<lparr>rttEstimates := r\<rparr>) = spoken c"
  "spoken (c\<lparr>preHeader := ph\<rparr>) = spoken c"
  "spoken (c\<lparr>preBlockSet := x\<rparr>) = spoken c"
  "spoken (c\<lparr>blockProcessed := x\<rparr>) = spoken c"
  "spoken (c\<lparr>preBlockProcessed := x\<rparr>) = spoken c"
  "spoken (c\<lparr>lastBlockTime := t\<rparr>) = spoken c"
  "spoken (c\<lparr>lastBlockIndex := bi\<rparr>) = spoken c"
  "spoken (c\<lparr>lastBlockView := bv\<rparr>) = spoken c"
  "spoken (c\<lparr>Transactions := ts\<rparr>) = spoken c"
  "spoken (c\<lparr>MissingTransactions := hs\<rparr>) = spoken c"
  "spoken (c\<lparr>header := h\<rparr>) = spoken c"
  "spoken (c\<lparr>blockSet := x\<rparr>) = spoken c"
  "spoken (c\<lparr>dcache := ca\<rparr>) = spoken c"
  "spoken (c\<lparr>PreparationPayloads := ps\<rparr>) = spoken c"
  "spoken (c\<lparr>CommitPayloads := ps\<rparr>) = spoken c"
  "spoken (c\<lparr>ChangeViewPayloads := ps\<rparr>) = spoken c"
  "spoken (c\<lparr>TransactionHashes := th\<rparr>) = spoken c"
  "spoken (c\<lparr>Nonce := n\<rparr>) = spoken c"
  "spoken (c\<lparr>Timestamp := u\<rparr>) = spoken c"
  "spoken (c\<lparr>LastSeenMessage := ls\<rparr>) = spoken c"
  by (simp_all add: spoken_def)

lemma said_upd [simp]:
  "said w (c\<lparr>recovering := x\<rparr>) = said w c"
  "said w (c\<lparr>txSubscriptionOn := x\<rparr>) = said w c"
  "said w (c\<lparr>prepareSentTime := t\<rparr>) = said w c"
  "said w (c\<lparr>rttEstimates := r\<rparr>) = said w c"
  "said w (c\<lparr>preHeader := ph\<rparr>) = said w c"
  "said w (c\<lparr>preBlockSet := x\<rparr>) = said w c"
  "said w (c\<lparr>blockProcessed := x\<rparr>) = said w c"
  "said w (c\<lparr>preBlockProcessed := x\<rparr>) = said w c"
  "said w (c\<lparr>lastBlockTime := t\<rparr>) = said w c"
  "said w (c\<lparr>lastBlockIndex := bi\<rparr>) = said w c"
  "said w (c\<lparr>lastBlockView := bv\<rparr>) = said w c"
  "said w (c\<lparr>Transactions := ts\<rparr>) = said w c"
  "said w (c\<lparr>MissingTransactions := hs\<rparr>) = said w c"
  "said w (c\<lparr>header := h\<rparr>) = said w c"
  "said w (c\<lparr>blockSet := x\<rparr>) = said w c"
  "said w (c\<lparr>dcache := ca\<rparr>) = said w c"
  "said w (c\<lparr>PreparationPayloads := ps\<rparr>) = said w c"
  "said w (c\<lparr>CommitPayloads := ps\<rparr>) = said w c"
  "said w (c\<lparr>ChangeViewPayloads := ps\<rparr>) = said w c"
  "said w (c\<lparr>TransactionHashes := th\<rparr>) = said w c"
  "said w (c\<lparr>Nonce := n\<rparr>) = said w c"
  "said w (c\<lparr>Timestamp := u\<rparr>) = said w c"
  "said w (c\<lparr>LastSeenMessage := ls\<rparr>) = said w c"
  by (simp_all add: said_def)

lemma said_log [simp]:
  "said w (c\<lparr>log := l\<rparr>) = plOthers w \<union> spokenIn l"
  "plOthers w \<union> spokenIn (log c) = said w c"
  "plOthers w \<union> spoken c = said w c"
  by (simp_all add: said_def spoken_def)

lemma spokenIn_log [simp]: "spokenIn (log c) = spoken c"
  by (simp add: spoken_def)

lemma request_upd [simp]:
  "RequestSentOrReceived (c\<lparr>recovering := x\<rparr>) = RequestSentOrReceived c"
  "RequestSentOrReceived (c\<lparr>txSubscriptionOn := x\<rparr>) = RequestSentOrReceived c"
  "RequestSentOrReceived (c\<lparr>prepareSentTime := t\<rparr>) = RequestSentOrReceived c"
  "RequestSentOrReceived (c\<lparr>rttEstimates := r\<rparr>) = RequestSentOrReceived c"
  "RequestSentOrReceived (c\<lparr>preHeader := ph\<rparr>) = RequestSentOrReceived c"
  "RequestSentOrReceived (c\<lparr>preBlockSet := x\<rparr>) = RequestSentOrReceived c"
  "RequestSentOrReceived (c\<lparr>blockProcessed := x\<rparr>) = RequestSentOrReceived c"
  "RequestSentOrReceived (c\<lparr>preBlockProcessed := x\<rparr>) = RequestSentOrReceived c"
  "RequestSentOrReceived (c\<lparr>lastBlockTime := t\<rparr>) = RequestSentOrReceived c"
  "RequestSentOrReceived (c\<lparr>lastBlockIndex := bi\<rparr>) = RequestSentOrReceived c"
  "RequestSentOrReceived (c\<lparr>lastBlockView := bv\<rparr>) = RequestSentOrReceived c"
  "RequestSentOrReceived (c\<lparr>Transactions := ts\<rparr>) = RequestSentOrReceived c"
  "RequestSentOrReceived (c\<lparr>MissingTransactions := hs\<rparr>) = RequestSentOrReceived c"
  "RequestSentOrReceived (c\<lparr>log := l\<rparr>) = RequestSentOrReceived c"
  "RequestSentOrReceived (c\<lparr>header := h\<rparr>) = RequestSentOrReceived c"
  "RequestSentOrReceived (c\<lparr>blockSet := x\<rparr>) = RequestSentOrReceived c"
  "RequestSentOrReceived (c\<lparr>dcache := ca\<rparr>) = RequestSentOrReceived c"
  "RequestSentOrReceived (c\<lparr>CommitPayloads := ps\<rparr>) = RequestSentOrReceived c"
  "RequestSentOrReceived (c\<lparr>ChangeViewPayloads := ps\<rparr>) = RequestSentOrReceived c"
  "RequestSentOrReceived (c\<lparr>TransactionHashes := th\<rparr>) = RequestSentOrReceived c"
  "RequestSentOrReceived (c\<lparr>Nonce := n\<rparr>) = RequestSentOrReceived c"
  "RequestSentOrReceived (c\<lparr>Timestamp := u\<rparr>) = RequestSentOrReceived c"
  "RequestSentOrReceived (c\<lparr>LastSeenMessage := ls\<rparr>) = RequestSentOrReceived c"
  by (simp_all add: RequestSentOrReceived_def)

lemma agrees_upd [simp]:
  "agrees p (c\<lparr>recovering := x\<rparr>) = agrees p c"
  "agrees p (c\<lparr>txSubscriptionOn := x\<rparr>) = agrees p c"
  "agrees p (c\<lparr>prepareSentTime := t\<rparr>) = agrees p c"
  "agrees p (c\<lparr>rttEstimates := r\<rparr>) = agrees p c"
  "agrees p (c\<lparr>preHeader := ph\<rparr>) = agrees p c"
  "agrees p (c\<lparr>preBlockSet := x\<rparr>) = agrees p c"
  "agrees p (c\<lparr>blockProcessed := x\<rparr>) = agrees p c"
  "agrees p (c\<lparr>preBlockProcessed := x\<rparr>) = agrees p c"
  "agrees p (c\<lparr>lastBlockTime := t\<rparr>) = agrees p c"
  "agrees p (c\<lparr>lastBlockIndex := bi\<rparr>) = agrees p c"
  "agrees p (c\<lparr>lastBlockView := bv\<rparr>) = agrees p c"
  "agrees p (c\<lparr>Transactions := ts\<rparr>) = agrees p c"
  "agrees p (c\<lparr>MissingTransactions := hs\<rparr>) = agrees p c"
  "agrees p (c\<lparr>log := l\<rparr>) = agrees p c"
  "agrees p (c\<lparr>header := h\<rparr>) = agrees p c"
  "agrees p (c\<lparr>blockSet := x\<rparr>) = agrees p c"
  "agrees p (c\<lparr>dcache := ca\<rparr>) = agrees p c"
  "agrees p (c\<lparr>PreparationPayloads := ps\<rparr>) = agrees p c"
  "agrees p (c\<lparr>CommitPayloads := ps\<rparr>) = agrees p c"
  "agrees p (c\<lparr>ChangeViewPayloads := ps\<rparr>) = agrees p c"
  "agrees p (c\<lparr>LastSeenMessage := ls\<rparr>) = agrees p c"
  by (simp_all add: agrees_def)

lemma tablesOk_upd [simp]:
  "tablesOk w A (c\<lparr>recovering := x\<rparr>) = tablesOk w A c"
  "tablesOk w A (c\<lparr>txSubscriptionOn := x\<rparr>) = tablesOk w A c"
  "tablesOk w A (c\<lparr>prepareSentTime := t\<rparr>) = tablesOk w A c"
  "tablesOk w A (c\<lparr>rttEstimates := r\<rparr>) = tablesOk w A c"
  "tablesOk w A (c\<lparr>preHeader := ph\<rparr>) = tablesOk w A c"
  "tablesOk w A (c\<lparr>preBlockSet := x\<rparr>) = tablesOk w A c"
  "tablesOk w A (c\<lparr>blockProcessed := x\<rparr>) = tablesOk w A c"
  "tablesOk w A (c\<lparr>preBlockProcessed := x\<rparr>) = tablesOk w A c"
  "tablesOk w A (c\<lparr>lastBlockTime := t\<rparr>) = tablesOk w A c"
  "tablesOk w A (c\<lparr>lastBlockIndex := bi\<rparr>) = tablesOk w A c"
  "tablesOk w A (c\<lparr>lastBlockView := bv\<rparr>) = tablesOk w A c"
  "tablesOk w A (c\<lparr>Transactions := ts\<rparr>) = tablesOk w A c"
  "tablesOk w A (c\<lparr>MissingTransactions := hs\<rparr>) = tablesOk w A c"
  "tablesOk w A (c\<lparr>log := l\<rparr>) = tablesOk w A c"
  by (simp_all add: tablesOk_def placed_def GetPrimaryIndex_def Let_def)

lemma placed_upd [simp]:
  "placed w (c\<lparr>header := h\<rparr>) = placed w c"
  "placed w (c\<lparr>blockSet := x\<rparr>) = placed w c"
  "placed w (c\<lparr>dcache := ca\<rparr>) = placed w c"
  "placed w (c\<lparr>ChangeViewPayloads := ps\<rparr>) = placed w c"
  "placed w (c\<lparr>TransactionHashes := th\<rparr>) = placed w c"
  "placed w (c\<lparr>Nonce := n\<rparr>) = placed w c"
  "placed w (c\<lparr>Timestamp := u\<rparr>) = placed w c"
  "placed w (c\<lparr>PreparationPayloads := (PreparationPayloads c)[i := y]\<rparr>) = placed w c"
  "placed w (c\<lparr>CommitPayloads := (CommitPayloads c)[i := y]\<rparr>) = placed w c"
  "placed w (c\<lparr>LastSeenMessage := (LastSeenMessage c)[i := z]\<rparr>) = placed w c"
  by (simp_all add: placed_def GetPrimaryIndex_def Let_def)

lemma own_upd [simp]:
  "ownOk w (c\<lparr>recovering := x\<rparr>) = ownOk w c"
  "ownOk w (c\<lparr>txSubscriptionOn := x\<rparr>) = ownOk w c"
  "ownOk w (c\<lparr>prepareSentTime := t\<rparr>) = ownOk w c"
  "ownOk w (c\<lparr>rttEstimates := r\<rparr>) = ownOk w c"
  "ownOk w (c\<lparr>preHeader := ph\<rparr>) = ownOk w c"
  "ownOk w (c\<lparr>preBlockSet := x\<rparr>) = ownOk w c"
  "ownOk w (c\<lparr>blockProcessed := x\<rparr>) = ownOk w c"
  "ownOk w (c\<lparr>preBlockProcessed := x\<rparr>) = ownOk w c"
  "ownOk w (c\<lparr>lastBlockTime := t\<rparr>) = ownOk w c"
  "ownOk w (c\<lparr>lastBlockIndex := bi\<rparr>) = ownOk w c"
  "ownOk w (c\<lparr>lastBlockView := bv\<rparr>) = ownOk w c"
  "ownOk w (c\<lparr>Transactions := ts\<rparr>) = ownOk w c"
  "ownOk w (c\<lparr>MissingTransactions := hs\<rparr>) = ownOk w c"
  "ownOk w (c\<lparr>header := h\<rparr>) = ownOk w c"
  "ownOk w (c\<lparr>blockSet := x\<rparr>) = ownOk w c"
  "ownOk w (c\<lparr>dcache := ca\<rparr>) = ownOk w c"
  "ownOk w (c\<lparr>PreparationPayloads := ps\<rparr>) = ownOk w c"
  "ownOk w (c\<lparr>CommitPayloads := ps\<rparr>) = ownOk w c"
  "ownOk w (c\<lparr>ChangeViewPayloads := ps\<rparr>) = ownOk w c"
  "ownOk w (c\<lparr>TransactionHashes := th\<rparr>) = ownOk w c"
  "ownOk w (c\<lparr>Nonce := n\<rparr>) = ownOk w c"
  "ownOk w (c\<lparr>Timestamp := u\<rparr>) = ownOk w c"
  "ownOk w (c\<lparr>LastSeenMessage := ls\<rparr>) = ownOk w c"
  by (simp_all add: ownOk_def)

lemma lock_upd [simp]:
  "lockOk w (c\<lparr>recovering := x\<rparr>) = lockOk w c"
  "lockOk w (c\<lparr>txSubscriptionOn := x\<rparr>) = lockOk w c"
  "lockOk w (c\<lparr>prepareSentTime := t\<rparr>) = lockOk w c"
  "lockOk w (c\<lparr>rttEstimates := r\<rparr>) = lockOk w c"
  "lockOk w (c\<lparr>preHeader := ph\<rparr>) = lockOk w c"
  "lockOk w (c\<lparr>preBlockSet := x\<rparr>) = lockOk w c"
  "lockOk w (c\<lparr>blockProcessed := x\<rparr>) = lockOk w c"
  "lockOk w (c\<lparr>preBlockProcessed := x\<rparr>) = lockOk w c"
  "lockOk w (c\<lparr>lastBlockTime := t\<rparr>) = lockOk w c"
  "lockOk w (c\<lparr>lastBlockIndex := bi\<rparr>) = lockOk w c"
  "lockOk w (c\<lparr>lastBlockView := bv\<rparr>) = lockOk w c"
  "lockOk w (c\<lparr>Transactions := ts\<rparr>) = lockOk w c"
  "lockOk w (c\<lparr>MissingTransactions := hs\<rparr>) = lockOk w c"
  "lockOk w (c\<lparr>header := h\<rparr>) = lockOk w c"
  "lockOk w (c\<lparr>blockSet := x\<rparr>) = lockOk w c"
  "lockOk w (c\<lparr>dcache := ca\<rparr>) = lockOk w c"
  "lockOk w (c\<lparr>ChangeViewPayloads := ps\<rparr>) = lockOk w c"
  "lockOk w (c\<lparr>TransactionHashes := th\<rparr>) = lockOk w c"
  "lockOk w (c\<lparr>Nonce := n\<rparr>) = lockOk w c"
  "lockOk w (c\<lparr>Timestamp := u\<rparr>) = lockOk w c"
  "lockOk w (c\<lparr>LastSeenMessage := ls\<rparr>) = lockOk w c"
  by (simp_all add: lockOk_def)

lemma requests_upd [simp]:
  "requestsOk (c\<lparr>recovering := x\<rparr>) = requestsOk c"
  "requestsOk (c\<lparr>txSubscriptionOn := x\<rparr>) = requestsOk c"
  "requestsOk (c\<lparr>prepareSentTime := t\<rparr>) = requestsOk c"
  "requestsOk (c\<lparr>rttEstimates := r\<rparr>) = requestsOk c"
  "requestsOk (c\<lparr>preHeader := ph\<rparr>) = requestsOk c"
  "requestsOk (c\<lparr>preBlockSet := x\<rparr>) = requestsOk c"
  "requestsOk (c\<lparr>blockProcessed := x\<rparr>) = requestsOk c"
  "requestsOk (c\<lparr>preBlockProcessed := x\<rparr>) = requestsOk c"
  "requestsOk (c\<lparr>lastBlockTime := t\<rparr>) = requestsOk c"
  "requestsOk (c\<lparr>lastBlockIndex := bi\<rparr>) = requestsOk c"
  "requestsOk (c\<lparr>lastBlockView := bv\<rparr>) = requestsOk c"
  "requestsOk (c\<lparr>Transactions := ts\<rparr>) = requestsOk c"
  "requestsOk (c\<lparr>MissingTransactions := hs\<rparr>) = requestsOk c"
  "requestsOk (c\<lparr>header := h\<rparr>) = requestsOk c"
  "requestsOk (c\<lparr>blockSet := x\<rparr>) = requestsOk c"
  "requestsOk (c\<lparr>dcache := ca\<rparr>) = requestsOk c"
  "requestsOk (c\<lparr>CommitPayloads := ps\<rparr>) = requestsOk c"
  "requestsOk (c\<lparr>ChangeViewPayloads := ps\<rparr>) = requestsOk c"
  "requestsOk (c\<lparr>TransactionHashes := th\<rparr>) = requestsOk c"
  "requestsOk (c\<lparr>Nonce := n\<rparr>) = requestsOk c"
  "requestsOk (c\<lparr>Timestamp := u\<rparr>) = requestsOk c"
  "requestsOk (c\<lparr>LastSeenMessage := ls\<rparr>) = requestsOk c"
  by (simp_all add: requestsOk_def)

lemma quiet_log [simp]:
  "spokenIn l = spoken c \<Longrightarrow> ownOk w (c\<lparr>log := l\<rparr>) = ownOk w c"
  "spokenIn l = spoken c \<Longrightarrow> lockOk w (c\<lparr>log := l\<rparr>) = lockOk w c"
  "spokenIn l = spoken c \<Longrightarrow> requestsOk (c\<lparr>log := l\<rparr>) = requestsOk c"
  by (simp_all add: ownOk_def lockOk_def requestsOk_def)

lemma honest_upd [simp]:
  "hon w B (c\<lparr>recovering := x\<rparr>) = hon w B c"
  "hon w B (c\<lparr>txSubscriptionOn := x\<rparr>) = hon w B c"
  "hon w B (c\<lparr>prepareSentTime := t\<rparr>) = hon w B c"
  "hon w B (c\<lparr>rttEstimates := r\<rparr>) = hon w B c"
  "hon w B (c\<lparr>preHeader := ph\<rparr>) = hon w B c"
  "hon w B (c\<lparr>preBlockSet := x\<rparr>) = hon w B c"
  "hon w B (c\<lparr>blockProcessed := x\<rparr>) = hon w B c"
  "hon w B (c\<lparr>preBlockProcessed := x\<rparr>) = hon w B c"
  "hon w B (c\<lparr>lastBlockTime := t\<rparr>) = hon w B c"
  "hon w B (c\<lparr>lastBlockIndex := bi\<rparr>) = hon w B c"
  "hon w B (c\<lparr>lastBlockView := bv\<rparr>) = hon w B c"
  "hon w B (c\<lparr>Transactions := ts\<rparr>) = hon w B c"
  "hon w B (c\<lparr>MissingTransactions := hs\<rparr>) = hon w B c"
  "free w B (c\<lparr>recovering := x\<rparr>) = free w B c"
  "free w B (c\<lparr>txSubscriptionOn := x\<rparr>) = free w B c"
  "free w B (c\<lparr>prepareSentTime := t\<rparr>) = free w B c"
  "free w B (c\<lparr>rttEstimates := r\<rparr>) = free w B c"
  "free w B (c\<lparr>preHeader := ph\<rparr>) = free w B c"
  "free w B (c\<lparr>preBlockSet := x\<rparr>) = free w B c"
  "free w B (c\<lparr>blockProcessed := x\<rparr>) = free w B c"
  "free w B (c\<lparr>preBlockProcessed := x\<rparr>) = free w B c"
  "free w B (c\<lparr>lastBlockTime := t\<rparr>) = free w B c"
  "free w B (c\<lparr>lastBlockIndex := bi\<rparr>) = free w B c"
  "free w B (c\<lparr>lastBlockView := bv\<rparr>) = free w B c"
  "free w B (c\<lparr>Transactions := ts\<rparr>) = free w B c"
  "free w B (c\<lparr>MissingTransactions := hs\<rparr>) = free w B c"
  "spokenIn l = spoken c \<Longrightarrow> hon w B (c\<lparr>log := l\<rparr>) = hon w B c"
  "spokenIn l = spoken c \<Longrightarrow> free w B (c\<lparr>log := l\<rparr>) = free w B c"
  by (simp_all add: hon_def honest_def free_def)

subsection \<open>Saying something\<close>

lemma tables_mono:
  assumes "A \<subseteq> B"
  shows "prepsOk A p v ms \<Longrightarrow> prepsOk B p v ms" and "commitsOk A v ms \<Longrightarrow> commitsOk B v ms"
    and "cachedOk pr A ca \<Longrightarrow> cachedOk pr B ca"
proof -
  note mono = prepared_mono[OF _ assms] proposed_mono[OF _ assms] backed_mono[OF _ assms] good_mono[OF _ assms]
  show "prepsOk A p v ms \<Longrightarrow> prepsOk B p v ms" unfolding prepsOk_def using mono(1,2) by simp
  show "commitsOk A v ms \<Longrightarrow> commitsOk B v ms" unfolding commitsOk_def using mono(3) by simp
  show "cachedOk pr A ca \<Longrightarrow> cachedOk pr B ca"
    unfolding cachedOk_def case_prod_beta using mono(4) by simp
qed

lemma tablesOk_mono:
  assumes "tablesOk w A c" and sub: "A \<subseteq> B"
  shows "tablesOk w B c"
proof -
  have "\<exists>p. proposed B i v p \<and> agrees p c" if "\<exists>p. proposed A i v p \<and> agrees p c" for i v
    using that proposed_mono[OF _ sub] by blast
  then show ?thesis
    using assms(1) unfolding tablesOk_def
    by (elim conjE, intro conjI impI) (assumption | erule tables_mono[OF sub] | erule (1) mp | blast)+
qed

lemma requestsOkD:
  assumes "requestsOk c"
  shows "a \<in> spoken c \<Longrightarrow> cmType a = PrepareRequestType \<Longrightarrow> viewNumber a = ViewNumber c \<Longrightarrow> RequestSentOrReceived c"
    and "a \<in> spoken c \<Longrightarrow> b \<in> spoken c \<Longrightarrow> cmType a = PrepareRequestType \<Longrightarrow> cmType b = PrepareRequestType
      \<Longrightarrow> viewNumber b = viewNumber a \<Longrightarrow> body b = body a"
  using assms unfolding requestsOk_def by blast+

text \<open>A new broadcast of the node, when everything it stands for is already in the tables.\<close>

lemma speak:
  assumes t: "tablesOk w (insert m (said w c)) c" and o: "ownOk w c" "lockOk w c" "requestsOk c"
    and m: "0 \<le> plMe w" "unat (validatorIndex m) = nat (plMe w)" "viewNumber m = ViewNumber c"
      "good (plPrimary w) (insert m (said w c)) m"
    and k: "cmType m = CommitType \<Longrightarrow> RequestSentOrReceived c \<and> slot (CommitPayloads c) (nat (plMe w)) \<noteq> None
        \<and> plM w \<le> card {i. prepared (said w c) i (ViewNumber c)}"
    and r: "cmType m = PrepareRequestType \<Longrightarrow> RequestSentOrReceived c
        \<and> (\<forall>m' \<in> spoken c. cmType m' = PrepareRequestType \<longrightarrow> viewNumber m' \<noteq> ViewNumber c)"
  shows "honest w (c\<lparr>log := EBroadcast m # log c\<rparr>)"
proof -
  let ?A = "insert m (said w c)" and ?c = "c\<lparr>log := EBroadcast m # log c\<rparr>"
  have sub: "said w c \<subseteq> ?A" by blast
  have "ownOk w ?c"
    using o(1) m good_mono[OF _ sub] by (auto simp: ownOk_def)
  moreover have "lockOk w ?c"
    unfolding lockOk_def
  proof (intro ballI impI)
    fix m'
    assume m': "m' \<in> spoken ?c" "cmType m' = CommitType"
    have "viewNumber m' = ViewNumber c \<and> RequestSentOrReceived c
        \<and> slot (CommitPayloads c) (nat (plMe w)) \<noteq> None \<and> plM w \<le> card {i. prepared (said w c) i (viewNumber m')}"
    proof (cases "m' = m")
      case True
      then show ?thesis using m(3) k m'(2) by simp
    next
      case False
      then have "m' \<in> spoken c" using m'(1) by simp
      then show ?thesis using o(2) m'(2) unfolding lockOk_def by blast
    qed
    moreover have "card {i. prepared (said w c) i (viewNumber m')} \<le> card {i. prepared ?A i (viewNumber m')}"
      by (rule prepared_card_mono[OF sub])
    ultimately show "viewNumber m' = ViewNumber ?c \<and> RequestSentOrReceived ?c
        \<and> slot (CommitPayloads ?c) (nat (plMe w)) \<noteq> None \<and> plM w \<le> card {i. prepared (said w ?c) i (viewNumber m')}"
      by auto
  qed
  moreover have "requestsOk ?c"
    unfolding requestsOk_def
  proof (intro ballI impI conjI)
    fix a
    assume "a \<in> spoken ?c" and "cmType a = PrepareRequestType"
    then have a: "a \<in> insert m (spoken c)" "cmType a = PrepareRequestType" by simp_all
    show "RequestSentOrReceived ?c" if "viewNumber a = ViewNumber ?c"
    proof (cases "a = m")
      case True
      then show ?thesis using a r by simp
    next
      case False
      then show ?thesis using a that requestsOkD(1)[OF o(3)] by simp
    qed
    fix b
    assume "b \<in> spoken ?c" and "cmType b = PrepareRequestType" "viewNumber b = viewNumber a"
    then have b: "b \<in> insert m (spoken c)" "cmType b = PrepareRequestType" "viewNumber b = viewNumber a"
      by simp_all
    consider "a = b" | "a = m" "b \<in> spoken c" | "b = m" "a \<in> spoken c" | "a \<in> spoken c" "b \<in> spoken c"
      using a b by blast
    then show "body b = body a"
    proof cases
      case 4
      then show ?thesis using a b requestsOkD(2)[OF o(3)] by blast
    qed (use a b r m(3) in auto)
  qed
  ultimately show ?thesis using t by (simp add: honest_def)
qed

end
