(* ===== verification/Peer.thy ===== *)
theory Peer
  imports Honest
begin

section \<open>The code is honest\<close>

text \<open>
  Every operation of a node without the anti-MEV extension keeps the invariant \<open>honest\<close>, when the
  messages it receives are \<open>good\<close>, and stops only in the ways \<open>E\<close> that the callbacks cause.
\<close>

text \<open>A header of the proposal that the node has.\<close>

definition ofProposal :: "('pub, 'b) place \<Rightarrow> ('tx, 'b, 'pb, 'pub, 'priv) dbft \<Rightarrow> 'b option \<Rightarrow> bool" where
  "ofProposal w c h \<longleftrightarrow> (\<forall>b. h = Some b \<longrightarrow> RequestSentOrReceived c \<and> (\<forall>p. agrees p c \<longrightarrow> plHeader w p b))"

locale peer =
  fixes cfg :: "('tx, 'b, 'pb, 'pub, 'priv) config" and w :: "('pub, 'b) place" and E :: "stop set"
  assumes noMEV: "AntiMEVExtensionEnablingHeight cfg < 0"
    and active: "\<not> cfgWatchOnly cfg"
    and me: "fst (GetKeyPair cfg (plValidators w)) = plMe w"
    and size: "length (plValidators w) \<le> 2 ^ 16"
    and others: "0 \<le> plMe w \<Longrightarrow> m \<in> plOthers w \<Longrightarrow> unat (validatorIndex m) \<noteq> nat (plMe w)"
    and increments: "TimestampIncrement cfg = 0 \<Longrightarrow> DivisionByZero \<in> E"
    and headers: "TransactionHashes c \<noteq> None \<Longrightarrow> NewBlockFromContext cfg c = None \<Longrightarrow> NilDereference \<in> E"
    and made: "NewBlockFromContext cfg c = Some b \<Longrightarrow> BlockIndex c = plIndex w \<Longrightarrow> PrevHash c = plPrev w \<Longrightarrow>
      agrees p c \<Longrightarrow> plHeader w p b"
    and filled: "plHeader w p b \<Longrightarrow> plHeader w p (blockSetTransactions cfg txs b)"
    and signed: "plHeader w p b \<Longrightarrow> blockSign cfg es k b = Some b' \<Longrightarrow> plHeader w p b'"
    and accepts: "\<not> ProcessBlock cfg es b \<Longrightarrow> LoggerFatal \<in> E"
    and fuel: "OutOfFuel \<in> E"
begin

lemma amev [simp]: "\<not> isAntiMEVExtensionEnabled cfg c"
  using noMEV by (simp add: isAntiMEVExtensionEnabled_def)

lemma honD:
  assumes "hon w B c"
  shows "placed w c" "tablesOk w (said w c) c" "ownOk w c" "lockOk w c" "requestsOk c" "B \<subseteq> said w c"
    "MyIndex c = plMe w" "PrimaryIndex c = plPrimary w (ViewNumber c)" "Validators c = plValidators w"
    "GetPrimaryIndex c v = plPrimary w v" "PrimaryIndex c < length (PreparationPayloads c)"
    "length (PreparationPayloads c) = length (plValidators w)" "length (CommitPayloads c) = length (plValidators w)"
    "plMe w < int (length (plValidators w))" "slot (PreCommitPayloads c) i = None"
  using assms by (auto simp: hon_def honest_def tablesOk_def placed_def)

lemma quorumSize: "hon w B c \<Longrightarrow> ctxM c = plM w"
  by (simp add: ctxM_def ctxF_def plM_def honD)

lemma watching: "hon w B c \<Longrightarrow> WatchOnly cfg c \<longleftrightarrow> plMe w < 0"
  using active by (simp add: WatchOnly_def honD)

lemma noPreCommit: "hon w B c \<Longrightarrow> \<not> PreCommitSent cfg c"
  by (simp add: PreCommitSent_def honD)

lemma word_index: "0 \<le> plMe w \<Longrightarrow> hon w B c \<Longrightarrow> unat (word_of_int (plMe w) :: u16) = nat (plMe w)"
  using size honD(14)[of B c] by (simp add: unsigned_of_int take_bit_int_eq_self)

lemma own_said:
  assumes "0 \<le> plMe w" and "m \<in> said w c" and "unat (validatorIndex m) = nat (plMe w)"
  shows "m \<in> spoken c"
  using assms others[of m] unfolding said_def by blast

lemma free_hon: "free w B c \<Longrightarrow> hon w B c"
  by (simp add: free_def)

lemma free_uncommitted:
  assumes "hon w B c" and "\<not> CommitSent cfg c"
  shows "free w B c"
proof -
  have "cmType m \<noteq> CommitType" if "m \<in> spoken c" for m
    using honD(3,4)[OF assms(1)] that assms(2) watching[OF assms(1)] honD(7)[OF assms(1)]
    by (auto simp: ownOk_def lockOk_def CommitSent_def)
  then show ?thesis using assms(1) by (simp add: free_def)
qed

lemma free_unrequested:
  assumes "hon w B c" and "\<not> RequestSentOrReceived c"
  shows "free w B c"
  using honD(4)[OF assms(1)] assms by (auto simp: lockOk_def free_def)

lemma free_slot:
  assumes "hon w B c" and "slot (CommitPayloads c) (nat (plMe w)) = None"
  shows "free w B c"
  using honD(4)[OF assms(1)] assms by (auto simp: lockOk_def free_def)

subsection \<open>Silent statements\<close>

lemma emit_ret:
  assumes "\<And>m. e \<noteq> EBroadcast m"
  shows "hon w B c \<Longrightarrow> returns E (hon w B) (emit e c)" "free w B c \<Longrightarrow> returns E (free w B) (emit e c)"
  using assms by (simp_all add: emit_def)

lemma changeTimer_ret:
  "hon w B c \<Longrightarrow> returns E (hon w B) (changeTimer t c)" "free w B c \<Longrightarrow> returns E (free w B) (changeTimer t c)"
  by (simp_all add: changeTimer_def emit_ret)

lemma extendTimer_ret:
  "hon w B c \<Longrightarrow> returns E (hon w B) (extendTimer cfg k c)" "free w B c \<Longrightarrow> returns E (free w B) (extendTimer cfg k c)"
  by (simp_all add: extendTimer_def emit_ret)

lemma subscribe_ret:
  "hon w B c \<Longrightarrow> returns E (hon w B) (subscribeForTransactions c)"
  "hon w B c \<Longrightarrow> returns E (hon w B) (unsubscribeFromTransactions c)"
  by (simp_all add: subscribeForTransactions_def unsubscribeFromTransactions_def)

subsection \<open>Headers and blocks\<close>

lemma hon_header:
  assumes "hon w B c" and "ofProposal w c h" and "x \<Longrightarrow> h \<noteq> None"
  shows "hon w B (c\<lparr>header := h, blockSet := x\<rparr>)"
  using assms by (auto simp: hon_def honest_def tablesOk_def ofProposal_def)

lemma MakeHeader_ret:
  assumes "hon w B c" and "MakeHeader cfg c = (h, d)"
  shows "d = c\<lparr>header := h\<rparr>" "hon w B d" "ofProposal w c h"
    "RequestSentOrReceived c \<Longrightarrow> h = None \<Longrightarrow> NilDereference \<in> E" "blockSet c \<Longrightarrow> h \<noteq> None"
proof -
  have t: "tablesOk w (said w c) c" by (rule honD(2)[OF assms(1)])
  show d: "d = c\<lparr>header := h\<rparr>" using assms(2) by (auto simp: MakeHeader_def Let_def split: if_split_asm)
  have at: "BlockIndex c = plIndex w" "PrevHash c = plPrev w" using honD(1)[OF assms(1)] by (simp_all add: placed_def)
  show r: "ofProposal w c h"
    using assms(2) t made[OF _ at] unfolding ofProposal_def
    by (auto simp: MakeHeader_def Let_def tablesOk_def split: if_split_asm)
  have "RequestSentOrReceived c \<Longrightarrow> TransactionHashes c \<noteq> None"
    using t by (auto simp: tablesOk_def proposed_def agrees_def)
  then show "RequestSentOrReceived c \<Longrightarrow> h = None \<Longrightarrow> NilDereference \<in> E"
    using assms(2) headers[of c] by (auto simp: MakeHeader_def Let_def split: if_split_asm)
  show b: "h \<noteq> None" if set: "blockSet c"
  proof -
    obtain y where "header c = Some y" using t set by (auto simp: tablesOk_def)
    then have "MakeHeader cfg c = (Some y, c)" by (simp add: MakeHeader_def)
    then show ?thesis using assms(2) by auto
  qed
  have "hon w B (c\<lparr>header := h, blockSet := blockSet c\<rparr>)" using hon_header[OF assms(1) r b] .
  then show "hon w B d" by (simp add: d)
qed

lemma CreateBlock_ret:
  assumes "hon w B c" and "CreateBlock cfg c = (b, d)"
  shows "d = c\<lparr>header := b, blockSet := blockSet d\<rparr>" "hon w B d" "ofProposal w c b"
    "RequestSentOrReceived c \<Longrightarrow> b = None \<Longrightarrow> NilDereference \<in> E"
proof -
  obtain h c1 where m: "MakeHeader cfg c = (h, c1)" by fastforce
  note h = MakeHeader_ret[OF assms(1) m]
  have t: "tablesOk w (said w c) c" by (rule honD(2)[OF assms(1)])
  show d: "d = c\<lparr>header := b, blockSet := blockSet d\<rparr>"
    using assms(2) m h(1) by (auto simp: CreateBlock_def Let_def split: if_split_asm option.split_asm)
  show r: "ofProposal w c b"
    using assms(2) m h(3) t filled unfolding ofProposal_def
    by (auto simp: CreateBlock_def Let_def tablesOk_def split: if_split_asm option.split_asm)
  show "RequestSentOrReceived c \<Longrightarrow> b = None \<Longrightarrow> NilDereference \<in> E"
    using assms(2) m h(4) t by (auto simp: CreateBlock_def Let_def tablesOk_def split: if_split_asm option.split_asm)
  have "blockSet d \<Longrightarrow> b \<noteq> None"
    using assms(2) m h(1,5) t by (auto simp: CreateBlock_def Let_def tablesOk_def split: if_split_asm option.split_asm)
  then have "hon w B (c\<lparr>header := b, blockSet := blockSet d\<rparr>)" using hon_header[OF assms(1) r] by blast
  then show "hon w B d" by (subst d)
qed

subsection \<open>Speaking\<close>

text \<open>A broadcast that is neither a proposal nor a Commit.\<close>

lemma broadcast_hon:
  assumes "hon w B c" and "0 \<le> plMe w" and "viewNumber m = ViewNumber c"
    and "cmType m \<noteq> CommitType" and "cmType m \<noteq> PrepareRequestType"
    and "good (plPrimary w) (said w c) (SetValidatorIndex (word_of_int (plMe w)) m)"
  shows "returns E (hon w B) (broadcast m c)" and "free w B c \<Longrightarrow> returns E (free w B) (broadcast m c)"
proof -
  let ?m = "SetValidatorIndex (word_of_int (plMe w)) m"
  have sub: "said w c \<subseteq> insert ?m (said w c)" by blast
  have "honest w (c\<lparr>log := EBroadcast ?m # log c\<rparr>)"
    using assms word_index[OF assms(2,1)] honD(3-5)[OF assms(1)] good_mono[OF assms(6) sub]
    by (intro speak tablesOk_mono[OF honD(2)[OF assms(1)] sub]) simp_all
  then have h: "hon w B (c\<lparr>log := EBroadcast ?m # log c\<rparr>)"
    using honD(6)[OF assms(1)] by (auto simp: hon_def)
  then show "returns E (hon w B) (broadcast m c)"
    by (simp add: broadcast_def emit_def honD(7)[OF assms(1)])
  show "free w B c \<Longrightarrow> returns E (free w B) (broadcast m c)"
    using h assms(4) by (simp add: broadcast_def emit_def honD(7)[OF assms(1)] free_def)
qed

lemma ownPayload_me [simp]:
  "cmType (ownPayload c t m) = t" "viewNumber (ownPayload c t m) = ViewNumber c"
  "body (ownPayload c t m) = m" "validatorIndex (ownPayload c t m) = word_of_int (MyIndex c)"
  by (simp_all add: ownPayload_def)

lemma ownPayload_own: "SetValidatorIndex (word_of_int (MyIndex c)) (ownPayload c t m) = ownPayload c t m"
  by (simp add: SetValidatorIndex_own)

lemma changeViews_put:
  assumes "hon w B c" and "wellTyped m" and "cmType m = ChangeViewType"
  shows "hon w B (c\<lparr>ChangeViewPayloads := (ChangeViewPayloads c)[i := Some m]\<rparr>)"
  using assms
  by (auto simp: hon_def honest_def tablesOk_def changeViewsOk_def slot_update split: if_split_asm)

lemma makeChangeView_ret:
  assumes "hon w B c" and "0 \<le> plMe w" and "makeChangeView cfg ts r c = (m, d)"
  shows "hon w B d" "free w B c \<Longrightarrow> free w B d" "viewNumber m = ViewNumber d" "cmType m = ChangeViewType"
    "good pr A (SetValidatorIndex i m)"
proof -
  let ?m = "ownPayload c ChangeViewType (ChangeViewMsg (NewChangeView (ViewNumber c + 1) r ts))"
  have m: "m = ?m" and d: "d = c\<lparr>ChangeViewPayloads := (ChangeViewPayloads c)[nat (MyIndex c) := Some ?m]\<rparr>"
    using assms(3) by (auto simp: makeChangeView_def Let_def)
  show "hon w B d" unfolding d by (rule changeViews_put[OF assms(1)]) (simp_all add: wellTyped_def)
  then show "free w B c \<Longrightarrow> free w B d" by (simp add: free_def d)
  show "viewNumber m = ViewNumber d" "cmType m = ChangeViewType" "good pr A (SetValidatorIndex i m)"
    by (simp_all add: m d good_def wellTyped_def)
qed

text \<open>A PrepareResponse is stored and sent.\<close>

lemma preps_put:
  assumes "tablesOk w A c" and "wellTyped m" and "viewNumber m = ViewNumber c" and "unat (validatorIndex m) = i"
    and "prepared A i (ViewNumber c)"
    and "cmType m = (if i = PrimaryIndex c then PrepareRequestType else PrepareResponseType)"
    and "\<And>r. body m = PrepareRequestMsg r \<Longrightarrow> proposed A i (ViewNumber c) r"
    and "i = PrimaryIndex c \<Longrightarrow> \<exists>p. proposed A i (ViewNumber c) p \<and> agrees p c"
  shows "tablesOk w A (c\<lparr>PreparationPayloads := (PreparationPayloads c)[i := Some m]\<rparr>)"
proof -
  let ?c = "c\<lparr>PreparationPayloads := (PreparationPayloads c)[i := Some m]\<rparr>"
  have "prepsOk A (PrimaryIndex c) (ViewNumber c) ((PreparationPayloads c)[i := Some m])"
    using assms by (auto simp: tablesOk_def prepsOk_def slot_update split: if_split_asm)
  moreover have "RequestSentOrReceived ?c \<Longrightarrow> RequestSentOrReceived c \<or> i = PrimaryIndex c"
    "RequestSentOrReceived c \<Longrightarrow> RequestSentOrReceived ?c"
    by (auto simp: RequestSentOrReceived_def slot_update split: if_split_asm)
  ultimately show ?thesis using assms(1,8) by (auto simp: tablesOk_def)
qed

lemma own_mono:
  assumes "spoken d = spoken c" and "said w d = said w c" and "ViewNumber d = ViewNumber c"
    and r: "RequestSentOrReceived c \<Longrightarrow> RequestSentOrReceived d"
  shows "slot (CommitPayloads d) (nat (plMe w)) = slot (CommitPayloads c) (nat (plMe w)) \<Longrightarrow> lockOk w c \<Longrightarrow> lockOk w d"
    and "requestsOk c \<Longrightarrow> requestsOk d"
proof -
  show "slot (CommitPayloads d) (nat (plMe w)) = slot (CommitPayloads c) (nat (plMe w)) \<Longrightarrow> lockOk w c \<Longrightarrow> lockOk w d"
    using r unfolding lockOk_def assms(1-3) by auto
  show "requestsOk d" if c: "requestsOk c"
    unfolding requestsOk_def assms(1,3)
    using requestsOkD(2)[OF c] r[OF requestsOkD(1)[OF c]] by blast
qed

lemma request_put:
  "RequestSentOrReceived c \<Longrightarrow> RequestSentOrReceived (c\<lparr>PreparationPayloads := (PreparationPayloads c)[i := Some m]\<rparr>)"
  by (auto simp: RequestSentOrReceived_def slot_update)

lemma own_put:
  "lockOk w c \<Longrightarrow> lockOk w (c\<lparr>PreparationPayloads := (PreparationPayloads c)[i := Some m]\<rparr>)"
  "requestsOk c \<Longrightarrow> requestsOk (c\<lparr>PreparationPayloads := (PreparationPayloads c)[i := Some m]\<rparr>)"
  by (rule own_mono; simp add: request_put)+

lemma sendPrepareResponse_ret:
  assumes "hon w B c" and "0 \<le> plMe w" and "\<not> IsPrimary c" and "RequestSentOrReceived c"
  shows "returns E (hon w B) (sendPrepareResponse cfg c)"
proof -
  obtain req where q: "slot (PreparationPayloads c) (PrimaryIndex c) = Some req"
    using assms(4) by (auto simp: RequestSentOrReceived_def)
  let ?m = "ownPayload c PrepareResponseType (PrepareResponseMsg (NewPrepareResponse (payloadHash cfg req)))"
  let ?i = "nat (plMe w)"
  let ?c = "c\<lparr>PreparationPayloads := (PreparationPayloads c)[?i := Some ?m], log := EStopTxFlow # log c\<rparr>"
  let ?A = "insert ?m (said w c)"
  have me: "MyIndex c = plMe w" by (rule honD(7)[OF assms(1)])
  have i: "unat (validatorIndex ?m) = ?i" using word_index[OF assms(2,1)] by (simp add: me)
  have p: "prepared ?A ?i (ViewNumber c)" using i unfolding prepared_def by auto
  have other: "?i \<noteq> PrimaryIndex c" using assms(2,3) me by (auto simp: IsPrimary_def)
  have "tablesOk w ?A (c\<lparr>PreparationPayloads := (PreparationPayloads c)[?i := Some ?m]\<rparr>)"
    by (rule preps_put) (use tablesOk_mono[OF honD(2)[OF assms(1)]] i p other in
      \<open>auto simp: wellTyped_def\<close>)
  then have t: "tablesOk w (insert ?m (said w ?c)) ?c" by simp
  have "honest w (?c\<lparr>log := EBroadcast ?m # log ?c\<rparr>)"
  proof (rule speak[OF t])
    show "good (plPrimary w) (insert ?m (said w ?c)) ?m" using p i by (simp add: good_def wellTyped_def me)
  qed (use honD(3-5)[OF assms(1)] own_put i assms(2) in \<open>simp_all\<close>)
  then have "hon w B (?c\<lparr>log := EBroadcast ?m # log ?c\<rparr>)"
    using honD(6)[OF assms(1)] by (auto simp: hon_def)
  then show ?thesis
    by (simp add: sendPrepareResponse_def makePrepareResponse_def q me broadcast_def emit_def
        SetValidatorIndex_own Let_def)
qed

text \<open>A Commit is stored and sent.\<close>

lemma commits_put:
  assumes "tablesOk w A c" and "wellTyped m" and "cmType m = CommitType" and "unat (validatorIndex m) = i"
    and "viewNumber m \<le> ViewNumber c" and "backed A i (viewNumber m)"
  shows "tablesOk w A (c\<lparr>CommitPayloads := (CommitPayloads c)[i := Some m]\<rparr>)"
proof -
  have "commitsOk A (ViewNumber c) ((CommitPayloads c)[i := Some m])"
    using assms by (auto simp: tablesOk_def commitsOk_def slot_update split: if_split_asm)
  then show ?thesis using assms(1) by (simp add: tablesOk_def)
qed

lemma sayCommit:
  assumes "hon w B c" and "0 \<le> plMe w" and "RequestSentOrReceived c"
    and "plM w \<le> card {i. prepared (said w c) i (ViewNumber c)}"
    and "wellTyped m" and "cmType m = CommitType" and "validatorIndex m = word_of_int (plMe w)"
    and "viewNumber m = ViewNumber c"
  shows "returns E (\<lambda>d. hon w B d \<and> RequestSentOrReceived d)
    (broadcast m (c\<lparr>CommitPayloads := (CommitPayloads c)[nat (MyIndex c) := Some m]\<rparr>))"
proof -
  let ?i = "nat (plMe w)" and ?A = "insert m (said w c)"
  let ?c = "c\<lparr>CommitPayloads := (CommitPayloads c)[?i := Some m]\<rparr>"
  have me: "MyIndex c = plMe w" by (rule honD(7)[OF assms(1)])
  have i: "unat (validatorIndex m) = ?i" using word_index[OF assms(2,1)] assms(7) by simp
  have "committed ?A ?i (ViewNumber c)" using i assms(6,8) by (auto simp: committed_def)
  then have b: "backed ?A ?i (ViewNumber c)" unfolding backed_def by blast
  have t: "tablesOk w ?A ?c"
    by (rule commits_put) (use tablesOk_mono[OF honD(2)[OF assms(1)]] assms i b in auto)
  have slot: "slot (CommitPayloads ?c) ?i = Some m"
    using assms(2) honD(13,14)[OF assms(1)] by simp
  have "lockOk w ?c" using honD(4)[OF assms(1)] slot unfolding lockOk_def by auto
  moreover have "good (plPrimary w) ?A m"
    using assms(5,6) b i assms(8) wellTyped_getters(5)[of m] by (auto simp: good_def)
  ultimately have "honest w (?c\<lparr>log := EBroadcast m # log ?c\<rparr>)"
    using t slot assms(2-4,6,8) i honD(3,5)[OF assms(1)] by (intro speak) simp_all
  then have "hon w B (?c\<lparr>log := EBroadcast m # log ?c\<rparr>)"
    using honD(6)[OF assms(1)] by (auto simp: hon_def)
  then show ?thesis
    using assms(3) by (simp add: broadcast_def emit_def me SetValidatorIndex_own assms(7))
qed

lemma own_commit_view:
  assumes "hon w B c" and "0 \<le> plMe w" and "slot (CommitPayloads c) (nat (plMe w)) = Some m"
  shows "wellTyped m" "cmType m = CommitType" "validatorIndex m = word_of_int (plMe w)"
    "viewNumber m = ViewNumber c"
proof -
  have k: "wellTyped m \<and> cmType m = CommitType \<and> unat (validatorIndex m) = nat (plMe w)
      \<and> viewNumber m \<le> ViewNumber c \<and> backed (said w c) (nat (plMe w)) (viewNumber m)"
    using honD(2)[OF assms(1)] assms(3) unfolding tablesOk_def commitsOk_def by blast
  then show "wellTyped m" "cmType m = CommitType" by simp_all
  have "unat (validatorIndex m) = unat (word_of_int (plMe w) :: u16)"
    using k word_index[OF assms(2,1)] by simp
  then show "validatorIndex m = word_of_int (plMe w)" by (simp only: word_unat_eq_iff)
  obtain v where v: "v \<le> viewNumber m" "committed (said w c) (nat (plMe w)) v"
    using k unfolding backed_def by blast
  then obtain m' where m': "m' \<in> said w c" "unat (validatorIndex m') = nat (plMe w)" "viewNumber m' = v"
    "cmType m' = CommitType"
    unfolding committed_def by blast
  then have "viewNumber m' = ViewNumber c"
    using own_said[OF assms(2) m'(1,2)] honD(4)[OF assms(1)] unfolding lockOk_def by blast
  then show "viewNumber m = ViewNumber c" using k v(1) m'(3) by simp
qed

lemma sendCommit_ret:
  assumes "hon w B c" and "0 \<le> plMe w" and "RequestSentOrReceived c"
    and "plM w \<le> card {i. prepared (said w c) i (ViewNumber c)}"
  shows "returns E (\<lambda>d. hon w B d \<and> RequestSentOrReceived d) (sendCommit cfg c)"
proof (cases "slot (CommitPayloads c) (nat (plMe w))")
  case (Some m)
  then have "makeCommit cfg c = (Some m, c)" by (simp add: makeCommit_def honD(7)[OF assms(1)])
  then show ?thesis
    using sayCommit[OF assms own_commit_view[OF assms(1,2) Some]] by (simp add: sendCommit_def)
next
  case None
  obtain h c1 where m: "MakeHeader cfg c = (h, c1)" by fastforce
  note h = MakeHeader_ret[OF assms(1) m]
  have same: "RequestSentOrReceived c1" "plM w \<le> card {i. prepared (said w c1) i (ViewNumber c1)}"
    using assms(3,4) by (simp_all add: h(1))
  show ?thesis
  proof (cases "h = None \<or> blockSign cfg (log c1) (Priv c1) (the h) = None")
    case True
    then have "sendCommit cfg c = Inr c1"
      using None m by (cases h) (auto simp: sendCommit_def makeCommit_def honD(7)[OF assms(1)])
    then show ?thesis using h(2) same(1) by simp
  next
    case False
    then obtain x b where x: "h = Some x" "blockSign cfg (log c1) (Priv c1) x = Some b" by auto
    let ?c = "c1\<lparr>header := Some b\<rparr>"
    let ?m = "ownPayload ?c CommitType (CommitMsg (NewCommit (blockSignature cfg b)))"
    have "ofProposal w c1 (Some b)"
      using h(3) signed[OF _ x(2)] by (auto simp: ofProposal_def x(1) h(1))
    then have "hon w B (c1\<lparr>header := Some b, blockSet := blockSet c1\<rparr>)"
      using hon_header[OF h(2), of "Some b" "blockSet c1"] by simp
    then have c: "hon w B ?c" by simp
    have "returns E (\<lambda>d. hon w B d \<and> RequestSentOrReceived d)
        (broadcast ?m (?c\<lparr>CommitPayloads := (CommitPayloads ?c)[nat (MyIndex ?c) := Some ?m]\<rparr>))"
      by (rule sayCommit[OF c assms(2)]) (use same honD(7)[OF h(2)] in \<open>simp_all add: wellTyped_def\<close>)
    then show ?thesis
      using None m x by (simp add: sendCommit_def makeCommit_def honD(7)[OF assms(1)] Let_def)
  qed
qed

lemma checkCommit_ret:
  assumes "hon w B c" and "RequestSentOrReceived c"
  shows "returns E (hon w B) (checkCommit cfg c)"
proof -
  obtain b d where m: "CreateBlock cfg c = (b, d)" by fastforce
  note b = CreateBlock_ret[OF assms(1) m]
  show ?thesis
    using assms m b(2,4) accepts
    by (cases b) (auto simp: checkCommit_def emit_def Let_def)
qed

lemma checkPrepare_ret:
  assumes "hon w B c" and "0 \<le> plMe w"
  shows "returns E (hon w B) (checkPrepare cfg c)"
proof -
  let ?c = "noteBlockTime cfg c"
  have c: "hon w B ?c" using assms(1) by (simp add: noteBlockTime_def)
  have "returns E (hon w B) (steps [sendCommit cfg, (\<lambda>c. changeTimer (timePerBlock c) c), checkCommit cfg] ?c)"
    if r: "hasRequest (PreparationPayloads ?c)" and q: "ctxM ?c \<le> countView (ViewNumber ?c) (PreparationPayloads ?c)"
  proof -
    have p: "prepsOk (said w ?c) (PrimaryIndex ?c) (ViewNumber ?c) (PreparationPayloads ?c)"
      using honD(2)[OF c] by (simp add: tablesOk_def)
    obtain i m where "slot (PreparationPayloads ?c) i = Some m" "cmType m = PrepareRequestType"
      using r by (auto simp: hasRequest_def present_slot)
    then have req: "RequestSentOrReceived ?c"
      using p by (auto simp: prepsOk_def RequestSentOrReceived_def split: if_split_asm)
    have "card {i. \<exists>m. slot (PreparationPayloads ?c) i = Some m \<and> viewNumber m = ViewNumber ?c}
        \<le> card {i. prepared (said w ?c) i (ViewNumber ?c)}"
      by (rule card_mono[OF finite_prepared]) (use p in \<open>auto simp: prepsOk_def\<close>)
    then have n: "plM w \<le> card {i. prepared (said w ?c) i (ViewNumber ?c)}"
      using q quorumSize[OF c] by (simp add: countView_def length_present_card)
    have t: "returns E (\<lambda>d. hon w B d \<and> RequestSentOrReceived d) (changeTimer (timePerBlock d) d)"
      if "hon w B d \<and> RequestSentOrReceived d" for d
      using that by (simp add: changeTimer_def emit_def)
    show ?thesis
      by (rule returns_Cons, rule sendCommit_ret[OF c assms(2) req n], rule returns_Cons, erule t,
          rule returns_Cons[where P = "hon w B"]) (auto intro: checkCommit_ret)
  qed
  then show ?thesis using c by (simp add: checkPrepare_def Let_def del: steps.simps)
qed

subsection \<open>The proposal\<close>

lemma unrequested_upd:
  assumes "hon w B c" and "\<not> RequestSentOrReceived c"
  shows "hon w B (c\<lparr>TransactionHashes := th\<rparr>)" "hon w B (c\<lparr>Nonce := n\<rparr>)" "hon w B (c\<lparr>Timestamp := t\<rparr>)"
  using assms by (auto simp: hon_def honest_def tablesOk_def)

lemma Fill_ret:
  assumes "hon w B c" and "\<not> RequestSentOrReceived c"
  shows "returns E (\<lambda>(filled, d). hon w B d \<and> \<not> RequestSentOrReceived d \<and> PrimaryIndex d = PrimaryIndex c
      \<and> (filled \<longrightarrow> TransactionHashes d \<noteq> None)) (Fill cfg force c)"
proof -
  let ?txx = "GetVerified cfg (log c)"
  let ?ts = "lastBlockTimestamp c + TimestampIncrement cfg"
  let ?c = "c\<lparr>Nonce := Rand cfg (log c), TransactionHashes := Some (map (txHash cfg) ?txx),
      Transactions := fold (\<lambda>tx. AList.update (txHash cfg tx) tx) ?txx (Transactions c), Timestamp := ?ts\<rparr>"
  have c1: "hon w B (c\<lparr>Nonce := Rand cfg (log c)\<rparr>)" by (rule unrequested_upd(2)[OF assms])
  have c2: "hon w B (c\<lparr>Nonce := Rand cfg (log c), TransactionHashes := Some (map (txHash cfg) ?txx)\<rparr>)"
    by (rule unrequested_upd(1)[OF c1]) (simp add: assms(2))
  have "hon w B (c\<lparr>Nonce := Rand cfg (log c), TransactionHashes := Some (map (txHash cfg) ?txx),
      Transactions := fold (\<lambda>tx. AList.update (txHash cfg tx) tx) ?txx (Transactions c)\<rparr>)"
    using c2 by simp
  from unrequested_upd(3)[OF this] have c: "hon w B ?c" by (simp add: assms(2))
  have r: "\<not> RequestSentOrReceived ?c" by (simp add: assms(2))
  show ?thesis
    using assms c unrequested_upd(3)[OF c r] increments
    by (auto simp: Fill_def Let_def getTimestamp_def returns_thenDo)
qed

lemma sayRequest:
  assumes "hon w B c" and "\<not> RequestSentOrReceived c" and "IsPrimary c" and "TransactionHashes c \<noteq> None"
    and "m = ownPayload c PrepareRequestType (PrepareRequestMsg
      (NewPrepareRequest (Timestamp c) (Nonce c) (TransactionHashes c)))"
  shows "hon w B (c\<lparr>PreparationPayloads := (PreparationPayloads c)[nat (plMe w) := Some m],
      log := EBroadcast m # log c\<rparr>)"
proof -
  let ?p = "NewPrepareRequest (Timestamp c) (Nonce c) (TransactionHashes c)"
  let ?i = "nat (plMe w)" and ?A = "insert m (said w c)"
  let ?c = "c\<lparr>PreparationPayloads := (PreparationPayloads c)[?i := Some m]\<rparr>"
  have me: "MyIndex c = plMe w" by (rule honD(7)[OF assms(1)])
  have i: "0 \<le> plMe w" "?i = PrimaryIndex c" using assms(3) me by (simp_all add: IsPrimary_def)
  have idx: "unat (validatorIndex m) = ?i" using word_index[OF i(1) assms(1)] by (simp add: me assms(5))
  have sel: "cmType m = PrepareRequestType" "viewNumber m = ViewNumber c" "body m = PrepareRequestMsg ?p"
    by (simp_all add: assms(5))
  have a: "agrees ?p c" by (simp add: agrees_def NewPrepareRequest_def)
  have p: "proposed ?A ?i (ViewNumber c) ?p"
    using idx assms(4) sel by (auto simp: proposed_def NewPrepareRequest_def)
  have t: "tablesOk w ?A ?c"
    by (rule preps_put) (use tablesOk_mono[OF honD(2)[OF assms(1)]] idx sel p a i(2) proposed_prepared[OF p] in
      \<open>auto simp: wellTyped_def\<close>)
  have req: "RequestSentOrReceived ?c"
    using honD(11)[OF assms(1)] i(2) by (simp add: RequestSentOrReceived_def)
  have new: "viewNumber m' \<noteq> ViewNumber c" if "m' \<in> spoken c" "cmType m' = PrepareRequestType" for m'
    using requestsOkD(1)[OF honD(5)[OF assms(1)] that] assms(2) by blast
  have "honest w (?c\<lparr>log := EBroadcast m # log ?c\<rparr>)"
  proof (rule speak)
    show "good (plPrimary w) (insert m (said w ?c)) m" using p idx sel by (simp add: good_def wellTyped_def)
    show "RequestSentOrReceived ?c
        \<and> (\<forall>m' \<in> spoken ?c. cmType m' = PrepareRequestType \<longrightarrow> viewNumber m' \<noteq> ViewNumber ?c)"
      using req new by simp
  qed (use t honD(3-5)[OF assms(1)] own_put idx i(1) sel in \<open>simp_all\<close>)
  then show ?thesis using honD(6)[OF assms(1)] by (auto simp: hon_def)
qed

lemma proposeRequest_ret:
  assumes "hon w B c" and "\<not> RequestSentOrReceived c" and "IsPrimary c" and "TransactionHashes c \<noteq> None"
  shows "returns E (hon w B) (proposeRequest cfg (ownPayload c PrepareRequestType (PrepareRequestMsg
      (NewPrepareRequest (Timestamp c) (Nonce c) (TransactionHashes c)))) c)"
proof -
  let ?m = "ownPayload c PrepareRequestType (PrepareRequestMsg
      (NewPrepareRequest (Timestamp c) (Nonce c) (TransactionHashes c)))"
  let ?rest = "[(\<lambda>c. Ok (c\<lparr>prepareSentTime := TimerNow cfg (log c)\<rparr>)),
       (\<lambda>c. changeTimer (if ViewNumber c = 0
             then wrap64 (shl64 (timePerBlock c) (unat (ViewNumber c + 1)) - timePerBlock c)
             else shl64 (timePerBlock c) (unat (ViewNumber c + 1))) c), checkPrepare cfg]"
  let ?c = "c\<lparr>txSubscriptionOn := False\<rparr>"
  have me: "MyIndex c = plMe w" "0 \<le> plMe w"
    using honD(7)[OF assms(1)] assms(3) by (simp_all add: IsPrimary_def)
  have h: "hon w B (?c\<lparr>PreparationPayloads := (PreparationPayloads ?c)[nat (plMe w) := Some ?m],
      log := EBroadcast ?m # log ?c\<rparr>)"
    by (rule sayRequest) (use assms in \<open>simp_all add: IsPrimary_def ownPayload_def\<close>)
  have k: "returns E (hon w B) (steps ?rest d)" if "hon w B d" for d
    by (rule returns_Cons[where P = "hon w B"], use that in simp,
        rule returns_Cons[where P = "hon w B"], erule changeTimer_ret,
        rule returns_Cons[where P = "hon w B"], erule checkPrepare_ret[OF _ me(2)], simp)
  have eq: "proposeRequest cfg ?m c = steps ?rest (?c\<lparr>PreparationPayloads :=
      (PreparationPayloads ?c)[nat (plMe w) := Some ?m], log := EBroadcast ?m # log ?c\<rparr>)"
    by (simp add: proposeRequest_def unsubscribeFromTransactions_def broadcast_def emit_def me SetValidatorIndex_own)
  show ?thesis unfolding eq by (rule k[OF h])
qed

lemma makePrepareRequest_ret:
  assumes "hon w B c" and "\<not> RequestSentOrReceived c" and "IsPrimary c"
  shows "returns E (\<lambda>(m, d). hon w B d \<and> \<not> RequestSentOrReceived d \<and> IsPrimary d
      \<and> (\<forall>msg. m = Some msg \<longrightarrow> TransactionHashes d \<noteq> None \<and> msg = ownPayload d PrepareRequestType
            (PrepareRequestMsg (NewPrepareRequest (Timestamp d) (Nonce d) (TransactionHashes d)))))
    (makePrepareRequest cfg force c)"
  unfolding makePrepareRequest_def
proof (rule returns_thenDo[OF Fill_ret[OF assms(1,2)]])
  fix r
  assume "case r of (filled, d) \<Rightarrow> hon w B d \<and> \<not> RequestSentOrReceived d \<and> PrimaryIndex d = PrimaryIndex c
      \<and> (filled \<longrightarrow> TransactionHashes d \<noteq> None)"
  then show "returns E (\<lambda>(m, d). hon w B d \<and> \<not> RequestSentOrReceived d \<and> IsPrimary d
      \<and> (\<forall>msg. m = Some msg \<longrightarrow> TransactionHashes d \<noteq> None \<and> msg = ownPayload d PrepareRequestType
            (PrepareRequestMsg (NewPrepareRequest (Timestamp d) (Nonce d) (TransactionHashes d)))))
      (case r of (filled, c1) \<Rightarrow> if \<not> filled then Ok (None, c1)
       else Ok (Some (ownPayload c1 PrepareRequestType (PrepareRequestMsg
                  (NewPrepareRequest (Timestamp c1) (Nonce c1) (TransactionHashes c1)))), c1))"
    using assms(3) honD(7)[OF assms(1)] honD(7) by (cases r) (auto simp: IsPrimary_def)
qed

lemma sendPrepareRequest_ret:
  assumes "hon w B c" and "\<not> RequestSentOrReceived c" and "IsPrimary c"
  shows "returns E (hon w B) (sendPrepareRequest cfg force c)"
proof -
  have s: "returns E (\<lambda>d. hon w B d \<and> \<not> RequestSentOrReceived d \<and> IsPrimary d) (subscribeForTransactions d)"
    if "hon w B d \<and> \<not> RequestSentOrReceived d \<and> IsPrimary d" for d
    using that by (simp add: subscribeForTransactions_def IsPrimary_def)
  show ?thesis
    unfolding sendPrepareRequest_def
    by (rule returns_thenDo[OF makePrepareRequest_ret[OF assms]])
      (auto intro!: proposeRequest_ret returns_thenDo[OF s] returns_thenDo[OF makePrepareRequest_ret] changeTimer_ret
        split: option.split)
qed

subsection \<open>Missing transactions and recovery\<close>

lemma processMissingTx_form:
  obtains ts hs l where "processMissingTx cfg c = Inr (c\<lparr>MissingTransactions := hs, Transactions := ts, log := l\<rparr>)"
    and "spokenIn l = spoken c"
proof -
  have one: "\<exists>hs' ts'. lookupProposed cfg h (c\<lparr>MissingTransactions := hs, Transactions := ts\<rparr>)
      = Inr (c\<lparr>MissingTransactions := hs', Transactions := ts'\<rparr>)" for h ts hs
  proof (cases "map_of ts h")
    case None
    show ?thesis
    proof (cases "GetTx cfg (log c) h")
      assume "GetTx cfg (log c) h = None"
      then show ?thesis using None by (intro exI[of _ "hs @ [h]"] exI[of _ ts]) (simp add: lookupProposed_def)
    next
      fix tx
      assume "GetTx cfg (log c) h = Some tx"
      then show ?thesis
        using None by (intro exI[of _ hs] exI[of _ "AList.update h tx ts"]) (simp add: lookupProposed_def)
    qed
  next
    case (Some tx)
    then show ?thesis by (intro exI[of _ hs] exI[of _ ts]) (simp add: lookupProposed_def)
  qed
  have "\<exists>hs' ts'. forEach (lookupProposed cfg) ks (c\<lparr>MissingTransactions := hs, Transactions := ts\<rparr>)
      = Inr (c\<lparr>MissingTransactions := hs', Transactions := ts'\<rparr>)" for ks ts hs
  proof (induction ks arbitrary: ts hs)
    case (Cons k ks)
    obtain hs1 ts1 where "lookupProposed cfg k (c\<lparr>MissingTransactions := hs, Transactions := ts\<rparr>)
        = Inr (c\<lparr>MissingTransactions := hs1, Transactions := ts1\<rparr>)"
      using one[of k ts hs] by blast
    then show ?case using Cons.IH[of ts1 hs1] by simp
  qed auto
  from this[of "elems (TransactionHashes c)" "Transactions c" "MissingTransactions c"]
  obtain hs ts where l: "forEach (lookupProposed cfg) (elems (TransactionHashes c)) c
      = Inr (c\<lparr>MissingTransactions := hs, Transactions := ts\<rparr>)"
    by auto
  show thesis
  proof (cases "hs = []")
    case True
    then show thesis by (intro that[where ts = ts and hs = hs and l = "log c"]) (simp_all add: processMissingTx_def l)
  next
    case False
    then show thesis
      by (intro that[where ts = ts and hs = hs and l = "ERequestTx hs # log c"]) (simp_all add: processMissingTx_def l emit_def)
  qed
qed

lemma processMissingTx_ret:
  "hon w B c \<Longrightarrow> returns E (hon w B) (processMissingTx cfg c)"
  "free w B c \<Longrightarrow> returns E (free w B) (processMissingTx cfg c)"
  by (rule processMissingTx_form[of c]; simp)+

lemma sendRecoveryRequest_ret:
  assumes "0 \<le> plMe w" and "free w B c"
  shows "returns E (free w B) (sendRecoveryRequest cfg c)"
proof -
  have b: "returns E (free w B) (broadcast (ownPayload d RecoveryRequestType
                (RecoveryRequestMsg (NewRecoveryRequest (nowNano cfg d)))) d)" if "free w B d" for d
    by (rule broadcast_hon(2)[OF free_hon[OF that] assms(1)]) (use that in \<open>simp_all add: good_def wellTyped_def\<close>)
  show ?thesis
    unfolding sendRecoveryRequest_def
    by (rule returns_Cons[where P = "free w B"], use assms(2) processMissingTx_ret(2) in simp,
        rule returns_Cons[where P = "free w B"], erule b, simp)
qed

lemma recovery_good:
  assumes c: "hon w B c" and r: "AddPayloads ph (recoveryPayloads cfg c) (NewRecoveryMessage None) = Inr r"
  shows "goodRecovery (plPrimary w) (said w c) (ViewNumber c) r"
proof -
  let ?A = "said w c" and ?v = "ViewNumber c" and ?ps = "recoveryPayloads cfg c"
  have t: "prepsOk ?A (PrimaryIndex c) ?v (PreparationPayloads c)" "commitsOk ?A ?v (CommitPayloads c)"
    "changeViewsOk (LastChangeViewPayloads c)"
    using honD(2)[OF c] by (simp_all add: tablesOk_def)
  have pk: "packs ph ?ps (NewRecoveryMessage None) r" by (rule AddPayloads_packs[OF r])
  have kind: "(\<exists>i. slot (PreparationPayloads c) i = Some x) \<and> (cmType x = PrepareRequestType \<or> cmType x = PrepareResponseType)
      \<or> cmType x = ChangeViewType
      \<or> CommitSent cfg c \<and> (\<exists>i. slot (CommitPayloads c) i = Some x) \<and> cmType x = CommitType" if "x \<in> set ?ps" for x
    using that noPreCommit[OF c] t(3) prepsOkD(5)[OF t(1)] commitsOkD(2)[OF t(2)]
    by (fastforce simp: recoveryPayloads_def present_slot changeViewsOk_def split: if_split_asm)
  have prep: "\<exists>i. slot (PreparationPayloads c) i = Some x"
    if "x \<in> set ?ps" "cmType x = PrepareRequestType \<or> cmType x = PrepareResponseType" for x
    using kind[OF that(1)] that(2) by auto
  have req: "proposed ?A (plPrimary w ?v) ?v p" if p: "rmPrepareRequest r = Some p" for p
  proof -
    let ?x = "last (ofType PrepareRequestType ?ps)"
    have ne: "ofType PrepareRequestType ?ps \<noteq> []" and g: "GetPrepareRequest (body ?x) = Some p"
      using pk p by (auto simp: packs_def NewRecoveryMessage_def split: if_split_asm)
    have "?x \<in> set (ofType PrepareRequestType ?ps)" using ne by (rule last_in_set)
    then have x: "?x \<in> set ?ps" "cmType ?x = PrepareRequestType" by simp_all
    then obtain i where i: "slot (PreparationPayloads c) i = Some ?x" using prep by blast
    have "body ?x = PrepareRequestMsg p" using g by (cases "body ?x") simp_all
    then show ?thesis
      using prepsOkD(7)[OF t(1) i] prepsOkD(6)[OF t(1) i] x(2) honD(8)[OF c] by simp
  qed
  have resp: "prepared ?A (unat (validatorIndex x)) ?v" if x: "x \<in> set ?ps" "cmType x = PrepareResponseType" for x
  proof -
    obtain i where i: "slot (PreparationPayloads c) i = Some x" using prep x by blast
    show ?thesis using prepsOkD(3,4)[OF t(1) i] by simp
  qed
  have com: "backed ?A (unat (validatorIndex x)) ?v" if x: "x \<in> set ?ps" "cmType x = CommitType" for x
  proof -
    obtain i where s: "CommitSent cfg c" and i: "slot (CommitPayloads c) i = Some x"
      using kind[OF x(1)] x(2) by auto
    note x = commitsOkD(3-5)[OF t(2) i]
    have z: "0 \<le> plMe w" using s watching[OF c] by (simp add: CommitSent_def)
    obtain m where m: "slot (CommitPayloads c) (nat (plMe w)) = Some m"
      using s honD(7)[OF c] by (auto simp: CommitSent_def)
    have "\<exists>k. committed ?A k ?v"
      using commitsOkD(5)[OF t(2) m] own_commit_view(4)[OF c z m] by (simp add: backed_def)
    then show ?thesis using x order_trans[OF _ x(2)] unfolding backed_def by blast
  qed
  have none: "ofType PreCommitType ?ps = []" using kind by (force simp: filter_empty_conv)
  show ?thesis
    using pk req resp com none by (auto simp: goodRecovery_def packs_def NewRecoveryMessage_def)
qed

lemma sendRecoveryMessage_ret:
  assumes "hon w B c" and "0 \<le> plMe w"
  shows "returns E (hon w B) (sendRecoveryMessage cfg c)" "free w B c \<Longrightarrow> returns E (free w B) (sendRecoveryMessage cfg c)"
proof -
  have wt: "wellTyped p" if p: "slot (PreparationPayloads c) i = Some p \<or> slot (CommitPayloads c) i = Some p
      \<or> slot (LastChangeViewPayloads c) i = Some p" for i p
  proof -
    have t: "prepsOk (said w c) (PrimaryIndex c) (ViewNumber c) (PreparationPayloads c)"
      "commitsOk (said w c) (ViewNumber c) (CommitPayloads c)" "changeViewsOk (LastChangeViewPayloads c)"
      using honD(2)[OF assms(1)] by (simp_all add: tablesOk_def)
    show ?thesis using p t unfolding prepsOk_def commitsOk_def changeViewsOk_def by blast
  qed
  have "\<forall>p \<in> set (recoveryPayloads cfg c). wellTyped p"
    using noPreCommit[OF assms(1)]
    by (auto simp: recoveryPayloads_def present_slot dest: wt[OF disjI1] wt[OF disjI2[OF disjI1]] wt[OF disjI2[OF disjI2]])
  then obtain r where r: "AddPayloads (payloadHash cfg) (recoveryPayloads cfg c) (NewRecoveryMessage None) = Inr r"
    using AddPayloads_Ok by blast
  let ?m = "ownPayload c RecoveryMessageType (RecoveryMessageMsg r)"
  have g: "good (plPrimary w) (said w c) (SetValidatorIndex (word_of_int (plMe w)) ?m)"
    using recovery_good[OF assms(1) r] by (simp add: good_def wellTyped_def)
  have s: "sendRecoveryMessage cfg c = broadcast ?m c"
    by (simp add: sendRecoveryMessage_def makeRecoveryMessage_def r)
  show "returns E (hon w B) (sendRecoveryMessage cfg c)"
    unfolding s by (rule broadcast_hon(1)[OF assms]) (use g in simp_all)
  show "free w B c \<Longrightarrow> returns E (free w B) (sendRecoveryMessage cfg c)"
    unfolding s by (rule broadcast_hon(2)[OF assms]) (use g in simp_all)
qed

subsection \<open>Changing the view\<close>

lemma agreeChangeView_ret:
  assumes "free w B c"
  shows "returns E (free w B) (agreeChangeView cfg view c)"
proof (cases "WatchOnly cfg c")
  case False
  then have i: "0 \<le> plMe w" using watching[OF free_hon[OF assms]] by simp
  have "returns E (free w B) (broadcast m d)" if "makeChangeView cfg ts r c = (m, d)" for ts r m d
    using makeChangeView_ret[OF free_hon[OF assms] i that] assms
    by (intro broadcast_hon(2)[OF _ i]) simp_all
  then show ?thesis using False assms by (auto simp: agreeChangeView_def split: option.split prod.split)
qed (use assms in \<open>simp add: agreeChangeView_def\<close>)

lemma requestChangeView_ret:
  assumes "free w B c" and "0 \<le> plMe w"
  shows "returns E (free w B) (requestChangeView cfg r c)"
proof -
  obtain m d where m: "makeChangeView cfg (nowNano cfg c) r c = (m, d)" by fastforce
  note f = makeChangeView_ret[OF free_hon[OF assms(1)] assms(2) m]
  have "returns E (free w B) (broadcast m d')" if "d' = d\<lparr>log := EStopTxFlow # log d\<rparr>" for d'
    using f assms(1) that by (intro broadcast_hon(2)[OF _ assms(2)]) simp_all
  then show ?thesis by (simp add: requestChangeView_def m emit_def returns_thenDo)
qed

text \<open>A view is entered by a node that has not committed itself, with empty tables.\<close>

lemma reset_view_kept:
  assumes "reset cfg view ts c = Inr d" and "view \<noteq> 0"
  shows "PrevHash d = PrevHash c" and "changeViewsOk (ChangeViewPayloads c) \<Longrightarrow> changeViewsOk (LastChangeViewPayloads d)"
proof -
  let ?r = "resetChangeViews view (resetBegin ts c)"
  have k: "PrevHash d = PrevHash c \<and> LastChangeViewPayloads d = LastChangeViewPayloads ?r"
    by (rule reset_OkE[OF assms(1)]) (simp add: assms(2) resetState_def enterView_def resetRound_def
        resetChangeViews_def resetBegin_def Let_def split: prod.split)
  then show "PrevHash d = PrevHash c" by blast
  show "changeViewsOk (LastChangeViewPayloads d)" if "changeViewsOk (ChangeViewPayloads c)"
    using that k unfolding changeViewsOk_def
    by (auto simp: resetChangeViews_def resetBegin_def slot_map_upt split: if_split_asm option.split_asm)
qed

lemma reset_returns:
  assumes "hon w B c" and "view \<noteq> 0"
  shows "\<exists>d. reset cfg view ts c = Inr d"
proof -
  let ?s = "resetRound cfg view (resetChangeViews view (resetBegin ts c))"
  have "Validators ?s = plValidators w" "plValidators w \<noteq> []" "length (LastSeenMessage ?s) = length (plValidators w)"
    using honD(1,9,11,12)[OF assms(1)] by (auto simp: reset_parts placed_def)
  moreover have "MyIndex ?s = plMe w" using me honD(9)[OF assms(1)] by (simp add: reset_parts)
  ultimately show ?thesis
    using honD(14)[OF assms(1)] assms(2) by (auto simp: reset_def Let_def noteOwn_def enterView_def)
qed

lemma reset_ret:
  assumes "free w B c" and "ViewNumber c < view"
  shows "returns E (hon w B) (reset cfg view ts c)"
proof -
  note h = honD[OF free_hon[OF assms(1)]]
  have "view \<noteq> 0" using assms(2) by auto
  obtain d where r: "reset cfg view ts c = Inr d" using reset_returns[OF free_hon[OF assms(1)] \<open>view \<noteq> 0\<close>] by blast
  note o = reset_Ok[OF r] and v = reset_view_Ok[OF r \<open>view \<noteq> 0\<close>] and k = reset_view_kept[OF r \<open>view \<noteq> 0\<close>]
  have s: "spoken d = spoken c" "said w d = said w c" unfolding said_def spoken_def o(13) by (rule refl)+
  have n: "length (Validators d) = ctxN c" "ctxN c = length (plValidators w)" using v(2) h(9) by (simp_all add: ctxN_def)
  have "GetPrimaryIndex d u = plPrimary w u" for u
    using h(10) GetPrimaryIndex_cong[OF v(1,2)] by metis
  moreover have "PrimaryIndex d < length (plValidators w)"
    using GetPrimaryIndex_less[OF o(1), of view] o(5) n by (simp add: ctxN_def)
  ultimately have p: "placed w d"
    using h(9) v n o me h(1) k(1) by (simp add: placed_def ctxN_def)
  have no: "\<not> RequestSentOrReceived d" using o(6) by (simp add: RequestSentOrReceived_def)
  have t: "commitsOk (said w c) (ViewNumber c) (CommitPayloads c)" "changeViewsOk (ChangeViewPayloads c)"
    "cachedOk (plPrimary w) (said w c) (dcache c)"
    using h(2) by (simp_all add: tablesOk_def)
  have "commitsOk (said w d) (ViewNumber d) (CommitPayloads d)"
    using t(1) assms(2) unfolding commitsOk_def s(2) v(3) o(2) by fastforce
  moreover have "changeViewsOk (LastChangeViewPayloads d)" by (rule k(2)[OF t(2)])
  moreover have "prepsOk (said w d) (PrimaryIndex d) (ViewNumber d) (PreparationPayloads d)"
    "changeViewsOk (ChangeViewPayloads d)"
    unfolding o(6,7) by (simp_all add: prepsOk_def changeViewsOk_def)
  moreover have "cachedOk (plPrimary w) (said w d) (dcache d)" unfolding s(2) o(12) by (rule t(3))
  moreover have "slot (PreCommitPayloads d) i = None" for i unfolding v(4) by (rule h(15))
  ultimately have "tablesOk w (said w d) d"
    using p no o(8,10) by (simp only: tablesOk_def) simp
  moreover have "ownOk w d" using h(3) assms(2) o(2) s by (force simp: ownOk_def)
  moreover have "lockOk w d" using assms(1) s by (simp add: lockOk_def free_def)
  moreover have "requestsOk d"
  proof -
    have "viewNumber m \<noteq> ViewNumber d" if "m \<in> spoken c" for m
      using h(3) that assms(2) o(2) by (auto simp: ownOk_def)
    then show ?thesis using requestsOkD(2)[OF h(5)] unfolding requestsOk_def s(1) by blast
  qed
  ultimately have "hon w B d" using h(6) s(2) by (simp add: hon_def honest_def)
  then show ?thesis using r by simp
qed

end

end
