(* ===== verification/Peer_Receive.thy ===== *)
theory Peer_Receive
  imports Peer
begin

section \<open>The handlers of an honest node\<close>

text \<open>
  The handlers of \<open>dbft.go\<close> keep the invariant of \<open>Honest\<close>: \<open>receive\<close> with a nested call that does,
  so \<open>OnReceive\<close> at any depth, then a timeout and the start of a node.
\<close>

lemma hon_mono: "hon w A c \<Longrightarrow> B \<subseteq> A \<Longrightarrow> hon w B c"
  by (auto simp: hon_def)

lemma hon_said: "hon w B c \<Longrightarrow> hon w (said w c) c"
  by (simp add: hon_def)

lemma cachedOkI:
  "(\<And>h b k i m. (h, b) \<in> set (mail ca) \<Longrightarrow> (i, m) \<in> set (box k b) \<Longrightarrow> good pr A m) \<Longrightarrow> cachedOk pr A ca"
  unfolding cachedOk_def by blast

lemma cachedOkD:
  "cachedOk pr A ca \<Longrightarrow> (h, b) \<in> set (mail ca) \<Longrightarrow> (i, m) \<in> set (box k b) \<Longrightarrow> good pr A m"
  unfolding cachedOk_def by blast

lemma cachedOk_getHeight:
  assumes "cachedOk pr A ca" and "getHeight h ca = (b, ca')"
  shows "cachedOk pr A ca'" and "b = Some i \<Longrightarrow> m \<in> set (map snd (box k i)) \<Longrightarrow> good pr A m"
proof -
  have "set (mail ca') \<subseteq> set (mail ca)"
    using assms(2) set_AList_delete[of h "mail ca"] by (auto simp: getHeight_def split: option.split_asm)
  then show "cachedOk pr A ca'" using cachedOkD[OF assms(1)] by (intro cachedOkI) blast
  show "good pr A m" if "b = Some i" "m \<in> set (map snd (box k i))"
    using cachedOkD[OF assms(1)] assms(2) that
    by (auto simp: getHeight_def split: option.split_asm dest!: map_of_SomeD)
qed

lemma cachedOk_addMessage:
  assumes "cachedOk pr A ca" and "good pr A m"
  shows "cachedOk pr A (addMessage m ca)"
proof (rule cachedOkI)
  fix h b k i m'
  let ?b = "case map_of (mail ca) (height m) of None \<Rightarrow> newInbox | Some b \<Rightarrow> b"
  assume hb: "(h, b) \<in> set (mail (addMessage m ca))" and m': "(i, m') \<in> set (box k b)"
  have old: "good pr A m'" if "(i, m') \<in> set (box k ?b)"
    using cachedOkD[OF assms(1)] that by (auto split: option.split_asm dest!: map_of_SomeD)
  have "(h, b) \<in> set (mail ca) \<or> b = inbox_put m ?b"
    using hb set_AList_update[of "height m" "inbox_put m ?b" "mail ca"] by (auto simp: addMessage_def Let_def)
  then show "good pr A m'"
    using cachedOkD[OF assms(1) _ m'] m' old assms(2) set_AList_update[of "validatorIndex m" m "box k ?b"]
    by (auto simp: box_inbox_put split: if_split_asm)
qed

text \<open>While a proposal is taken over: its data are in, the message is not.\<close>

definition adopting ::
    "('pub, 'b) place \<Rightarrow> payload set \<Rightarrow> prepareRequest \<Rightarrow> u8 \<Rightarrow> ('tx, 'b, 'pb, 'pub, 'priv) dbft \<Rightarrow> bool" where
  "adopting w B p v c \<longleftrightarrow> hon w B c \<and> \<not> RequestSentOrReceived c \<and> agrees p c \<and> ViewNumber c = v"

locale answering = peer cfg w E for cfg :: "('tx, 'b, 'pb, 'pub, 'priv) config" and w E +
  fixes rcv :: "payload \<Rightarrow> ('tx, 'b, 'pb, 'pub, 'priv) dbft act"
  assumes rcv: "good (plPrimary w) B m \<Longrightarrow> hon w B c \<Longrightarrow> returns E (hon w B) (rcv m c)"
begin

subsection \<open>Changing the view\<close>

lemma forEach_rcv:
  assumes "hon w B c" and "\<And>m. m \<in> set ms \<Longrightarrow> good (plPrimary w) B m"
  shows "returns E (hon w B) (forEach rcv ms c)"
  by (rule returns_forEach) (use assms rcv in auto)

lemma mapOrder_mem: "m \<in> set (mapOrder cfg c kvs) \<Longrightarrow> m \<in> set (map snd kvs)"
  using mset_eq_setD[of "MapIter cfg (log c) (map snd kvs)" "map snd kvs"]
  by (auto simp: mapOrder_def Let_def split: if_split_asm)

lemma replayCached_ret:
  assumes "hon w B c"
  shows "returns E (hon w B) (replayCached cfg rcv c)"
proof -
  let ?A = "said w c"
  obtain b ca where g: "getHeight (BlockIndex c) (dcache c) = (b, ca)" by fastforce
  have ok: "cachedOk (plPrimary w) ?A (dcache c)" using honD(2)[OF assms] by (simp add: tablesOk_def)
  have "tablesOk w ?A (c\<lparr>dcache := ca\<rparr>)"
    using honD(2)[OF assms] cachedOk_getHeight(1)[OF ok g] by (simp add: tablesOk_def)
  then have h: "hon w ?A (c\<lparr>dcache := ca\<rparr>)" using honD(3-5)[OF assms] by (simp add: hon_def honest_def)
  have sub: "B \<subseteq> ?A" by (rule honD(6)[OF assms])
  show ?thesis
  proof (cases b)
    case None
    then show ?thesis using g hon_mono[OF h sub] by (simp add: replayCached_def)
  next
    case (Some i)
    have box: "returns E (hon w ?A) (replayBox cfg rcv (box k i) d)" if "hon w ?A d" for k d
      unfolding replayBox_def
      by (rule forEach_rcv[OF that], drule mapOrder_mem, rule cachedOk_getHeight(2)[OF ok g Some])
    have "returns E (hon w ?A) (steps [replayBox cfg rcv (inPrepare i), replayBox cfg rcv (inChViews i),
        replayBox cfg rcv (inPreCommit i), replayBox cfg rcv (inCommit i)] (c\<lparr>dcache := ca\<rparr>))"
      by (rule returns_Cons[where P = "hon w ?A"], rule box[of _ PrepareClass, simplified], rule h,
          rule returns_Cons[where P = "hon w ?A"], erule box[of _ ChViewClass, simplified],
          rule returns_Cons[where P = "hon w ?A"], erule box[of _ PreCommitClass, simplified],
          rule returns_Cons[where P = "hon w ?A"], erule box[of _ CommitClass, simplified], simp)
    then show ?thesis
      unfolding replayCached_def g Some by (simp only: prod.case option.case) (erule returns_mono, erule hon_mono[OF _ sub])
  qed
qed

lemma initializeConsensus_ret:
  assumes "free w B c" and "ViewNumber c < view"
  shows "returns E (hon w B) (initializeConsensus cfg rcv view ts c)"
  unfolding initializeConsensus_def
  by (rule returns_Cons, rule reset_ret[OF assms], rule returns_Cons[where P = "hon w B"], erule emit_ret(1)[rotated], simp,
      rule returns_Cons[where P = "hon w B"], erule replayCached_ret, rule returns_Cons[where P = "hon w B"])
    (simp_all add: changeTimer_ret)

lemma checkChangeView_ret:
  assumes "free w B c"
  shows "returns E (hon w B) (checkChangeView cfg rcv view c)"
proof -
  have "ViewNumber d = ViewNumber c" if "agreeChangeView cfg view c = Inr d" for d
    using that by (auto simp: agreeChangeView_def makeChangeView_def broadcast_def emit_def Let_def
        split: if_split_asm option.split_asm)
  moreover have "returns E (free w B) (agreeChangeView cfg view c)" by (rule agreeChangeView_ret[OF assms])
  ultimately show ?thesis
    using free_hon[OF assms] initializeConsensus_ret[of B _ view]
    by (cases "agreeChangeView cfg view c") (auto simp: checkChangeView_def intro!: returns_thenDo[where P = "hon w B"])
qed

lemma sendChangeView_ret:
  assumes "free w B c"
  shows "returns E (hon w B) (sendChangeView cfg rcv r c)"
proof (cases "WatchOnly cfg c")
  case False
  then have i: "0 \<le> plMe w" using watching[OF free_hon[OF assms]] by simp
  have "returns E (hon w B) (sendRecoveryRequest cfg d)" if "free w B d" for d
    by (rule returns_mono[OF sendRecoveryRequest_ret[OF i that] free_hon])
  moreover have "returns E (hon w B) (steps [requestChangeView cfg r' , checkChangeView cfg rcv v] d)"
    if "free w B d" for d r' v
    by (rule returns_Cons, rule requestChangeView_ret[OF that i], rule returns_Cons[where P = "hon w B"],
        erule checkChangeView_ret, simp)
  ultimately show ?thesis
    using False unfolding sendChangeView_def Let_def
    by (simp only: if_False) (rule returns_thenDo[OF changeTimer_ret(2)[OF assms]], rule returns_if; blast)
qed (use free_hon[OF assms] in \<open>simp add: sendChangeView_def\<close>)

subsection \<open>The proposed block\<close>

lemma createAndCheckBlock_ret:
  assumes "free w B c" and "RequestSentOrReceived c" and "\<not> IsPrimary c"
  shows "returns E (\<lambda>(ok, d). hon w B d \<and> (ok \<longrightarrow> RequestSentOrReceived d \<and> \<not> IsPrimary d))
    (createAndCheckBlock cfg rcv c)"
proof -
  obtain b d where m: "CreateBlock cfg c = (b, d)" by fastforce
  note f = CreateBlock_ret[OF free_hon[OF assms(1)] m]
  have "spoken d = spoken c \<and> RequestSentOrReceived d \<and> \<not> IsPrimary d"
    by (subst (1 2 3) f(1)) (use assms in \<open>simp add: IsPrimary_def\<close>)
  moreover from this have "free w B d" using f(2) assms(1) by (simp add: free_def)
  ultimately show ?thesis
    using m f(2) sendChangeView_ret[of B d CVTxInvalid]
    by (auto simp: createAndCheckBlock_def Let_def intro!: returns_thenDo[where P = "hon w B"])
qed

subsection \<open>Preparations\<close>

lemma preps_drop:
  assumes "hon w B c" and "i \<noteq> PrimaryIndex c \<or> \<not> RequestSentOrReceived c"
  shows "hon w B (c\<lparr>PreparationPayloads := (PreparationPayloads c)[i := None]\<rparr>)"
    and "RequestSentOrReceived (c\<lparr>PreparationPayloads := (PreparationPayloads c)[i := None]\<rparr>) = RequestSentOrReceived c"
proof -
  let ?c = "c\<lparr>PreparationPayloads := (PreparationPayloads c)[i := None]\<rparr>"
  show r: "RequestSentOrReceived ?c = RequestSentOrReceived c"
    using assms(2) by (auto simp: RequestSentOrReceived_def slot_update)
  have "prepsOk (said w c) (PrimaryIndex c) (ViewNumber c) ((PreparationPayloads c)[i := None])"
    using honD(2)[OF assms(1)] by (simp add: tablesOk_def prepsOk_def slot_update)
  then have "tablesOk w (said w ?c) ?c" using honD(2)[OF assms(1)] r by (simp add: tablesOk_def)
  moreover have "lockOk w ?c" by (rule own_mono(1)[OF _ _ _ _ _ honD(4)[OF assms(1)]]) (simp_all add: r)
  moreover have "requestsOk ?c" by (rule own_mono(2)[OF _ _ _ _ honD(5)[OF assms(1)]]) (simp_all add: r)
  ultimately show "hon w B ?c" using honD(3,6)[OF assms(1)] by (simp add: hon_def honest_def)
qed

lemma dropOtherResponse_ret:
  assumes "adopting w B p v c"
  shows "returns E (adopting w B p v) (dropOtherResponse cfg msg i c)"
proof (cases "slot (PreparationPayloads c) i")
  case (Some m)
  have h: "hon w B c" "\<not> RequestSentOrReceived c" using assms by (simp_all add: adopting_def)
  have t: "prepsOk (said w c) (PrimaryIndex c) (ViewNumber c) (PreparationPayloads c)"
    using honD(2)[OF h(1)] by (simp add: tablesOk_def)
  have "adopting w B p v (c\<lparr>PreparationPayloads := (PreparationPayloads c)[i := None]\<rparr>)"
    using assms preps_drop[OF h(1), of i] by (simp add: adopting_def)
  then show ?thesis
    using assms Some wellTyped_getters(3)[OF prepsOkD(1)[OF t Some]] by (auto simp: dropOtherResponse_def)
qed (use assms in \<open>simp add: dropOtherResponse_def\<close>)

lemma updateExistingPayloads_ret:
  assumes "adopting w B p v c"
  shows "returns E (adopting w B p v) (updateExistingPayloads cfg msg c)"
proof -
  have "returns E (adopting w B p v) (verifyCommitAt cfg i d)" if "adopting w B p v d" for i d
  proof -
    have "header d = None" using that honD(2)[of B d] by (auto simp: adopting_def tablesOk_def)
    then have "MakeHeader cfg d = (None, d)" using that by (simp add: MakeHeader_def adopting_def)
    then show ?thesis using that by (simp add: verifyCommitAt_def split: option.split)
  qed
  then have "returns E (adopting w B p v) (verifyCommitPayloadsAgainstHeader cfg d)" if "adopting w B p v d" for d
    unfolding verifyCommitPayloadsAgainstHeader_def using that by (intro returns_forEach)
  moreover have "returns E (adopting w B p v) (forEach (dropOtherResponse cfg msg) is c)" for "is"
    using assms dropOtherResponse_ret by (intro returns_forEach)
  ultimately show ?thesis unfolding updateExistingPayloads_def
    by (intro returns_thenDo[where P = "adopting w B p v"]) simp_all
qed

lemma acceptProposal_ret:
  assumes "hon w B c" and "\<not> RequestSentOrReceived c"
  shows "returns E (adopting w B p (ViewNumber c)) (acceptProposal p c)"
proof -
  let ?c = "c\<lparr>Timestamp := prepareRequest_Timestamp p, Nonce := reqNonce p, TransactionHashes := transactionHashes p\<rparr>"
  note u = unrequested_upd
  have "hon w B (c\<lparr>Timestamp := prepareRequest_Timestamp p\<rparr>)" by (rule u(3)[OF assms])
  then have "hon w B (c\<lparr>Timestamp := prepareRequest_Timestamp p, Nonce := reqNonce p\<rparr>)"
    by (rule u(2)) (simp add: assms(2))
  then have "hon w B ?c" by (rule u(1)) (simp add: assms(2))
  then show ?thesis
    using assms(2) by (simp add: acceptProposal_def adopting_def agrees_def prepareRequest_Timestamp_def
        nanoSecToSec_secToNanoSec)
qed

text \<open>A request of another node is taken over and stored, and then answered.\<close>

lemma adopted_free:
  assumes d: "adopting w B p v d" and pr: "proposed B i v p" and i: "i = plPrimary w v" "plMe w \<noteq> int i"
    and m: "wellTyped m" "unat (validatorIndex m) = i" "viewNumber m = v" "cmType m = PrepareRequestType" "body m = PrepareRequestMsg p"
    and d': "d' = d\<lparr>PreparationPayloads := (PreparationPayloads d)[i := Some m]\<rparr>"
  shows "free w B d' \<and> RequestSentOrReceived d' \<and> \<not> IsPrimary d'"
proof -
  have hd: "hon w B d" "\<not> RequestSentOrReceived d" "agrees p d" "ViewNumber d = v" using d by (simp_all add: adopting_def)
  note f = honD[OF hd(1)]
  have pi: "PrimaryIndex d = i" using f(8) hd(4) i(1) by simp
  have pr': "proposed (said w d) i (ViewNumber d) p" using proposed_mono[OF pr f(6)] hd(4) by simp
  have "tablesOk w (said w d) d'"
    unfolding d' by (rule preps_put[OF f(2) m(1)]) (use hd(3,4) pi pr' proposed_prepared[OF pr'] m in \<open>auto\<close>)
  then have "hon w B d'"
    using f(3,6) own_put(1)[OF f(4)] own_put(2)[OF f(5)] unfolding d' by (simp add: hon_def honest_def)
  moreover have "RequestSentOrReceived d'" using f(11) by (simp add: d' RequestSentOrReceived_def pi)
  ultimately show ?thesis using free_unrequested[OF hd(1,2)] i(2) f(7) pi by (simp add: free_def d' IsPrimary_def)
qed

lemma foreign_request:
  assumes "hon w B c" and "proposed B i (ViewNumber c) p" and "\<not> RequestSentOrReceived c"
  shows "plMe w \<noteq> int i"
proof
  assume eq: "plMe w = int i"
  note h = honD[OF assms(1)]
  obtain m where m: "m \<in> said w c" "unat (validatorIndex m) = i" "viewNumber m = ViewNumber c" "cmType m = PrepareRequestType"
    using assms(2) h(6) unfolding proposed_def by blast
  have "m \<in> spoken c" by (rule own_said[OF _ m(1)]) (use eq m(2) h(4) in simp_all)
  then show False using requestsOkD(1)[OF h(5) _ m(4)] m(3) assms(3) by simp
qed

lemma answer_ret:
  assumes "hon w B d" and "RequestSentOrReceived d" and "\<not> IsPrimary d" and "\<not> WatchOnly cfg d"
  shows "returns E (hon w B) (steps [sendPrepareResponse cfg, checkPrepare cfg] d)"
proof -
  have "0 \<le> plMe w" using watching assms(1,4) by simp
  then show ?thesis
    by (intro returns_Cons[where P = "hon w B" and f = "sendPrepareResponse cfg"] sendPrepareResponse_ret assms
        returns_Cons[where P = "hon w B" and f = "checkPrepare cfg"] checkPrepare_ret) simp_all
qed

lemma checked_answer_ret:
  assumes "free w B d" and "RequestSentOrReceived d" and "\<not> IsPrimary d"
  shows "returns E (hon w B) (if \<not> hasAllTransactions d then Ok d
    else thenDo (createAndCheckBlock cfg rcv d) (\<lambda>(ok, c3).
      if \<not> ok \<or> WatchOnly cfg c3 then Ok c3 else steps [sendPrepareResponse cfg, checkPrepare cfg] c3))"
proof (rule returns_if)
  show "returns E (hon w B) (thenDo (createAndCheckBlock cfg rcv d) (\<lambda>(ok, c3).
      if \<not> ok \<or> WatchOnly cfg c3 then Ok c3 else steps [sendPrepareResponse cfg, checkPrepare cfg] c3))"
    by (rule returns_thenDo[OF createAndCheckBlock_ret[OF assms]])
      (use answer_ret in \<open>auto split: prod.split simp del: steps.simps\<close>)
qed (simp add: free_hon assms(1))

lemma onPrepareRequest_ret:
  assumes "hon w B c" and "good (plPrimary w) B m" and "cmType m = PrepareRequestType"
  shows "returns E (hon w B) (onPrepareRequest cfg rcv m c)"
proof -
  note h = honD[OF assms(1)]
  obtain p where p: "body m = PrepareRequestMsg p"
    using assms(2,3) wellTyped_getters(2)[of m] by (auto simp: good_def)
  let ?i = "unat (validatorIndex m)" and ?Q = "\<lambda>d. free w B d \<and> RequestSentOrReceived d \<and> \<not> IsPrimary d"
  have pr0: "proposed B ?i (viewNumber m) p" and wt: "wellTyped m"
    using assms(2) p by (simp_all add: good_def)
  have main: "returns E (hon w B) (thenDo (extendTimer cfg 2 c) (\<lambda>c1.
        case GetPrepareRequest (body m) of
          None \<Rightarrow> Stop TypeAssertion
        | Some p \<Rightarrow>
            thenDo (steps
              [acceptProposal p, processMissingTx cfg, updateExistingPayloads cfg m,
               (\<lambda>c. Ok (c\<lparr>PreparationPayloads := (PreparationPayloads c)[?i := Some m]\<rparr>))] c1)
              (\<lambda>c2. if \<not> hasAllTransactions c2 then Ok c2
                else thenDo (createAndCheckBlock cfg rcv c2) (\<lambda>(ok, c3).
                  if \<not> ok \<or> WatchOnly cfg c3 then Ok c3
                  else steps [sendPrepareResponse cfg, checkPrepare cfg] c3))))"
    if r: "\<not> RequestSentOrReceived c" and v: "ViewNumber c = viewNumber m" and i: "?i = GetPrimaryIndex c (ViewNumber c)"
  proof -
    have me: "plMe w \<noteq> int ?i" by (rule foreign_request[OF assms(1) _ r]) (use pr0 v in simp)
    have iv: "?i = plPrimary w (ViewNumber c)" using i h(10) by simp
    have acc: "returns E ?Q (steps [acceptProposal p, processMissingTx cfg, updateExistingPayloads cfg m,
         (\<lambda>c. Ok (c\<lparr>PreparationPayloads := (PreparationPayloads c)[?i := Some m]\<rparr>))] d)"
      if d: "hon w B d \<and> \<not> RequestSentOrReceived d \<and> ViewNumber d = ViewNumber c" for d
    proof -
      have miss: "returns E (adopting w B p v) (processMissingTx cfg d)" if "adopting w B p v d" for v d
        by (rule processMissingTx_form[of d]) (use that in \<open>simp add: adopting_def\<close>)
      have "returns E ?Q (Ok (d\<lparr>PreparationPayloads := (PreparationPayloads d)[?i := Some m]\<rparr>))"
        if "adopting w B p (ViewNumber c) d" for d
        unfolding returns_simps
        by (rule adopted_free[OF that _ iv me wt refl _ assms(3) p refl]) (use pr0 v in simp_all)
      moreover have "returns E (adopting w B p (ViewNumber c)) (acceptProposal p d)"
        using acceptProposal_ret[of B d p] d by simp
      ultimately show ?thesis
        by (intro returns_Cons[where P = "adopting w B p (ViewNumber c)"] returns_Nil returns_Cons[where P = ?Q])
          (auto intro: miss updateExistingPayloads_ret)
    qed
    have t: "returns E (\<lambda>d. hon w B d \<and> \<not> RequestSentOrReceived d \<and> ViewNumber d = ViewNumber c) (extendTimer cfg 2 c)"
      using assms(1) r by (simp add: extendTimer_def emit_def)
    show ?thesis
      unfolding p GetPrepareRequest.simps option.case
      by (rule returns_thenDo[OF t], rule returns_thenDo, erule acc, rule checked_answer_ret) auto
  qed
  have "returns E (hon w B) (sendChangeView cfg rcv CVBlockRejectedByPolicy c)" if "\<not> RequestSentOrReceived c"
    by (rule sendChangeView_ret[OF free_unrequested[OF assms(1) that]])
  then show ?thesis
    using assms(1) main unfolding onPrepareRequest_def by (intro returns_if) simp_all
qed

lemma acceptPrepareResponse_ret:
  assumes "hon w B c"
  shows "returns E (hon w B) (acceptPrepareResponse cfg c)"
proof -
  have "returns E (hon w B) (if \<not> WatchOnly cfg d \<and> \<not> CommitSent cfg d
        \<and> (\<not> isAntiMEVExtensionEnabled cfg d \<or> \<not> PreCommitSent cfg d) \<and> RequestSentOrReceived d
      then checkPrepare cfg d else Ok d)" if "hon w B d" for d
    using that checkPrepare_ret[OF that] watching[OF that] by simp
  then show ?thesis
    unfolding acceptPrepareResponse_def using assms
    by (intro returns_Cons[where P = "hon w B"] returns_Nil extendTimer_ret) simp_all
qed

lemma onPrepareResponse_ret:
  assumes "hon w B c" and "good (plPrimary w) B m" and "cmType m = PrepareResponseType"
  shows "returns E (hon w B) (onPrepareResponse cfg m c)"
proof -
  let ?i = "unat (validatorIndex m)"
  let ?c = "c\<lparr>PreparationPayloads := (PreparationPayloads c)[?i := Some m]\<rparr>"
  note h = honD[OF assms(1)]
  obtain r where r: "body m = PrepareResponseMsg r"
    using assms(2,3) wellTyped_getters(3)[of m] by (auto simp: good_def)
  have wt: "wellTyped m" and pr: "prepared (said w c) ?i (viewNumber m)"
    using assms(2) r prepared_mono[OF _ h(6)] by (simp_all add: good_def)
  have put: "hon w B ?c" if v: "ViewNumber c = viewNumber m" and i: "?i \<noteq> GetPrimaryIndex c (ViewNumber c)"
  proof -
    have "?i \<noteq> PrimaryIndex c" using i h(8,10) by simp
    then have "tablesOk w (said w c) ?c"
      by (intro preps_put[OF h(2) wt]) (use v pr assms(3) r in simp_all)
    then show ?thesis using h(3,6) own_put(1)[OF h(4)] own_put(2)[OF h(5)] by (simp add: hon_def honest_def)
  qed
  have req: "\<exists>q. GetPrepareRequest (body m') = Some q"
    if "hon w B d" "slot (PreparationPayloads d) (GetPrimaryIndex d (ViewNumber d)) = Some m'" for d m'
  proof -
    have t: "prepsOk (said w d) (PrimaryIndex d) (ViewNumber d) (PreparationPayloads d)"
      using honD(2)[OF that(1)] by (simp add: tablesOk_def)
    have s: "slot (PreparationPayloads d) (PrimaryIndex d) = Some m'"
      using that(2) honD(8,10)[OF that(1)] by simp
    show ?thesis using prepsOkD(1,6)[OF t s] wellTyped_getters(2)[of m'] by auto
  qed
  have drop: "hon w B (?c\<lparr>PreparationPayloads := (PreparationPayloads ?c)[?i := None]\<rparr>)"
    if "hon w B ?c" and i: "?i \<noteq> GetPrimaryIndex c (ViewNumber c)"
    by (rule preps_drop(1)[OF that(1)]) (use i h(8,10) in simp)
  show ?thesis
    unfolding onPrepareResponse_def Let_def
  proof (intro returns_if)
    assume a: "\<not> ViewNumber c \<noteq> viewNumber m" "?i \<noteq> GetPrimaryIndex c (ViewNumber c)"
    have p: "hon w B ?c" by (rule put) (use a in simp_all)
    show "returns E (hon w B) (case slot (PreparationPayloads ?c) (GetPrimaryIndex ?c (ViewNumber ?c)) of
                None \<Rightarrow> acceptPrepareResponse cfg ?c
              | Some m' \<Rightarrow>
                  (case GetPrepareRequest (body m') of
                     None \<Rightarrow> Stop TypeAssertion
                   | Some _ \<Rightarrow>
                       (case GetPrepareResponse (body m) of
                          None \<Rightarrow> Stop TypeAssertion
                        | Some r \<Rightarrow>
                            if preparationHash r \<noteq> payloadHash cfg m'
                            then Ok (?c\<lparr>PreparationPayloads := (PreparationPayloads ?c)[?i := None]\<rparr>)
                            else acceptPrepareResponse cfg ?c)))"
    proof (cases "slot (PreparationPayloads ?c) (GetPrimaryIndex ?c (ViewNumber ?c))")
      case None
      then show ?thesis using acceptPrepareResponse_ret[OF p] by simp
    next
      case (Some m')
      then obtain q where "GetPrepareRequest (body m') = Some q" using req[OF p] by blast
      then show ?thesis
        unfolding Some using acceptPrepareResponse_ret[OF p] drop[OF p a(2)] by (simp only: option.case r GetPrepareResponse.simps) simp
    qed
  qed (use assms(1) in simp_all)
qed

subsection \<open>Requests for recovery, ChangeViews and Commits\<close>

lemma onRecoveryRequest_ret:
  assumes "hon w B c"
  shows "returns E (hon w B) (onRecoveryRequest cfg m c)"
  using assms sendRecoveryMessage_ret(1)[OF assms] watching[OF assms]
  unfolding onRecoveryRequest_def by (intro returns_if) simp_all

lemma onChangeView_ret:
  assumes "hon w B c" and "good (plPrimary w) B m" and "cmType m = ChangeViewType"
  shows "returns E (hon w B) (onChangeView cfg rcv m c)"
proof -
  let ?c = "c\<lparr>ChangeViewPayloads := (ChangeViewPayloads c)[unat (validatorIndex m) := Some m]\<rparr>"
  have wt: "wellTyped m" using assms(2) by (simp add: good_def)
  obtain p where p: "body m = ChangeViewMsg p" using wellTyped_getters(1)[OF wt assms(3)] by blast
  have i: "CommitSent cfg c \<or> PreCommitSent cfg c \<Longrightarrow> 0 \<le> plMe w"
    using watching[OF assms(1)] by (auto simp: CommitSent_def PreCommitSent_def)
  have "returns E (hon w B) (checkChangeView cfg rcv v ?c)" if "\<not> CommitSent cfg c" for v
  proof -
    have "free w B ?c"
      using free_uncommitted[OF assms(1) that] changeViews_put[OF assms(1) wt assms(3)] by (simp add: free_def)
    then show ?thesis by (rule checkChangeView_ret)
  qed
  then show ?thesis
    unfolding onChangeView_def p GetChangeView.simps option.case
    using assms(1) onRecoveryRequest_ret[OF assms(1)] sendRecoveryMessage_ret(1)[OF assms(1)] i
    by (intro returns_if) auto
qed

lemma commits_drop:
  assumes "hon w B c" and "i = nat (plMe w) \<Longrightarrow> free w B c"
  shows "hon w B (c\<lparr>CommitPayloads := (CommitPayloads c)[i := None]\<rparr>)"
proof -
  let ?c = "c\<lparr>CommitPayloads := (CommitPayloads c)[i := None]\<rparr>"
  have "commitsOk (said w c) (ViewNumber c) ((CommitPayloads c)[i := None])"
    using honD(2)[OF assms(1)] by (simp add: tablesOk_def commitsOk_def slot_update)
  then have "tablesOk w (said w ?c) ?c" using honD(2)[OF assms(1)] by (simp add: tablesOk_def)
  moreover have "lockOk w ?c"
  proof (cases "i = nat (plMe w)")
    case True
    then show ?thesis using assms(2) by (simp add: lockOk_def free_def)
  next
    case False
    then have "slot (CommitPayloads ?c) (nat (plMe w)) = slot (CommitPayloads c) (nat (plMe w))" by simp
    then show ?thesis by (intro own_mono(1)[OF _ _ _ _ _ honD(4)[OF assms(1)]]) simp_all
  qed
  ultimately show ?thesis using honD(3,5,6)[OF assms(1)] by (simp add: hon_def honest_def)
qed

lemma onCommit_ret:
  assumes "hon w B c" and "good (plPrimary w) B m" and "cmType m = CommitType"
    and "viewNumber m \<le> ViewNumber c"
  shows "returns E (hon w B) (onCommit cfg m c)"
proof (cases "slot (CommitPayloads c) (unat (validatorIndex m))")
  case None
  let ?i = "unat (validatorIndex m)"
  let ?c = "c\<lparr>CommitPayloads := (CommitPayloads c)[?i := Some m]\<rparr>"
  let ?P = "\<lambda>d. hon w B d \<and> (?i = nat (plMe w) \<longrightarrow> free w B d)"
  note h = honD[OF assms(1)]
  have wt: "wellTyped m" using assms(2) by (simp add: good_def)
  obtain s where s: "body m = CommitMsg s" using wellTyped_getters(5)[OF wt assms(3)] by blast
  have "backed (said w c) ?i (viewNumber m)" using assms(2) s backed_mono[OF _ h(6)] by (simp add: good_def)
  then have "tablesOk w (said w c) ?c" by (intro commits_put[OF h(2) wt assms(3) refl assms(4)])
  moreover have "lockOk w ?c"
  proof -
    have "slot (CommitPayloads c) (nat (plMe w)) \<noteq> None \<Longrightarrow> slot (CommitPayloads ?c) (nat (plMe w)) \<noteq> None"
      by (simp add: slot_update)
    then show ?thesis using h(4) unfolding lockOk_def by auto
  qed
  ultimately have put: "hon w B ?c" using h(3,5,6) by (simp add: hon_def honest_def)
  have mine: "?i = nat (plMe w) \<Longrightarrow> free w B ?c"
    using free_slot[OF assms(1)] None put by (simp add: free_def)
  have drop: "hon w B (d\<lparr>CommitPayloads := (CommitPayloads d)[?i := None]\<rparr>)" if "?P d" for d
    using that commits_drop by blast
  have verify: "returns E (hon w B) (case MakeHeader cfg d of
                  (None, c3) \<Rightarrow> Ok c3
                | (Some h, c3) \<Rightarrow>
                    (case GetCommit (body m) of
                       None \<Rightarrow> Stop TypeAssertion
                     | Some cm \<Rightarrow>
                         if blockVerify cfg (Validators c3 ! ?i) (signature cm) h
                         then checkCommit cfg c3
                         else Ok (c3\<lparr>CommitPayloads := (CommitPayloads c3)[?i := None]\<rparr>)))" if d: "?P d" for d
  proof -
    obtain h c3 where mk: "MakeHeader cfg d = (h, c3)" by fastforce
    have hd: "hon w B d" using d by blast
    note f = MakeHeader_ret[OF hd mk]
    have "?P c3" using d f(2) by (auto simp: f(1) free_def)
    moreover have "RequestSentOrReceived c3" if "h \<noteq> None" using f(3) that by (auto simp: f(1) ofProposal_def)
    ultimately show ?thesis
      unfolding mk s using f(2) drop[of c3] checkCommit_ret[of B c3] by (cases h) simp_all
  qed
  have t: "returns E ?P (extendTimer cfg 4 ?c)"
    using put mine by (simp add: extendTimer_def emit_def free_def)
  have rest: "returns E (hon w B) (if ViewNumber ?c \<noteq> viewNumber m then Ok ?c
      else if \<not> VerifyCommit cfg (log ?c) m then Ok (?c\<lparr>CommitPayloads := (CommitPayloads ?c)[?i := None]\<rparr>)
      else thenDo (extendTimer cfg 4 ?c) (\<lambda>c2. case MakeHeader cfg c2 of
                  (None, c3) \<Rightarrow> Ok c3
                | (Some h, c3) \<Rightarrow>
                    (case GetCommit (body m) of
                       None \<Rightarrow> Stop TypeAssertion
                     | Some cm \<Rightarrow>
                         if blockVerify cfg (Validators c3 ! ?i) (signature cm) h
                         then checkCommit cfg c3
                         else Ok (c3\<lparr>CommitPayloads := (CommitPayloads c3)[?i := None]\<rparr>))))"
    using put mine drop[of ?c] by (intro returns_if returns_thenDo[OF t] verify) simp_all
  then show ?thesis unfolding onCommit_def Let_def using None by (simp only:) simp
qed (use assms(1) in \<open>simp add: onCommit_def\<close>)

subsection \<open>Recovery messages\<close>

lemma recoverPreparations_ret:
  assumes "hon w B c" and "goodRecovery (plPrimary w) B (viewNumber m) r" and "viewNumber m = ViewNumber c"
  shows "returns E (hon w B) (recoverPreparations rcv r m c)"
proof -
  have req: "good (plPrimary w) B q" if get: "rm_GetPrepareRequest r m (of_nat (PrimaryIndex c)) = Some q" for q
  proof -
    obtain p where p: "rmPrepareRequest r = Some p" "body q = PrepareRequestMsg p"
      using get by (cases "rmPrepareRequest r")
        (auto simp: rm_GetPrepareRequest_def prepareRequest_Timestamp_def nanoSecToSec_secToNanoSec)
    note q = rm_GetPrepareRequest_Some[OF get]
    have "PrimaryIndex c < 2 ^ 16" using honD(11,12)[OF assms(1)] size by simp
    then have "unat (validatorIndex q) = PrimaryIndex c" using q by (simp add: unsigned_of_nat take_bit_nat_eq_self)
    moreover have "proposed B (plPrimary w (viewNumber m)) (viewNumber m) p"
      using assms(2) p(1) by (simp add: goodRecovery_def)
    ultimately show ?thesis using q p(2) honD(8)[OF assms(1)] assms(3) by (simp add: good_def)
  qed
  have resp: "good (plPrimary w) B q" if "q \<in> set (rm_GetPrepareResponses r m)" for q
    using that rm_GetPrepareResponses_mem[OF that] assms(2)
    by (auto simp: rm_GetPrepareResponses_def goodRecovery_def good_def split: option.split_asm)
  have 1: "returns E (hon w B) (if \<not> RequestSentOrReceived c
             then (case rm_GetPrepareRequest r m (of_nat (PrimaryIndex c)) of None \<Rightarrow> Ok c | Some q \<Rightarrow> rcv q c) else Ok c)"
    using assms(1) rcv[OF req assms(1)] by (simp split: option.split)
  show ?thesis
    unfolding recoverPreparations_def
    by (intro returns_Cons[where P = "hon w B"] returns_Nil forEach_rcv 1 resp) simp_all
qed

lemma recoverCommits_ret:
  assumes "hon w B c" and "goodRecovery (plPrimary w) B (viewNumber m) r"
  shows "returns E (hon w B) (recoverCommits rcv r m c)"
proof -
  have pc: "rm_GetPreCommits r m = Inr []" using assms(2) by (simp add: rm_GetPreCommits_def goodRecovery_def)
  have com: "good (plPrimary w) B q" if "q \<in> set (rm_GetCommits r m)" for q
    using that rm_GetCommits_mem[OF that] assms(2) by (auto simp: rm_GetCommits_def goodRecovery_def good_def)
  have "returns E (hon w B) (forEach rcv (rm_GetCommits r m) c)" by (rule forEach_rcv[OF assms(1) com])
  then show ?thesis by (simp add: recoverCommits_def pc returns_thenDo)
qed

lemma onRecoveryMessage_ret:
  assumes "hon w B c" and "good (plPrimary w) B m" and "cmType m = RecoveryMessageType"
  shows "returns E (hon w B) (onRecoveryMessage cfg rcv m c)"
proof -
  obtain r where r: "body m = RecoveryMessageMsg r"
    using assms(2,3) wellTyped_getters(6)[of m] by (auto simp: good_def)
  have g: "goodRecovery (plPrimary w) B (viewNumber m) r" using assms(2) r by (simp add: good_def)
  have views: "good (plPrimary w) B q" if "q \<in> set (rm_GetChangeViews r m)" for q
    using that rm_GetChangeViews_mem[OF that] by (auto simp: rm_GetChangeViews_def good_def)
  have all: "returns E (hon w B) (recoverAll cfg rcv r m d)" if "hon w B d" for d
    unfolding recoverAll_def
    by (intro returns_if returns_Cons[where P = "hon w B"] returns_Nil forEach_rcv views
        recoverPreparations_ret recoverCommits_ret g) (use that in simp_all)
  show ?thesis
    unfolding onRecoveryMessage_def r GetRecoveryMessage.simps option.case
    by (intro returns_Cons[where P = "hon w B"] returns_Nil all) (use assms(1) in simp_all)
qed

subsection \<open>\<open>OnReceive\<close> and timeouts\<close>

lemma noteSeen_hon:
  assumes "hon w B c"
  shows "hon w B (noteSeen m c)" and "ViewNumber (noteSeen m c) = ViewNumber c"
proof -
  have "hon w B (c\<lparr>LastSeenMessage := (LastSeenMessage c)[i := z]\<rparr>)" for i z
    using assms by (simp add: hon_def honest_def tablesOk_def)
  then show "hon w B (noteSeen m c)" using assms by (simp add: noteSeen_def)
  show "ViewNumber (noteSeen m c) = ViewNumber c" by (simp add: noteSeen_def)
qed

lemma receive_ret:
  assumes "good (plPrimary w) B m" and "hon w B c"
  shows "returns E (hon w B) (receive cfg rcv m c)"
proof -
  have late: "hon w B (c\<lparr>dcache := addMessage m (dcache c)\<rparr>)"
  proof -
    have "cachedOk (plPrimary w) (said w c) (addMessage m (dcache c))"
      using cachedOk_addMessage good_mono[OF assms(1) honD(6)[OF assms(2)]] honD(2)[OF assms(2)]
      by (simp add: tablesOk_def)
    then show ?thesis using assms(2) by (simp add: hon_def honest_def tablesOk_def)
  qed
  have now: "returns E (hon w B) (dispatch cfg rcv m d)"
    if d: "hon w B d" and v: "viewNumber m \<le> ViewNumber d \<or> cmType m = ChangeViewType \<or> cmType m = RecoveryMessageType" for d
    using d v onChangeView_ret[OF d assms(1)] onPrepareRequest_ret[OF d assms(1)] onPrepareResponse_ret[OF d assms(1)]
      onCommit_ret[OF d assms(1)] onRecoveryRequest_ret[OF d] onRecoveryMessage_ret[OF d assms(1)]
    by (cases "cmType m") (simp_all add: dispatch_def)
  show ?thesis
    unfolding receive_def Let_def
    by (intro returns_if now noteSeen_hon(1)[OF assms(2)]; use assms(2) late noteSeen_hon[OF assms(2)] in auto)
qed

lemma onTimeout_ret:
  assumes "hon w B c"
  shows "returns E (hon w B) (onTimeout cfg rcv h v force c)"
proof (cases "WatchOnly cfg c")
  case False
  then have i: "0 \<le> plMe w" using watching[OF assms] by simp
  have timer: "returns E (hon w B) (changeTimer t d)" if "hon w B d" for t d
    by (rule changeTimer_ret(1)[OF that])
  show ?thesis
    unfolding onTimeout_def
    by (intro returns_if returns_Cons[where P = "hon w B"] returns_Nil timer subscribe_ret
        sendRecoveryMessage_ret(1) sendPrepareRequest_ret sendChangeView_ret free_uncommitted)
      (use assms i in simp_all)
qed (use assms in \<open>simp add: onTimeout_def\<close>)

end

context peer
begin

lemma OnReceiveN_ret:
  "good (plPrimary w) B m \<Longrightarrow> hon w B c \<Longrightarrow> returns E (hon w B) (OnReceiveN cfg n m c)"
proof (induction n arbitrary: B m c)
  case 0
  then show ?case using fuel by simp
next
  case (Suc n)
  have "answering cfg w E (OnReceiveN cfg n)" by unfold_locales (rule Suc.IH)
  then have "returns E (hon w B) (receive cfg (OnReceiveN cfg n) m c)"
    using Suc.prems by (rule answering.receive_ret)
  then show ?case by simp
qed

end

sublocale peer \<subseteq> replied: answering cfg w E "OnReceive cfg"
  by unfold_locales (simp add: OnReceive_def OnReceiveN_ret)

subsection \<open>The start of a node\<close>

text \<open>A node starts at its place when the callbacks answer accordingly.\<close>

definition startsAt ::
    "('tx, 'b, 'pb, 'pub, 'priv) config \<Rightarrow> ('pub, 'b) place \<Rightarrow> ('tx, 'b, 'pb) effect list \<Rightarrow> bool" where
  "startsAt cfg w es \<longleftrightarrow>
     GetValidators cfg es = plValidators w \<and> CurrentHeight cfg es + 1 = plIndex w
     \<and> CurrentBlockHash cfg es = plPrev w
     \<and> plValidators w \<noteq> [] \<and> plMe w < int (length (plValidators w))"

definition primaryAt :: "('pub, 'b) place \<Rightarrow> ('tx, 'b, 'pb, 'pub, 'priv) dbft \<Rightarrow> bool" where
  "primaryAt w c \<longleftrightarrow>
     (\<forall>v. GetPrimaryIndex (c\<lparr>BlockIndex := plIndex w, Validators := plValidators w\<rparr>) v = plPrimary w v)"

lemma primaryAt_cong: "primaryAt w c \<Longrightarrow> primaryAt w d"
proof -
  have "GetPrimaryIndex (d\<lparr>BlockIndex := plIndex w, Validators := plValidators w\<rparr>) v
      = GetPrimaryIndex (c\<lparr>BlockIndex := plIndex w, Validators := plValidators w\<rparr>) v" for v
    by (rule GetPrimaryIndex_cong) simp_all
  then show "primaryAt w c \<Longrightarrow> primaryAt w d" by (simp add: primaryAt_def)
qed

context peer
begin

lemma reset_start:
  assumes "startsAt cfg w (log c)" and "primaryAt w c" and "spoken c = {}" and "dcache c = newCache"
  shows "returns E (\<lambda>d. hon w (plOthers w) d \<and> \<not> RequestSentOrReceived d \<and> dcache d = newCache) (reset cfg 0 ts c)"
proof -
  let ?s = "resetRound cfg 0 (resetHeight cfg (resetBegin ts c))"
  note a = assms(1)[unfolded startsAt_def]
  have "\<exists>d. reset cfg 0 ts c = Inr d"
    using a me by (auto simp: reset_def Let_def noteOwn_def enterView_def reset_parts)
  then obtain d where r: "reset cfg 0 ts c = Inr d" by blast
  note o = reset_Ok[OF r] and k = reset_height_Ok[OF r]
  have s: "spoken d = {}" "said w d = plOthers w"
    using assms(3) unfolding said_def spoken_def o(13) by simp_all
  have v: "Validators d = plValidators w" "BlockIndex d = plIndex w" using k(7,8) a by simp_all
  have p: "GetPrimaryIndex d u = plPrimary w u" for u
    using assms(2) GetPrimaryIndex_cong[of d "c\<lparr>BlockIndex := plIndex w, Validators := plValidators w\<rparr>" u] v
    by (simp add: primaryAt_def)
  have "PrevHash d = plPrev w"
    by (rule reset_OkE[OF r]) (simp add: resetState_def enterView_def resetRound_def resetHeight_def
        resetBegin_def Let_def a split: prod.split)
  moreover have "PrimaryIndex d < length (plValidators w)"
    using GetPrimaryIndex_less[OF o(1), of 0] o(5) v by (simp add: ctxN_def)
  ultimately have pl: "placed w d"
    using v p o(2,3,5,6) k(1,4) a me by (simp add: placed_def ctxN_def)
  have no: "\<not> RequestSentOrReceived d" using o(6) by (simp add: RequestSentOrReceived_def)
  have "cachedOk pr A (dcache d)" for pr A by (simp add: o(12) assms(4) newCache_def cachedOk_def)
  then have "tablesOk w (said w d) d"
    using pl no o(6,7,8,10) k(1,2,3) by (simp add: tablesOk_def prepsOk_def commitsOk_def changeViewsOk_def)
  then have "hon w (plOthers w) d"
    by (simp add: hon_def honest_def s ownOk_def lockOk_def requestsOk_def)
  then show ?thesis using r no o(12) assms(4) by simp
qed

lemma start_ret:
  assumes "startsAt cfg w (log c)" and "primaryAt w c" and "spoken c = {}"
  shows "returns E (hon w (plOthers w)) (start cfg ts c)"
proof -
  let ?c = "c\<lparr>dcache := newCache\<rparr>"
  let ?P = "\<lambda>d. hon w (plOthers w) d \<and> \<not> RequestSentOrReceived d \<and> dcache d = newCache"
  let ?Q = "\<lambda>d. hon w (plOthers w) d \<and> \<not> RequestSentOrReceived d"
  have r: "returns E ?P (reset cfg 0 ts ?c)"
    by (rule reset_start) (use assms primaryAt_cong[OF assms(2)] in simp_all)
  have stop: "returns E ?P (emit EStopTxFlow d)" if "?P d" for d using that by (simp add: emit_def)
  have replay: "returns E ?Q (replayCached cfg (OnReceive cfg) d)" if d: "?P d" for d
  proof -
    have "getHeight (BlockIndex d) (dcache d) = (None, dcache d)"
      using d by (simp add: getHeight_def newCache_def)
    moreover have "d\<lparr>dcache := dcache d\<rparr> = d" by (cases d) simp
    ultimately have "replayCached cfg (OnReceive cfg) d = Inr d" by (simp only: replayCached_def prod.case option.case)
    then show ?thesis using d by simp
  qed
  have timer: "returns E ?Q (if WatchOnly cfg d then Ok d else changeTimer (roundTimeout cfg 0 d) d)" if "?Q d" for d
    using that by (simp add: changeTimer_def emit_def)
  have i: "returns E ?Q (initializeConsensus cfg (OnReceive cfg) 0 ts ?c)"
    unfolding initializeConsensus_def
    by (rule returns_Cons[where P = ?P], rule r, rule returns_Cons[where P = ?P], erule stop,
        rule returns_Cons[where P = ?Q], erule replay, rule returns_Cons[where P = ?Q], erule timer, simp)
  have p: "returns E (hon w (plOthers w)) (if IsPrimary d then sendPrepareRequest cfg True d else Ok d)" if "?Q d" for d
    using that sendPrepareRequest_ret[of "plOthers w" d True] by simp
  show ?thesis
    unfolding start_def
    by (rule returns_Cons[where P = "\<lambda>d. d = ?c"], simp, rule returns_Cons[where P = ?Q], use i in simp,
        rule returns_Cons[where P = "hon w (plOthers w)"], erule p, simp)
qed

text \<open>The three calls of a node in the simulation.\<close>

lemma call_logged: "exec cfg a c = runCall cfg a (c\<lparr>log := ECall a # log c\<rparr>)"
  by (simp add: exec_def emit_def)

lemma exec_start_ret:
  assumes "startsAt cfg w [ECall (CallStart ts)]" and "primaryAt w (newDbft cfg)"
  shows "returns E (hon w (plOthers w)) (exec cfg (CallStart ts) (newDbft cfg))"
proof -
  have "log (newDbft cfg) = []" by (simp add: newDbft_def)
  then show ?thesis
    unfolding call_logged runCall.simps
    by (intro start_ret primaryAt_cong[OF assms(2)]) (use assms(1) in \<open>simp_all add: spokenIn_def\<close>)
qed

lemma exec_timeout_ret:
  assumes "hon w B c"
  shows "returns E (hon w B) (exec cfg (CallTimeout h v) c)"
  unfolding call_logged runCall.simps by (rule replied.onTimeout_ret) (use assms in simp)

lemma exec_receive_ret:
  assumes "hon w B c" and "good (plPrimary w) B m"
  shows "returns E (hon w B) (exec cfg (CallReceive m) c)"
  unfolding call_logged runCall.simps by (rule replied.rcv[OF assms(2)]) (use assms(1) in simp)

end

end
