(* ===== verification/Network.thy ===== *)
theory Network
  imports Peer_Receive Simulation
begin

section \<open>A network of honest nodes\<close>

text \<open>
  The nodes of a cluster, whose steps are those of \<open>simStep\<close>: every message that exists was
  broadcast by a node that runs the code, so every node is honest in the sense of \<open>Honest\<close>, no call
  stops in another way than \<open>E\<close>, and all accepted blocks are of one view and one proposal.
\<close>

definition spokenAt :: "('tx, 'b, 'pb, 'pub, 'priv) simNode \<Rightarrow> payload set" where
  "spokenAt n = (case snState n of None \<Rightarrow> {} | Some c \<Rightarrow> spoken c)"

definition spokenBy :: "nat set \<Rightarrow> ('tx, 'b, 'pb, 'pub, 'priv) simNode list \<Rightarrow> payload set" where
  "spokenBy js cl = (\<Union>j \<in> js \<inter> {..<length cl}. spokenAt (cl ! j))"

text \<open>The place \<open>p\<close> of node \<open>i\<close> among the others.\<close>

definition placeIn ::
    "('tx, 'b, 'pb, 'pub, 'priv) simNode list \<Rightarrow> nat \<Rightarrow> ('pub, 'b) place \<Rightarrow> ('pub, 'b) place" where
  "placeIn cl i p = p\<lparr>plOthers := spokenBy (- {i}) cl\<rparr>"

definition named :: "('pub, 'b) place \<Rightarrow> payload \<Rightarrow> bool" where
  "named p m \<longleftrightarrow> 0 \<le> plMe p \<and> unat (validatorIndex m) = nat (plMe p)"

lemma placeIn_sel [simp]:
  "plValidators (placeIn cl i p) = plValidators p" "plPrimary (placeIn cl i p) = plPrimary p"
  "plMe (placeIn cl i p) = plMe p" "plIndex (placeIn cl i p) = plIndex p" "plPrev (placeIn cl i p) = plPrev p"
  "plHeader (placeIn cl i p) = plHeader p" "plOthers (placeIn cl i p) = spokenBy (- {i}) cl"
  by (simp_all add: placeIn_def)

lemma placeIn_starts [simp]:
  "startsAt cfg (placeIn cl i p) = startsAt cfg p" "primaryAt (placeIn cl i p) = primaryAt p"
  by (simp_all add: startsAt_def primaryAt_def fun_eq_iff)

lemma spokenByI:
  "m \<in> spoken c \<Longrightarrow> snState (cl ! j) = Some c \<Longrightarrow> j < length cl \<Longrightarrow> j \<in> js \<Longrightarrow> m \<in> spokenBy js cl"
  by (force simp: spokenBy_def spokenAt_def)

lemma spokenByE:
  assumes "m \<in> spokenBy js cl"
  obtains j c where "j \<in> js" and "j < length cl" and "snState (cl ! j) = Some c" and "m \<in> spoken c"
  using assms by (auto simp: spokenBy_def spokenAt_def split: option.split_asm)

lemma spokenBy_mono: "js \<subseteq> ks \<Longrightarrow> spokenBy js cl \<subseteq> spokenBy ks cl"
  by (auto simp: spokenBy_def)

lemma spokenBy_all:
  assumes "i < length cl" and "snState (cl ! i) = Some c"
  shows "spokenBy (- {i}) cl \<union> spoken c = spokenBy UNIV cl"
proof
  show "spokenBy (- {i}) cl \<union> spoken c \<subseteq> spokenBy UNIV cl"
    using spokenBy_mono[of "- {i}" UNIV cl] spokenByI[OF _ assms(2,1)] by blast
  show "spokenBy UNIV cl \<subseteq> spokenBy (- {i}) cl \<union> spoken c"
  proof
    fix m
    assume "m \<in> spokenBy UNIV cl"
    then obtain j d where j: "j < length cl" "snState (cl ! j) = Some d" "m \<in> spoken d" by (rule spokenByE)
    then show "m \<in> spokenBy (- {i}) cl \<union> spoken c"
      using assms(2) spokenByI[OF j(3,2,1), of "- {i}"] by (cases "j = i") simp_all
  qed
qed

lemma said_placeIn:
  "i < length cl \<Longrightarrow> snState (cl ! i) = Some c \<Longrightarrow> said (placeIn cl i p) c = spokenBy UNIV cl"
  unfolding said_def placeIn_sel by (rule spokenBy_all)

text \<open>More messages of the others change nothing.\<close>

lemma hon_others:
  assumes "hon w B c" and "plOthers w \<subseteq> X"
  shows "hon (w\<lparr>plOthers := X\<rparr>) B c"
proof -
  let ?w = "w\<lparr>plOthers := X\<rparr>"
  have sub: "said w c \<subseteq> said ?w c" unfolding said_def by (rule Un_mono) (use assms(2) in simp_all)
  have h: "tablesOk w (said w c) c" "ownOk w c" "lockOk w c" "requestsOk c" "B \<subseteq> said w c"
    using assms(1) by (simp_all add: hon_def honest_def)
  have pl: "placed ?w c = placed w c" "plM ?w = plM w" by (simp_all add: placed_def plM_def)
  have "tablesOk w (said ?w c) c" by (rule tablesOk_mono[OF h(1) sub])
  then have "tablesOk ?w (said ?w c) c" by (simp add: tablesOk_def pl)
  moreover have "ownOk ?w c" using h(2) good_mono[OF _ sub] by (auto simp: ownOk_def)
  moreover have "lockOk ?w c"
    using h(3) order_trans[OF _ prepared_card_mono[OF sub]] unfolding lockOk_def pl by fastforce
  ultimately show ?thesis using h(4,5) sub by (auto simp: hon_def honest_def)
qed

definition runs ::
    "(nat \<Rightarrow> ('pub, 'b) place) \<Rightarrow> ('tx, 'b, 'pb, 'pub, 'priv) simNode list \<Rightarrow> nat
       \<Rightarrow> ('tx, 'b, 'pb, 'pub, 'priv) simNode \<Rightarrow> bool" where
  "runs pl cl i nd \<longleftrightarrow>
     set (snMessages nd) \<subseteq> spokenBy UNIV cl
     \<and> (case snState nd of None \<Rightarrow> True | Some c \<Rightarrow> hon (placeIn cl i (pl i)) {} c)"

definition allHonest ::
    "nat \<Rightarrow> (nat \<Rightarrow> ('pub, 'b) place) \<Rightarrow> ('tx, 'b, 'pb, 'pub, 'priv) simNode list \<Rightarrow> bool" where
  "allHonest n pl cl \<longleftrightarrow> length cl = n \<and> (\<forall>i < n. runs pl cl i (cl ! i))"

lemma allHonest_length: "allHonest n pl cl \<Longrightarrow> length cl = n"
  by (simp add: allHonest_def)

lemma allHonestD:
  assumes "allHonest n pl cl" and "i < n"
  shows "set (snMessages (cl ! i)) \<subseteq> spokenBy UNIV cl"
    and "snState (cl ! i) = Some c \<Longrightarrow> hon (placeIn cl i (pl i)) {} c"
  using assms by (auto simp: allHonest_def runs_def)

locale network =
  fixes cfg :: "nat \<Rightarrow> ('tx, 'b, 'pb, 'pub, 'priv) config"
    and n :: nat and pl :: "nat \<Rightarrow> ('pub, 'b) place" and E :: "stop set"
  assumes peers: "i < n \<Longrightarrow> (\<And>m. m \<in> X \<Longrightarrow> \<not> named (pl i) m) \<Longrightarrow> peer (cfg i) ((pl i)\<lparr>plOthers := X\<rparr>) E"
    and starts: "i < n \<Longrightarrow> startsAt (cfg i) (pl i) [ECall (CallStart 0)]" "i < n \<Longrightarrow> primaryAt (pl i) (newDbft (cfg i))"
    and alone: "i < n \<Longrightarrow> j < n \<Longrightarrow> 0 \<le> plMe (pl i) \<Longrightarrow> plMe (pl i) = plMe (pl j) \<Longrightarrow> i = j"
    and same: "i < n \<Longrightarrow> j < n \<Longrightarrow> plPrimary (pl i) = plPrimary (pl j)" "i < n \<Longrightarrow> j < n \<Longrightarrow> plHeader (pl i) = plHeader (pl j)"
      "i < n \<Longrightarrow> j < n \<Longrightarrow> plValidators (pl i) = plValidators (pl j)"
begin

subsection \<open>What the nodes say\<close>

lemma spoken_fact:
  assumes "allHonest n pl cl" and "m \<in> spokenBy UNIV cl"
  obtains j c where "j < n" and "snState (cl ! j) = Some c" and "m \<in> spoken c"
    and "hon (placeIn cl j (pl j)) {} c" and "named (pl j) m" and "good (plPrimary (pl j)) (spokenBy UNIV cl) m"
proof -
  note l = allHonest_length[OF assms(1)]
  obtain j where j: "j < n" "m \<in> spokenAt (cl ! j)" using assms(2) l by (auto simp: spokenBy_def)
  then obtain c where c: "snState (cl ! j) = Some c" "m \<in> spoken c"
    by (auto simp: spokenAt_def split: option.split_asm)
  have h: "hon (placeIn cl j (pl j)) {} c" by (rule allHonestD(2)[OF assms(1) j(1) c(1)])
  then have "ownOk (placeIn cl j (pl j)) c" by (simp add: hon_def honest_def)
  then have "named (pl j) m \<and> good (plPrimary (pl j)) (spokenBy UNIV cl) m"
    using c j(1) l said_placeIn[of j cl c "pl j"] by (auto simp: ownOk_def named_def)
  then show thesis using that j(1) c h by blast
qed

lemma others_speak:
  assumes "allHonest n pl cl" and "i < n" and "m \<in> spokenBy (- {i}) cl"
  shows "\<not> named (pl i) m"
proof
  assume m: "named (pl i) m"
  note l = allHonest_length[OF assms(1)]
  obtain j where j: "j < n" "j \<noteq> i" "m \<in> spokenAt (cl ! j)" using assms(3) l by (auto simp: spokenBy_def)
  then obtain c where c: "snState (cl ! j) = Some c" "m \<in> spoken c"
    by (auto simp: spokenAt_def split: option.split_asm)
  have "ownOk (placeIn cl j (pl j)) c"
    using allHonestD(2)[OF assms(1) j(1) c(1)] by (simp add: hon_def honest_def)
  then have "named (pl j) m" using c(2) by (auto simp: ownOk_def named_def)
  then have "plMe (pl i) = plMe (pl j)" using m by (auto simp: named_def)
  then show False using m alone[OF assms(2) j(1)] j(2) by (simp add: named_def)
qed

lemma peer_at:
  assumes "allHonest n pl cl" and "i < n"
  shows "peer (cfg i) (placeIn cl i (pl i)) E"
  unfolding placeIn_def by (rule peers[OF assms(2) others_speak[OF assms]])

subsection \<open>Every step keeps all nodes honest\<close>

lemma chanSend_sub: "set (fold chanSend ms q) \<subseteq> set q \<union> set ms"
proof (induction ms arbitrary: q)
  case (Cons m ms)
  have "set (chanSend m q) \<subseteq> insert m (set q)" by (auto simp: chanSend_def)
  then show ?case using Cons[of "chanSend m q"] by auto
qed simp

lemma broadcastsOf_sub: "set (broadcastsOf c d) \<subseteq> spoken d"
  by (auto simp: broadcastsOf_def List.map_filter_def spoken_def spokenIn_def dest!: in_set_takeD
      split: effect.split_asm)

lemma step_honest:
  assumes a: "allHonest n pl cl" and i: "i < n" and q: "set (snMessages nd) \<subseteq> spokenBy UNIV cl"
    and s: "snState nd = Some d" and h: "hon (placeIn cl i (pl i)) (spokenBy UNIV cl) d"
    and ms: "set ms \<subseteq> spoken d"
  shows "allHonest n pl (sendToOthers i ms (cl[i := nd]))"
proof -
  let ?cl = "sendToOthers i ms (cl[i := nd])"
  note l = allHonest_length[OF a]
  have len: "length ?cl = n" by (simp add: sendToOthers_def l)
  have st: "snState (?cl ! j) = (if j = i then Some d else snState (cl ! j))" if "j < n" for j
    using that i l s by (simp add: sendToOthers_def)
  have at: "spokenAt (?cl ! j) = (if j = i then spoken d else spokenAt (cl ! j))" if "j < n" for j
    using st[OF that] by (simp add: spokenAt_def)
  have rest: "spokenBy (- {i}) ?cl = spokenBy (- {i}) cl"
    using at by (auto simp: spokenBy_def len l)
  have all: "spokenBy UNIV ?cl = spokenBy (- {i}) cl \<union> spoken d"
    using spokenBy_all[of i ?cl d] i len st[OF i] rest by simp
  have grow: "spokenBy UNIV cl \<subseteq> spokenBy UNIV ?cl"
    using h unfolding all hon_def said_def placeIn_sel by blast
  have own: "spokenAt (cl ! i) \<subseteq> spoken d"
  proof
    fix m
    assume m: "m \<in> spokenAt (cl ! i)"
    then have "m \<in> spokenBy UNIV cl" using i l by (auto simp: spokenBy_def)
    then have "m \<in> spokenBy (- {i}) cl \<union> spoken d" using grow all by blast
    moreover have "named (pl i) m"
    proof -
      obtain c where c: "snState (cl ! i) = Some c" "m \<in> spoken c"
        using m by (auto simp: spokenAt_def split: option.split_asm)
      have "ownOk (placeIn cl i (pl i)) c"
        using allHonestD(2)[OF a i c(1)] by (simp add: hon_def honest_def)
      then show ?thesis using c(2) by (auto simp: ownOk_def named_def)
    qed
    ultimately show "m \<in> spoken d" using others_speak[OF a i] by blast
  qed
  have "runs pl ?cl j (?cl ! j)" if j: "j < n" for j
  proof -
    have "set (snMessages (?cl ! j)) \<subseteq> spokenBy UNIV ?cl"
    proof -
      have "set (snMessages (?cl ! j)) \<subseteq> set (snMessages (cl ! j)) \<union> set (snMessages nd) \<union> set ms"
        using chanSend_sub[of ms "snMessages (cl ! j)"] j i l by (auto simp: sendToOthers_def)
      also have "\<dots> \<subseteq> spokenBy UNIV cl \<union> spoken d" using allHonestD(1)[OF a j] q ms by blast
      finally show ?thesis using grow all by blast
    qed
    moreover have "hon (placeIn ?cl j (pl j)) {} c" if c: "snState (?cl ! j) = Some c" for c
    proof (cases "j = i")
      case True
      then show ?thesis
        using h c st[OF j] by (simp add: placeIn_def rest hon_mono)
    next
      case False
      have "spokenBy (- {j}) cl \<subseteq> spokenBy (- {j}) ?cl"
        using at own i by (fastforce simp: spokenBy_def len l split: if_split_asm)
      then show ?thesis
        using hon_others[OF allHonestD(2)[OF a j], of c "spokenBy (- {j}) ?cl"] c st[OF j] False
        by (simp add: placeIn_def)
    qed
    ultimately show ?thesis by (auto simp: runs_def split: option.split)
  qed
  then show ?thesis by (simp add: allHonest_def len)
qed

text \<open>The calls of a step return, or stop as allowed.\<close>

lemma start_returns:
  assumes "allHonest n pl cl" and "i < n" and "snState (cl ! i) = None"
  shows "returns E (hon (placeIn cl i (pl i)) (spokenBy UNIV cl)) (exec (cfg i) (CallStart 0) (newDbft (cfg i)))"
proof -
  have "m \<in> spokenBy (- {i}) cl" if "m \<in> spokenBy UNIV cl" for m
    using that assms(3) by (elim spokenByE) (auto intro: spokenByI)
  then have all: "spokenBy UNIV cl = spokenBy (- {i}) cl"
    using spokenBy_mono[of "- {i}" UNIV cl] by blast
  have "returns E (hon (placeIn cl i (pl i)) (plOthers (placeIn cl i (pl i))))
      (exec (cfg i) (CallStart 0) (newDbft (cfg i)))"
    by (rule peer.exec_start_ret[OF peer_at[OF assms(1,2)]]) (use starts[OF assms(2)] in simp_all)
  then show ?thesis by (simp add: all)
qed

lemma hon_all:
  assumes "allHonest n pl cl" and "i < n" and "snState (cl ! i) = Some c"
  shows "hon (placeIn cl i (pl i)) (spokenBy UNIV cl) c"
  using hon_said[OF allHonestD(2)[OF assms]] said_placeIn[of i cl c "pl i"] assms allHonest_length[OF assms(1)]
  by simp

lemma timeout_returns:
  assumes "allHonest n pl cl" and "i < n" and "snState (cl ! i) = Some c"
  shows "returns E (hon (placeIn cl i (pl i)) (spokenBy UNIV cl)) (exec (cfg i) (CallTimeout h v) c)"
  by (rule peer.exec_timeout_ret[OF peer_at[OF assms(1,2)] hon_all[OF assms]])

lemma receive_returns:
  assumes "allHonest n pl cl" and "i < n" and "snState (cl ! i) = Some c" and "m \<in> set (snMessages (cl ! i))"
  shows "returns E (hon (placeIn cl i (pl i)) (spokenBy UNIV cl)) (exec (cfg i) (CallReceive m) c)"
proof -
  have "m \<in> spokenBy UNIV cl" using allHonestD(1)[OF assms(1,2)] assms(4) by blast
  then obtain j where "j < n" "good (plPrimary (pl j)) (spokenBy UNIV cl) m"
    using spoken_fact[OF assms(1)] by metis
  then have "good (plPrimary (placeIn cl i (pl i))) (spokenBy UNIV cl) m" using same(1)[OF assms(2)] by simp
  then show ?thesis by (rule peer.exec_receive_ret[OF peer_at[OF assms(1,2)] hon_all[OF assms(1-3)]])
qed

lemma simStep_honest: "simStep cfg cl cl' \<Longrightarrow> allHonest n pl cl \<Longrightarrow> allHonest n pl cl'"
proof (induction rule: simStep.induct)
  case (sim_start i cl d)
  have i: "i < n" using sim_start(1,4) by (simp add: allHonest_def)
  show ?case
    by (rule step_honest[OF sim_start(4) i _ _ _ broadcastsOf_sub])
      (use allHonestD(1)[OF sim_start(4) i] start_returns[OF sim_start(4) i sim_start(2)] sim_start(3) in simp_all)
next
  case (sim_timeout i cl c d)
  have i: "i < n" using sim_timeout(1,4) by (simp add: allHonest_def)
  have r: "returns E (hon (placeIn cl i (pl i)) (spokenBy UNIV cl)) (Inr d)"
    using timeout_returns[OF sim_timeout(4) i sim_timeout(2)] sim_timeout(3) by metis
  show ?case
    by (rule step_honest[OF sim_timeout(4) i _ _ _ broadcastsOf_sub])
      (use allHonestD(1)[OF sim_timeout(4) i] r in simp_all)
next
  case (sim_message i cl c m ms d)
  have i: "i < n" using sim_message(1,5) by (simp add: allHonest_def)
  have r: "returns E (hon (placeIn cl i (pl i)) (spokenBy UNIV cl)) (Inr d)"
    using receive_returns[OF sim_message(5) i sim_message(2), of m] sim_message(3,4) by simp
  show ?case
    by (rule step_honest[OF sim_message(5) i _ _ _ broadcastsOf_sub])
      (use allHonestD(1)[OF sim_message(5) i] sim_message(3) r in simp_all)
qed

lemma simSteps_honest: "(simStep cfg)\<^sup>*\<^sup>* cl cl' \<Longrightarrow> allHonest n pl cl \<Longrightarrow> allHonest n pl cl'"
  by (induction rule: rtranclp_induct) (auto intro: simStep_honest)

lemma init_honest: "allHonest n pl (simInit n)"
  by (simp add: allHonest_def runs_def simInit_def)

end

subsection \<open>The accepted block\<close>

definition acceptedHeader :: "('tx, 'b, 'pb, 'pub, 'priv) dbft \<Rightarrow> bool" where
  "acceptedHeader c \<longleftrightarrow>
     (\<forall>b. EProcessBlock b True \<in> set (heightLog (log c)) \<longrightarrow> blockProcessed c \<and> header c = Some b)"

lemma lstep_header_kept:
  assumes "lstep cfg c d" and "blockProcessed c"
  shows "header d = header c"
  using assms by cases (simp_all add: quiet_def sameCore_def)

interpretation acceptedHeader: height_invariant cfg acceptedHeader for cfg
proof unfold_locales
  fix ts c d
  assume "reset cfg 0 ts c = Inr d" "heightLog (log d) = []"
  then show "acceptedHeader d" by (simp add: acceptedHeader_def)
next
  fix c d
  assume a: "wf cfg c" "acceptedHeader c" "lstep cfg c d"
  obtain es where l: "heightLog (log d) = es @ heightLog (log c)" and e: "\<forall>e \<in> set es. localEffect cfg c e"
    by (rule lstep_log[OF a(3,1)])
  have "EProcessBlock b True \<notin> set es" for b
    using e localEffect_not_accepted[of cfg c "EProcessBlock b True"] by (auto simp: isAccepted_def)
  then show "acceptedHeader d"
    using a(2) lstep_frame(6)[OF a(3)] lstep_header_kept[OF a(3)] by (auto simp: acceptedHeader_def l)
next
  fix c and b ok
  assume "acceptedHeader c" "\<not> blockProcessed c" "header c = Some b"
  then show "acceptedHeader (c\<lparr>log := EProcessBlock b ok # log c, blockProcessed := ok\<rparr>)"
    by (auto simp: acceptedHeader_def)
next
  fix c view ts d
  assume "acceptedHeader c" "\<not> blockProcessed c" and r: "reset cfg view ts c = Inr d"
  then show "acceptedHeader d" by (simp add: acceptedHeader_def reset_Ok(13)[OF r])
qed

text \<open>A node that was never reset keeps its whole history.\<close>

lemma neverReset_accepted:
  assumes "neverReset c" and "EProcessBlock b True \<in> set (log c)"
  shows "EProcessBlock b True \<in> set (heightLog (log c))"
proof -
  have "EProcessBlock b True \<in> set (heightLog (log c) @ [ECall (CallStart 0)])"
    using assms(2) unfolding assms(1)[unfolded neverReset_def, symmetric] .
  then show ?thesis by simp
qed

subsection \<open>Agreement\<close>

lemma two_quorums:
  assumes "S \<subseteq> {..<k}" and "T \<subseteq> {..<k}" and "0 < k" and "k - (k - 1) div 3 \<le> card S" and "k - (k - 1) div 3 \<le> card T"
  obtains x where "x \<in> S" and "x \<in> T"
proof (cases "S \<inter> T = {}")
  case True
  have f: "finite S" "finite T" using assms(1,2) finite_subset by blast+
  have "card (S \<union> T) = card S + card T" by (rule card_Un_disjoint[OF f True])
  moreover have "card (S \<union> T) \<le> k" using card_mono[of "{..<k}" "S \<union> T"] assms(1,2) by simp
  ultimately show thesis using assms(3-5) by linarith
qed (use that in blast)

context network
begin

lemma who_spoke:
  assumes a: "allHonest n pl cl" and m: "m \<in> spokenBy UNIV cl" and m': "m' \<in> spokenBy UNIV cl"
    and "unat (validatorIndex m) = unat (validatorIndex m')"
  obtains j c where "j < n" and "snState (cl ! j) = Some c" and "m \<in> spoken c" and "m' \<in> spoken c"
    and "ownOk (placeIn cl j (pl j)) c" and "lockOk (placeIn cl j (pl j)) c" and "requestsOk c" and "placed (pl j) c"
    and "said (placeIn cl j (pl j)) c = spokenBy UNIV cl" and "unat (validatorIndex m) < length (plValidators (pl j))"
proof -
  obtain j c where j: "j < n" "snState (cl ! j) = Some c" "m \<in> spoken c" "hon (placeIn cl j (pl j)) {} c" "named (pl j) m"
    by (rule spoken_fact[OF a m])
  obtain j' c' where j': "j' < n" "snState (cl ! j') = Some c'" "m' \<in> spoken c'" "named (pl j') m'"
    by (rule spoken_fact[OF a m'])
  have "plMe (pl j) = plMe (pl j')" using j(5) j'(4) assms(4) by (auto simp: named_def)
  then have eq: "j' = j" using alone[OF j(1) j'(1)] j(5) by (simp add: named_def)
  have p: "placed (placeIn cl j (pl j)) c" using j(4) by (simp add: hon_def honest_def tablesOk_def)
  then have p': "placed (pl j) c" by (simp add: placed_def)
  have s: "said (placeIn cl j (pl j)) c = spokenBy UNIV cl"
    using said_placeIn[of j cl c "pl j"] j(1,2) allHonest_length[OF a] by simp
  have lt: "unat (validatorIndex m) < length (plValidators (pl j))"
    using p' j(5) by (auto simp: placed_def named_def)
  show thesis
    by (rule that[OF j(1-3) _ _ _ _ p' s]) (use j j' eq lt in \<open>simp_all add: hon_def honest_def\<close>)
qed

lemma accepted_facts:
  assumes a: "allHonest n pl cl" and i: "i < n" and c: "snState (cl ! i) = Some c"
    and r: "reachable (cfg i) c" and b: "EProcessBlock b True \<in> set (heightLog (log c))"
  obtains S p where "S \<subseteq> {..<length (plValidators (pl i))}" and "plM (pl i) \<le> card S"
    and "\<And>x. x \<in> S \<Longrightarrow> backed (spokenBy UNIV cl) x (ViewNumber c)"
    and "proposed (spokenBy UNIV cl) (plPrimary (pl i) (ViewNumber c)) (ViewNumber c) p"
    and "agrees p c" and "plHeader (pl i) p b"
proof -
  let ?A = "spokenBy UNIV cl"
  have h: "hon (placeIn cl i (pl i)) {} c" by (rule allHonestD(2)[OF a i c])
  have s: "said (placeIn cl i (pl i)) c = ?A"
    using said_placeIn[of i cl c "pl i"] i c allHonest_length[OF a] by simp
  have t: "tablesOk (placeIn cl i (pl i)) ?A c" using h s by (simp add: hon_def honest_def)
  have acc: "blockProcessed c" "header c = Some b"
    using acceptedHeader.holds[OF r] b by (simp_all add: acceptedHeader_def)
  let ?S = "{k. \<exists>m. slot (CommitPayloads c) k = Some m \<and> viewNumber m = ViewNumber c}"
  have m: "ctxM c = plM (pl i)" "length (CommitPayloads c) = length (plValidators (pl i))"
    using t by (simp_all add: tablesOk_def placed_def ctxM_def ctxF_def plM_def)
  have "plM (pl i) \<le> card ?S"
    using accepted.holds[OF r] acc(1) m(1) by (simp add: acceptedOnce_def countView_def length_present_card)
  moreover have "?S \<subseteq> {..<length (plValidators (pl i))}" using m(2) by (auto dest: slot_in_range)
  moreover have "backed ?A x (ViewNumber c)" if "x \<in> ?S" for x
  proof -
    from that obtain m where "slot (CommitPayloads c) x = Some m" "viewNumber m = ViewNumber c" by blast
    moreover have k: "commitsOk ?A (ViewNumber c) (CommitPayloads c)" using t by (simp add: tablesOk_def)
    ultimately show ?thesis using commitsOkD(5)[OF k] by metis
  qed
  moreover have "RequestSentOrReceived c" using t acc(2) by (simp add: tablesOk_def)
  then obtain p where "proposed ?A (plPrimary (pl i) (ViewNumber c)) (ViewNumber c) p" "agrees p c"
    using t by (auto simp: tablesOk_def placed_def)
  moreover from this have "plHeader (pl i) p b" using t acc(2) by (simp add: tablesOk_def)
  ultimately show thesis using that by blast
qed

text \<open>No view after one in which a quorum is behind a block has a quorum of preparations.\<close>

lemma no_later_commit:
  assumes a: "allHonest n pl cl" and i: "i < n" and S: "S \<subseteq> {..<length (plValidators (pl i))}" "plM (pl i) \<le> card S"
    and b: "\<And>x. x \<in> S \<Longrightarrow> backed (spokenBy UNIV cl) x v"
    and k: "committed (spokenBy UNIV cl) k v'"
  shows "v' \<le> v"
proof -
  let ?A = "spokenBy UNIV cl" and ?n = "length (plValidators (pl i))"
  let ?T = "{x. prepared ?A x v'}"
  have vs: "plValidators (pl j) = plValidators (pl i)" if "j < n" for j by (rule same(3)[OF that i])
  have "0 < ?n" using starts(1)[OF i] by (simp add: startsAt_def)
  obtain m where m: "m \<in> ?A" "viewNumber m = v'" "cmType m = CommitType" using k by (auto simp: committed_def)
  obtain j c where "snState (cl ! j) = Some c" and j: "j < n" "m \<in> spoken c" "lockOk (placeIn cl j (pl j)) c" "said (placeIn cl j (pl j)) c = ?A"
    by (rule who_spoke[OF a m(1) m(1) refl]) blast
  have "plM (placeIn cl j (pl j)) \<le> card ?T" using j m by (auto simp: lockOk_def)
  then have T: "plM (pl i) \<le> card ?T" using vs[OF j(1)] by (simp add: plM_def)
  have "?T \<subseteq> {..<?n}"
  proof
    fix x
    assume "x \<in> ?T"
    then obtain m' where m': "m' \<in> ?A" "unat (validatorIndex m') = x" by (auto simp: prepared_def)
    obtain j' where "j' < n" "unat (validatorIndex m') < length (plValidators (pl j'))"
      by (rule who_spoke[OF a m'(1) m'(1) refl]) blast
    then show "x \<in> {..<?n}" using vs m'(2) by simp
  qed
  then obtain x where x: "x \<in> S" "x \<in> ?T"
    by (rule two_quorums[OF S(1) _ \<open>0 < ?n\<close> S(2)[unfolded plM_def] T[unfolded plM_def]])
  obtain u where u: "u \<le> v" "committed ?A x u" using b[OF x(1)] unfolding backed_def by blast
  obtain m1 where m1: "m1 \<in> ?A" "unat (validatorIndex m1) = x" "viewNumber m1 = u" "cmType m1 = CommitType"
    using u(2) by (auto simp: committed_def)
  obtain m2 where m2: "m2 \<in> ?A" "unat (validatorIndex m2) = x" "viewNumber m2 = v'"
    using x(2) by (auto simp: prepared_def)
  have x12: "unat (validatorIndex m1) = unat (validatorIndex m2)" using m1(2) m2(2) by simp
  obtain j3 c3 where "snState (cl ! j3) = Some c3" and 3: "m1 \<in> spoken c3" "m2 \<in> spoken c3" "ownOk (placeIn cl j3 (pl j3)) c3" "lockOk (placeIn cl j3 (pl j3)) c3"
    by (rule who_spoke[OF a m1(1) m2(1) x12]) blast
  have "v' \<le> ViewNumber c3" using 3(2,3) m2(3) by (auto simp: ownOk_def)
  moreover have "u = ViewNumber c3" using 3(1,4) m1(3,4) unfolding lockOk_def by blast
  ultimately show ?thesis using u(1) by simp
qed

lemma one_decision:
  assumes a: "allHonest n pl cl"
    and i: "i < n" "snState (cl ! i) = Some c" "reachable (cfg i) c" "EProcessBlock b True \<in> set (heightLog (log c))"
    and j: "j < n" "snState (cl ! j) = Some d" "reachable (cfg j) d" "EProcessBlock b' True \<in> set (heightLog (log d))"
  shows "ViewNumber d = ViewNumber c
    \<and> (\<exists>p. agrees p c \<and> agrees p d \<and> plHeader (pl i) p b \<and> plHeader (pl i) p b')"
proof -
  let ?A = "spokenBy UNIV cl"
  obtain S p where S: "S \<subseteq> {..<length (plValidators (pl i))}" "plM (pl i) \<le> card S"
      "\<And>x. x \<in> S \<Longrightarrow> backed ?A x (ViewNumber c)"
    and p: "proposed ?A (plPrimary (pl i) (ViewNumber c)) (ViewNumber c) p" "agrees p c" "plHeader (pl i) p b"
    by (rule accepted_facts[OF a i]) blast
  obtain T q where T: "T \<subseteq> {..<length (plValidators (pl j))}" "plM (pl j) \<le> card T"
      "\<And>x. x \<in> T \<Longrightarrow> backed ?A x (ViewNumber d)"
    and q: "proposed ?A (plPrimary (pl j) (ViewNumber d)) (ViewNumber d) q" "agrees q d" "plHeader (pl j) q b'"
    by (rule accepted_facts[OF a j]) blast
  have pos: "0 < plM (pl k)" if "k < n" for k
    using starts(1)[OF that] by (cases "plValidators (pl k)") (auto simp: startsAt_def plM_def)
  have "S \<noteq> {}" "T \<noteq> {}" using S(2) T(2) pos[OF i(1)] pos[OF j(1)] by auto
  then obtain k l where "committed ?A k (ViewNumber c)" "committed ?A l (ViewNumber d)"
    using S(3) T(3) unfolding backed_def by blast
  then have v: "ViewNumber d = ViewNumber c"
    using no_later_commit[OF a i(1) S] no_later_commit[OF a j(1) T] by (simp add: order_antisym)
  obtain m where m: "m \<in> ?A" "unat (validatorIndex m) = plPrimary (pl i) (ViewNumber c)"
    "viewNumber m = ViewNumber c" "cmType m = PrepareRequestType" "body m = PrepareRequestMsg p"
    using p(1) unfolding proposed_def by blast
  obtain m' where m': "m' \<in> ?A" "unat (validatorIndex m') = plPrimary (pl j) (ViewNumber d)"
    "viewNumber m' = ViewNumber d" "cmType m' = PrepareRequestType" "body m' = PrepareRequestMsg q"
    using q(1) unfolding proposed_def by blast
  have mm: "unat (validatorIndex m) = unat (validatorIndex m')"
    using m(2) m'(2) v same(1)[OF i(1) j(1)] by simp
  obtain k e where "snState (cl ! k) = Some e" and e: "m \<in> spoken e" "m' \<in> spoken e" "requestsOk e"
    by (rule who_spoke[OF a m(1) m'(1) mm]) blast
  have "body m' = body m"
    by (rule requestsOkD(2)[OF e(3,1,2) m(4) m'(4)]) (simp add: m(3) m'(3) v)
  then have "q = p" using m(5) m'(5) by simp
  then show ?thesis using v p(2,3) q(2,3) same(2)[OF j(1) i(1)] by auto
qed

end

end
