(* ===== verification/Runs.thy ===== *)
theory Runs
  imports Simulation
begin

section \<open>Runs of a cluster\<close>

text \<open>
  The event loops of \<open>internal/simulation\<close> as a function: given which node starts, times out or
  takes a message next, \<open>simEvent\<close> computes the next cluster, or nothing when there is no such event
  or the call stops. It makes exactly the steps of \<open>simStep\<close>.
\<close>

datatype event = EvStart nat | EvTimeout nat | EvMessage nat

text \<open>A call of node \<open>i\<close> runs to its end and its broadcasts are sent.\<close>

definition finish ::
    "nat \<Rightarrow> payload list \<Rightarrow> ('tx, 'b, 'pb, 'pub, 'priv) dbft \<Rightarrow> stop + ('tx, 'b, 'pb, 'pub, 'priv) dbft
       \<Rightarrow> ('tx, 'b, 'pb, 'pub, 'priv) simNode list \<Rightarrow> ('tx, 'b, 'pb, 'pub, 'priv) simNode list option" where
  "finish i ms c r cl =
     (case r of Inl e \<Rightarrow> None
      | Inr d \<Rightarrow> Some (sendToOthers i (broadcastsOf c d) (cl[i := \<lparr>snState = Some d, snMessages = ms\<rparr>])))"

fun simEvent ::
    "(nat \<Rightarrow> ('tx, 'b, 'pb, 'pub, 'priv) config) \<Rightarrow> event \<Rightarrow> ('tx, 'b, 'pb, 'pub, 'priv) simNode list
       \<Rightarrow> ('tx, 'b, 'pb, 'pub, 'priv) simNode list option" where
  "simEvent cfg (EvStart i) cl =
     (if i < length cl then
        (case snState (cl ! i) of
           Some _ \<Rightarrow> None
         | None \<Rightarrow> finish i (snMessages (cl ! i)) (newDbft (cfg i)) (exec (cfg i) (CallStart 0) (newDbft (cfg i))) cl)
      else None)"
| "simEvent cfg (EvTimeout i) cl =
     (if i < length cl then
        (case snState (cl ! i) of
           None \<Rightarrow> None
         | Some c \<Rightarrow> finish i (snMessages (cl ! i)) c
             (exec (cfg i) (CallTimeout (timerHeight (log c)) (timerView (log c))) c) cl)
      else None)"
| "simEvent cfg (EvMessage i) cl =
     (if i < length cl then
        (case snState (cl ! i) of
           None \<Rightarrow> None
         | Some c \<Rightarrow>
             (case snMessages (cl ! i) of
                [] \<Rightarrow> None
              | m # ms \<Rightarrow> finish i ms c (exec (cfg i) (CallReceive m) c) cl))
      else None)"

fun simRun ::
    "(nat \<Rightarrow> ('tx, 'b, 'pb, 'pub, 'priv) config) \<Rightarrow> event list \<Rightarrow> ('tx, 'b, 'pb, 'pub, 'priv) simNode list
       \<Rightarrow> ('tx, 'b, 'pb, 'pub, 'priv) simNode list option" where
  "simRun cfg [] cl = Some cl"
| "simRun cfg (e # es) cl = (case simEvent cfg e cl of None \<Rightarrow> None | Some cl' \<Rightarrow> simRun cfg es cl')"

lemma node_eq:
  "n\<lparr>snState := s\<rparr> = \<lparr>snState = s, snMessages = snMessages n\<rparr>"
  "n\<lparr>snState := s, snMessages := ms\<rparr> = \<lparr>snState = s, snMessages = ms\<rparr>"
  for n :: "('tx, 'b, 'pb, 'pub, 'priv) simNode"
  by simp_all

lemma finish_Some:
  "finish i ms c r cl = Some cl' \<longleftrightarrow>
     (\<exists>d. r = Inr d \<and> cl' = sendToOthers i (broadcastsOf c d) (cl[i := \<lparr>snState = Some d, snMessages = ms\<rparr>]))"
  by (auto simp: finish_def split: sum.split)

lemma simEvent_step:
  "simEvent cfg e cl = Some cl' \<Longrightarrow> simStep cfg cl cl'"
proof (induction cfg e cl rule: simEvent.induct)
  case (1 cfg i cl)
  then obtain d where d: "i < length cl" "snState (cl ! i) = None" "exec (cfg i) (CallStart 0) (newDbft (cfg i)) = Inr d"
    and "cl' = sendToOthers i (broadcastsOf (newDbft (cfg i)) d) (cl[i := \<lparr>snState = Some d, snMessages = snMessages (cl ! i)\<rparr>])"
    by (auto simp: finish_Some split: if_split_asm option.split_asm)
  then show ?case using sim_start[where cfg = cfg, OF d] by (simp add: node_eq)
next
  case (2 cfg i cl)
  then obtain c d where d: "i < length cl" "snState (cl ! i) = Some c"
      "exec (cfg i) (CallTimeout (timerHeight (log c)) (timerView (log c))) c = Inr d"
    and "cl' = sendToOthers i (broadcastsOf c d) (cl[i := \<lparr>snState = Some d, snMessages = snMessages (cl ! i)\<rparr>])"
    by (auto simp: finish_Some split: if_split_asm option.split_asm)
  then show ?case using sim_timeout[where cfg = cfg, OF d] by (simp add: node_eq)
next
  case (3 cfg i cl)
  then obtain c m ms d where d: "i < length cl" "snState (cl ! i) = Some c" "snMessages (cl ! i) = m # ms"
      "exec (cfg i) (CallReceive m) c = Inr d"
    and "cl' = sendToOthers i (broadcastsOf c d) (cl[i := \<lparr>snState = Some d, snMessages = ms\<rparr>])"
    by (auto simp: finish_Some split: if_split_asm option.split_asm list.split_asm)
  then show ?case using sim_message[where cfg = cfg, OF d] by (simp add: node_eq)
qed

lemma simStep_event: "simStep cfg cl cl' \<Longrightarrow> \<exists>e. simEvent cfg e cl = Some cl'"
proof (induction rule: simStep.induct)
  case (sim_start i cl d)
  then show ?case by (intro exI[of _ "EvStart i"]) (simp add: finish_def node_eq)
next
  case (sim_timeout i cl c d)
  then show ?case by (intro exI[of _ "EvTimeout i"]) (simp add: finish_def node_eq)
next
  case (sim_message i cl c m ms d)
  then show ?case by (intro exI[of _ "EvMessage i"]) (simp add: finish_def node_eq)
qed

lemma simRun_steps: "simRun cfg es cl = Some cl' \<Longrightarrow> (simStep cfg)\<^sup>*\<^sup>* cl cl'"
proof (induction es arbitrary: cl)
  case (Cons e es)
  then obtain t where t: "simEvent cfg e cl = Some t" "simRun cfg es t = Some cl'"
    by (auto split: option.split_asm)
  from simEvent_step[OF t(1)] Cons.IH[OF t(2)] show ?case by (rule converse_rtranclp_into_rtranclp)
qed simp

end
