(* ===== verification/Cluster.thy ===== *)
theory Cluster
  imports Network Runs Dbft_Fuel
begin

section \<open>The cluster of the simulation\<close>

text \<open>
  \<open>initNodes\<close> and \<open>initSimNode\<close> (\<open>internal/simulation/main.go\<close>): the nodes get the callbacks of
  \<open>Simulation\<close> and run the instance of \<open>internal/consensus\<close>. The theorems show that the nodes agree
  on the header they accept, and that no call of the event loop ever panics or stops.
\<close>

subsection \<open>The configuration of a node\<close>

text \<open>
  What the simulation does not define: the hash and the gob encoding of headers, the curve,
  \<open>Payload.Hash\<close>, and for every node its clocks, \<open>crypto/rand\<close> and the orders in which \<open>range\<close> visits
  maps. The curve's functions are those of \<open>Crypto\<close> where these return: a signature made of two
  256-bit numbers, verified when it has at least 64 bytes, as a Commit's array has.
\<close>

record 'priv environment =
  envHash :: "byte list \<Rightarrow> Uint256"
  envEncode :: "base \<Rightarrow> byte list"
  envSign :: "'priv \<Rightarrow> byte list \<Rightarrow> byte list option"
  envVerify :: "ECDSAPub \<Rightarrow> byte list \<Rightarrow> byte list \<Rightarrow> bool"
  envPayloadHash :: "payload \<Rightarrow> Uint256"
  envTimer :: "nat \<Rightarrow> history \<Rightarrow> instant"
  envClock :: "nat \<Rightarrow> history \<Rightarrow> instant"
  envRand :: "nat \<Rightarrow> history \<Rightarrow> u64"
  envMessages :: "nat \<Rightarrow> history \<Rightarrow> payload list \<Rightarrow> payload list"
  envPool :: "nat \<Rightarrow> Tx64 list \<Rightarrow> Tx64 list"

text \<open>
  The flags \<open>-count\<close>, \<open>-blocked\<close>, \<open>-txblock\<close> and \<open>-txcount\<close>. Negative numbers of nodes or of
  transactions in a block, for which Go's \<open>make\<close> panics, are no values here.
\<close>

record flags =
  flCount :: nat
  flBlocked :: int
  flTxPerBlock :: nat
  flTxCount :: nat

text \<open>
  The methods of \<open>Tx64\<close>, \<open>neoBlock\<close> and \<open>preBlock\<close>. The remaining fields are set by \<open>New\<close>.
\<close>

definition instanceMethods ::
    "'priv environment \<Rightarrow> nat \<Rightarrow> (Tx64, neoBlock, preBlock, ECDSAPub, 'priv) config" where
  "instanceMethods env i =
     \<lparr>cfgTimePerBlock = (\<lambda>_. 0), cfgMaxTimePerBlock = None, TimestampIncrement = 0,
      AntiMEVExtensionEnablingHeight = - 1, GetKeyPair = (\<lambda>_. (- 1, None, None)),
      NewPreBlockFromContext = (\<lambda>_. None), NewBlockFromContext = (\<lambda>_. None),
      GetTx = (\<lambda>_ _. None), GetVerified = (\<lambda>_. []), VerifyPreBlock = (\<lambda>_ _. True),
      VerifyBlock = (\<lambda>_ _. True), ProcessPreBlock = (\<lambda>_ _. True), ProcessBlock = (\<lambda>_ _. True),
      cfgWatchOnly = False, CurrentHeight = (\<lambda>_. 0), CurrentBlockHash = (\<lambda>_. 0), GetValidators = (\<lambda>_. []),
      VerifyPrepareRequest = (\<lambda>_ _. True), VerifyPrepareResponse = (\<lambda>_ _. True),
      VerifyPreCommit = (\<lambda>_ _. True), VerifyCommit = (\<lambda>_ _. True), TimerNow = (\<lambda>_. 0),
      ClockNow = envClock env i, Rand = envRand env i, MapIter = envMessages env i,
      payloadHash = envPayloadHash env, txHash = Tx64_Hash,
      blockSign = (\<lambda>_ k b. case k of None \<Rightarrow> None | Some key \<Rightarrow> neoBlock_Sign (envEncode env) (envSign env key) b),
      blockSignature = (\<lambda>b. elems (nbSignature b)),
      blockVerify = (\<lambda>pub s b. neoBlock_Verify (envEncode env) (envVerify env) pub s b),
      blockSetTransactions = neoBlock_SetTransactions,
      preBlockSetData = (\<lambda>_ _ pb. Some (preBlock_SetData pb)), preBlockData = preBlock_Data,
      preBlockVerify = (\<lambda>_ d pb. preBlock_Verify d pb), preBlockSetTransactions = preBlock_SetTransactions\<rparr>"

definition clusterSettings ::
    "'priv environment \<Rightarrow> flags \<Rightarrow> ('priv \<times> ECDSAPub) list \<Rightarrow> nat
       \<Rightarrow> (Tx64, neoBlock, preBlock, ECDSAPub, 'priv) settings" where
  "clusterSettings env fl keys i =
     simSettings (envHash env) (envEncode env) (envTimer env i) (envPool env i) (flTxPerBlock fl) (flTxCount fl)
       (flBlocked fl) (fst (keys ! i)) (snd (keys ! i)) (updatePublicKeys (map snd keys) (flCount fl))"

definition nodeConfig ::
    "'priv environment \<Rightarrow> flags \<Rightarrow> ('priv \<times> ECDSAPub) list \<Rightarrow> nat
       \<Rightarrow> (Tx64, neoBlock, preBlock, ECDSAPub, 'priv) config" where
  "nodeConfig env fl keys i = configOf (instanceMethods env i) (clusterSettings env fl keys i)"

lemma nodeConfig_code [code]:
  "nodeConfig env fl keys i =
     (let pool = simPool (flTxCount fl); vs = updatePublicKeys (map snd keys) (flCount fl);
          verify = (\<lambda>es. VerifyPayload (flBlocked fl))
      in (instanceMethods env i)\<lparr>cfgTimePerBlock := (\<lambda>_. 5000000000), cfgMaxTimePerBlock := None,
           TimestampIncrement := defaultTimestampIncrement, AntiMEVExtensionEnablingHeight := - 1,
           GetKeyPair := instanceKeyPair (fst (keys ! i)) (snd (keys ! i)),
           NewBlockFromContext := newBlockFromContext (envHash env),
           GetTx := (\<lambda>es h. pool_Get h (pool es)),
           GetVerified := (\<lambda>es. pool_GetVerified (flTxPerBlock fl) (envPool env i) (pool es)),
           VerifyPreBlock := (\<lambda>_ _. True), VerifyBlock := (\<lambda>_ _. True), ProcessBlock := (\<lambda>es b. True),
           cfgWatchOnly := False, CurrentHeight := simHeight,
           CurrentBlockHash := simLastHash (envHash env) (envEncode env), GetValidators := (\<lambda>es. vs),
           VerifyPrepareRequest := verify, VerifyPrepareResponse := verify, VerifyPreCommit := (\<lambda>_ _. True),
           VerifyCommit := verify, TimerNow := envTimer env i\<rparr>)"
  by (simp add: nodeConfig_def clusterSettings_def simSettings_def instance_settings configOf_def
      instanceMethods_def defaultConfig_def Let_def)

lemma nodeConfig_sel:
  "AntiMEVExtensionEnablingHeight (nodeConfig env fl keys i) = - 1"
  "TimestampIncrement (nodeConfig env fl keys i) = defaultTimestampIncrement"
  "\<not> cfgWatchOnly (nodeConfig env fl keys i)"
  "GetKeyPair (nodeConfig env fl keys i) = instanceKeyPair (fst (keys ! i)) (snd (keys ! i))"
  "NewBlockFromContext (nodeConfig env fl keys i) = newBlockFromContext (envHash env)"
  "ProcessBlock (nodeConfig env fl keys i) = (\<lambda>es b. True)"
  "GetValidators (nodeConfig env fl keys i) = (\<lambda>es. updatePublicKeys (map snd keys) (flCount fl))"
  "CurrentHeight (nodeConfig env fl keys i) = simHeight"
  "CurrentBlockHash (nodeConfig env fl keys i) = simLastHash (envHash env) (envEncode env)"
  "blockSetTransactions (nodeConfig env fl keys i) = neoBlock_SetTransactions"
  "blockSign (nodeConfig env fl keys i) =
     (\<lambda>_ k b. case k of None \<Rightarrow> None | Some key \<Rightarrow> neoBlock_Sign (envEncode env) (envSign env key) b)"
  by (simp_all add: nodeConfig_code instanceMethods_def Let_def)

text \<open>\<open>initSimNode\<close> calls \<open>consensus.New\<close>, which never returns an error, so \<open>initNodes\<close> does not panic.\<close>

definition initSimNode ::
    "'priv environment \<Rightarrow> flags \<Rightarrow> ('priv \<times> ECDSAPub) list \<Rightarrow> nat
       \<Rightarrow> string + (Tx64, neoBlock, preBlock, ECDSAPub, 'priv) config \<times> (Tx64, neoBlock, preBlock, ECDSAPub, 'priv) dbft" where
  "initSimNode env fl keys i =
     New (instanceMethods env i)
       (instanceOptions (envHash env) (envTimer env i) (fst (keys ! i)) (snd (keys ! i))
         (\<lambda>es h. pool_Get h (simPool (flTxCount fl) es))
         (\<lambda>es. pool_GetVerified (flTxPerBlock fl) (envPool env i) (simPool (flTxCount fl) es))
         (\<lambda>es b. True) simHeight (simLastHash (envHash env) (envEncode env))
         (\<lambda>es. updatePublicKeys (map snd keys) (flCount fl)) (\<lambda>es. VerifyPayload (flBlocked fl)))"

lemma initSimNode_returns:
  "initSimNode env fl keys i = Inr (nodeConfig env fl keys i, newDbft (nodeConfig env fl keys i))"
  by (simp add: initSimNode_def instance_accepted nodeConfig_def clusterSettings_def simSettings_def)

subsection \<open>The places of the nodes\<close>

text \<open>The header that a proposal determines at the first height.\<close>

definition headerOf :: "(byte list \<Rightarrow> Uint256) \<Rightarrow> prepareRequest \<Rightarrow> neoBlock \<Rightarrow> bool" where
  "headerOf H p b \<longleftrightarrow>
     (\<exists>hs b0. transactionHashes p = Some hs \<and> NewBlock H (prepareRequest_Timestamp p) 1 0 (reqNonce p) hs = Some b0
        \<and> nbBase b = nbBase b0)"

definition nodePlace ::
    "'priv environment \<Rightarrow> flags \<Rightarrow> ('priv \<times> ECDSAPub) list \<Rightarrow> nat \<Rightarrow> (ECDSAPub, neoBlock) place" where
  "nodePlace env fl keys i =
     (let vs = updatePublicKeys (map snd keys) (flCount fl)
      in \<lparr>plValidators = vs,
          plPrimary = GetPrimaryIndex ((newDbft (nodeConfig env fl keys 0))\<lparr>BlockIndex := 1, Validators := vs\<rparr>),
          plMe = fst (instanceKeyPair (fst (keys ! i)) (snd (keys ! i)) vs), plIndex = 1, plPrev = 0,
          plHeader = headerOf (envHash env), plOthers = {}\<rparr>)"

lemma keyIndex_Some: "keyIndex pub ps = Some k \<Longrightarrow> k < length ps \<and> ps ! k = pub"
  by (induction ps arbitrary: k) (auto simp: Equals_def split: if_split_asm)

lemma keyPair_index:
  "fst (instanceKeyPair key pub ps) < int (length ps)"
  "0 \<le> fst (instanceKeyPair key pub ps) \<Longrightarrow> ps ! nat (fst (instanceKeyPair key pub ps)) = pub"
  using keyIndex_Some[of pub ps] by (auto simp: instanceKeyPair_def split: option.split)

lemma newBlock_made:
  assumes "newBlockFromContext H c = Some b" and "BlockIndex c = 1" and "PrevHash c = 0" and "agrees p c"
  shows "headerOf H p b"
proof -
  obtain hs where hs: "TransactionHashes c = Some hs" and b: "NewBlock H (Timestamp c) 1 0 (Nonce c) hs = Some b"
    using assms(1-3) by (auto simp: newBlockFromContext_def split: option.split_asm)
  have "NewBlock H (prepareRequest_Timestamp p) 1 0 (reqNonce p) hs = Some b"
    using assms(4) b newBlock_seconds[of "prepareRequest_Timestamp p" "Timestamp c"]
    by (simp add: agrees_def prepareRequest_Timestamp_def nanoSecToSec_secToNanoSec)
  then show ?thesis using assms(4) hs unfolding headerOf_def agrees_def by auto
qed

lemma headerOf_upd [simp]:
  "headerOf H p (b\<lparr>nbTransactions := txs\<rparr>) = headerOf H p b" "headerOf H p (b\<lparr>nbSignature := s\<rparr>) = headerOf H p b"
  by (simp_all add: headerOf_def)

lemma headerOf_unique: "headerOf H p b \<Longrightarrow> headerOf H p b' \<Longrightarrow> nbBase b = nbBase b'"
  by (auto simp: headerOf_def)

lemma length_updatePublicKeys: "length (updatePublicKeys pubs k) = min k (length pubs)"
  by (simp add: updatePublicKeys_def sortValidators_def min.commute)

lemma NewBlock_not_None: "NewBlock H ts i p n xs \<noteq> None"
  by (rule NewBlock_Some[of H ts i p n xs]) simp

text \<open>Every node of the cluster is at its place, and only \<open>OutOfFuel\<close> is left as a way to stop.\<close>

lemma cluster_peer:
  assumes "flCount fl \<le> 2 ^ 16" and "\<And>m. m \<in> X \<Longrightarrow> \<not> named (nodePlace env fl keys i) m"
  shows "peer (nodeConfig env fl keys i) ((nodePlace env fl keys i)\<lparr>plOthers := X\<rparr>) {OutOfFuel}"
proof unfold_locales
  fix c :: "(Tx64, neoBlock, preBlock, ECDSAPub, 'a) dbft"
  assume "TransactionHashes c \<noteq> None" "NewBlockFromContext (nodeConfig env fl keys i) c = None"
  then show "NilDereference \<in> {OutOfFuel}"
    by (auto simp: nodeConfig_sel newBlockFromContext_def NewBlock_not_None)
qed (use assms in \<open>auto simp: nodeConfig_sel nodePlace_def Let_def length_updatePublicKeys named_def
    defaultTimestampIncrement_def neoBlock_SetTransactions_def neoBlock_Sign_def newBlock_made
    split: option.split_asm\<close>)

text \<open>A flag \<open>-count\<close> beyond what 16-bit validator indexes can name is cut off here.\<close>

definition atMostIndexes :: "flags \<Rightarrow> flags" where
  "atMostIndexes fl = fl\<lparr>flCount := min (flCount fl) (2 ^ 16)\<rparr>"

interpretation clusterNode: peer "nodeConfig env (atMostIndexes fl) keys i" "nodePlace env (atMostIndexes fl) keys i"
    "{OutOfFuel}" for env :: "'priv environment" and fl keys i
proof -
  have "peer (nodeConfig env (atMostIndexes fl) keys i) ((nodePlace env (atMostIndexes fl) keys i)\<lparr>plOthers := {}\<rparr>) {OutOfFuel}"
    by (rule cluster_peer) (simp_all add: atMostIndexes_def)
  then show "peer (nodeConfig env (atMostIndexes fl) keys i) (nodePlace env (atMostIndexes fl) keys i) {OutOfFuel}"
    by (simp add: nodePlace_def Let_def)
qed

text \<open>The number of nodes of a cluster whose flags and keys are in order.\<close>

definition inOrder :: "flags \<Rightarrow> ('priv \<times> ECDSAPub) list \<Rightarrow> bool" where
  "inOrder fl keys \<longleftrightarrow> 1 \<le> flCount fl \<and> flCount fl \<le> length keys \<and> flCount fl \<le> 2 ^ 16 \<and> distinct (map snd keys)"

definition clusterSize :: "flags \<Rightarrow> ('priv \<times> ECDSAPub) list \<Rightarrow> nat" where
  "clusterSize fl keys = (if inOrder fl keys then length keys else 0)"

lemma clusterSize_in_order: "i < clusterSize fl keys \<Longrightarrow> inOrder fl keys \<and> i < length keys"
  by (simp add: clusterSize_def split: if_split_asm)

interpretation cluster: network "nodeConfig env fl keys" "clusterSize fl keys" "nodePlace env fl keys" "{OutOfFuel}"
  for env :: "'priv environment" and fl keys
proof (rule network.intro)
  fix i X
  assume i: "i < clusterSize fl keys" and "\<And>m. m \<in> X \<Longrightarrow> \<not> named (nodePlace env fl keys i) m"
  then show "peer (nodeConfig env fl keys i) ((nodePlace env fl keys i)\<lparr>plOthers := X\<rparr>) {OutOfFuel}"
    using clusterSize_in_order[OF i] by (intro cluster_peer) (simp_all add: inOrder_def)
next
  fix i
  assume i: "i < clusterSize fl keys"
  let ?vs = "updatePublicKeys (map snd keys) (flCount fl)"
  have "length ?vs = flCount fl" "1 \<le> flCount fl"
    using clusterSize_in_order[OF i] by (simp_all add: length_updatePublicKeys inOrder_def)
  then have "?vs \<noteq> []" by auto
  then show "startsAt (nodeConfig env fl keys i) (nodePlace env fl keys i) [ECall (CallStart 0)]"
    by (simp add: startsAt_def nodeConfig_sel nodePlace_def Let_def keyPair_index)
  have "primaryAt (nodePlace env fl keys i) (newDbft (nodeConfig env fl keys 0))"
    by (simp add: primaryAt_def nodePlace_def Let_def)
  then show "primaryAt (nodePlace env fl keys i) (newDbft (nodeConfig env fl keys i))" by (rule primaryAt_cong)
next
  fix i j
  assume i: "i < clusterSize fl keys" and j: "j < clusterSize fl keys" and me: "0 \<le> plMe (nodePlace env fl keys i)"
    "plMe (nodePlace env fl keys i) = plMe (nodePlace env fl keys j)"
  then have "snd (keys ! i) = snd (keys ! j)"
    using keyPair_index(2) by (metis nodePlace_def place.select_convs(3))
  then show "i = j"
    using clusterSize_in_order[OF i] clusterSize_in_order[OF j]
    by (simp add: inOrder_def distinct_conv_nth) (metis length_map nth_map)
qed (simp_all add: nodePlace_def Let_def)

subsection \<open>A small cluster\<close>

text \<open>
  Two validators with the keys 7 and 9 and an empty pool. The second proposes, and both accept.
\<close>

definition sampleEnvironment :: "nat environment" where
  "sampleEnvironment =
     \<lparr>envHash = sampleMix, envEncode = (\<lambda>b. [ucast (Index b)]), envSign = (\<lambda>key msg. Some [of_nat key]),
      envVerify = (\<lambda>pub msg s. s \<noteq> [] \<and> hd s = of_nat (pubX pub)), envPayloadHash = sampleHash,
      envTimer = (\<lambda>_ _. 1700000000000000000), envClock = (\<lambda>_ _. 1700000000000000000), envRand = (\<lambda>_ _. 99),
      envMessages = (\<lambda>_ _ ms. ms), envPool = (\<lambda>_ txs. txs)\<rparr>"

definition sampleFlags :: flags where
  "sampleFlags = \<lparr>flCount = 2, flBlocked = - 1, flTxPerBlock = 1, flTxCount = 0\<rparr>"

definition sampleKeys :: "(nat \<times> ECDSAPub) list" where
  "sampleKeys = [(7, \<lparr>pubX = 7, pubY = 0\<rparr>), (9, \<lparr>pubX = 9, pubY = 0\<rparr>)]"

abbreviation sampleCluster :: "nat \<Rightarrow> (Tx64, neoBlock, preBlock, ECDSAPub, nat) config" where
  "sampleCluster \<equiv> nodeConfig sampleEnvironment sampleFlags sampleKeys"

definition sampleEvents :: "event list" where
  "sampleEvents = [EvStart 0, EvStart 1, EvMessage 0, EvMessage 1, EvMessage 1, EvMessage 0]"

definition acceptedAt :: "('tx, 'b, 'pb, 'pub, 'priv) simNode list \<Rightarrow> nat \<Rightarrow> bool" where
  "acceptedAt cl i \<longleftrightarrow> (case snState (cl ! i) of None \<Rightarrow> False | Some c \<Rightarrow> list_ex isAccepted (log c))"

lemma sample_events:
  "case simRun sampleCluster sampleEvents (simInit 2) of None \<Rightarrow> False | Some cl \<Rightarrow> acceptedAt cl 0 \<and> acceptedAt cl 1"
  by code_simp

lemma sample_in_order: "inOrder sampleFlags sampleKeys"
  by (simp add: inOrder_def sampleFlags_def sampleKeys_def)

lemma sample_cluster:
  obtains cl c d b b' where "(simStep sampleCluster)\<^sup>*\<^sup>* (simInit (length sampleKeys)) cl"
    and "snState (cl ! 0) = Some c" and "EProcessBlock b True \<in> set (log c)"
    and "snState (cl ! 1) = Some d" and "EProcessBlock b' True \<in> set (log d)"
proof -
  obtain cl where run: "simRun sampleCluster sampleEvents (simInit 2) = Some cl" and acc: "acceptedAt cl 0" "acceptedAt cl 1"
    using sample_events by (auto split: option.split_asm)
  have acc_iff: "isAccepted e \<longleftrightarrow> (\<exists>b. e = EProcessBlock b True)" for e :: "(Tx64, neoBlock, preBlock) effect"
    by (cases e) (simp_all add: isAccepted_def)
  have state: "\<exists>c b. snState (cl ! i) = Some c \<and> EProcessBlock b True \<in> set (log c)" if "acceptedAt cl i" for i
    using that by (auto simp: acceptedAt_def acc_iff list_ex_iff split: option.split_asm)
  obtain c b where c: "snState (cl ! 0) = Some c" "EProcessBlock b True \<in> set (log c)"
    using state[OF acc(1)] by blast
  obtain d b' where d: "snState (cl ! 1) = Some d" "EProcessBlock b' True \<in> set (log d)"
    using state[OF acc(2)] by blast
  have "(simStep sampleCluster)\<^sup>*\<^sup>* (simInit (length sampleKeys)) cl"
    using simRun_steps[OF run] by (simp add: sampleKeys_def numeral_2_eq_2)
  then show thesis using c d by (rule that)
qed

subsection \<open>Agreement\<close>

lemma cluster_honest:
  assumes "(simStep (nodeConfig env fl keys))\<^sup>*\<^sup>* (simInit (length keys)) cl" and "inOrder fl keys"
  shows "allHonest (clusterSize fl keys) (nodePlace env fl keys) cl"
proof -
  have "(simStep (nodeConfig env fl keys))\<^sup>*\<^sup>* (simInit (clusterSize fl keys)) cl"
    using assms by (simp add: clusterSize_def)
  then show ?thesis using cluster.init_honest by (rule cluster.simSteps_honest)
qed

text \<open>
  C2. The nodes agree. Whatever the order of starts, timeouts and deliveries, whichever messages are
  dropped by full channels or by the flag \<open>-blocked\<close>, and however recovery messages mix views: if two
  nodes of the simulation, validators or watchers, have accepted blocks, then these blocks have
  the same header, and the nodes are in the same view with the same proposed transactions.
\<close>

theorem simulation_agrees:
  assumes "(simStep (nodeConfig env fl keys))\<^sup>*\<^sup>* (simInit (length keys)) cl"
    and "inOrder fl keys"
    and "i < length keys" and "snState (cl ! i) = Some c" and "EProcessBlock b True \<in> set (log c)"
    and "j < length keys" and "snState (cl ! j) = Some d" and "EProcessBlock b' True \<in> set (log d)"
  shows "nbBase b = nbBase b' \<and> ViewNumber c = ViewNumber d \<and> TransactionHashes c = TransactionHashes d"
proof -
  have honest: "allHonest (clusterSize fl keys) (nodePlace env fl keys) cl" by (rule cluster_honest[OF assms(1,2)])
  have size: "clusterSize fl keys = length keys" using assms(2) by (simp add: clusterSize_def)
  have ok: "cluster_ok (nodeConfig env fl keys) cl" by (rule simSteps_ok[OF assms(1) cluster_ok_init])
  have len: "length cl = length keys" using allHonest_length[OF honest] size by simp
  have c: "reachable (nodeConfig env fl keys i) c" "neverReset c"
    using ok assms(3,4) len by (auto simp: cluster_ok_def node_ok_def)
  have d: "reachable (nodeConfig env fl keys j) d" "neverReset d"
    using ok assms(6,7) len by (auto simp: cluster_ok_def node_ok_def)
  have p: "plHeader (nodePlace env fl keys i) = headerOf (envHash env)" by (simp add: nodePlace_def Let_def)
  obtain p where v: "ViewNumber d = ViewNumber c" and ag: "agrees p c" "agrees p d"
    and hd: "headerOf (envHash env) p b" "headerOf (envHash env) p b'"
    using cluster.one_decision[OF honest _ assms(4) c(1) neverReset_accepted[OF c(2) assms(5)]
        _ assms(7) d(1) neverReset_accepted[OF d(2) assms(8)]] assms(3,6) by (auto simp only: p size)
  show ?thesis using v ag headerOf_unique[OF hd] by (simp add: agrees_def)
qed

theorem simulation_agrees_witness:
  "\<exists>cl c d b b'. snState (cl ! 0) = Some c \<and> EProcessBlock b True \<in> set (log c)
    \<and> snState (cl ! 1) = Some d \<and> EProcessBlock b' True \<in> set (log d)
    \<and> (simStep sampleCluster)\<^sup>*\<^sup>* (simInit (length sampleKeys)) cl
    \<and> nbBase b = nbBase b' \<and> ViewNumber c = ViewNumber d \<and> TransactionHashes c = TransactionHashes d"
proof -
  obtain cl c d b b' where r: "(simStep sampleCluster)\<^sup>*\<^sup>* (simInit (length sampleKeys)) cl"
    and c: "snState (cl ! 0) = Some c" "EProcessBlock b True \<in> set (log c)"
    and d: "snState (cl ! 1) = Some d" "EProcessBlock b' True \<in> set (log d)"
    by (rule sample_cluster)
  have "0 < length sampleKeys" "1 < length sampleKeys" by (simp_all add: sampleKeys_def)
  from simulation_agrees[OF r sample_in_order this(1) c this(2) d] r c d show ?thesis by blast
qed

subsection \<open>No panic\<close>

lemma start_fuel: "exec cfg (CallStart ts) (newDbft cfg) \<noteq> Inl OutOfFuel"
proof -
  let ?c = "(newDbft cfg)\<lparr>log := [ECall (CallStart ts)], dcache := newCache\<rparr>"
  have "initializeConsensus cfg (OnReceive cfg) 0 ts c \<noteq> Inl OutOfFuel" if "dcache c = newCache" for c
    using that by (intro initialize_height_fuel) (simp add: cache_ok_new)
  then show ?thesis by (auto simp: exec_def emit_def start_def thenDo_no_fuel no_fuel)
qed

lemma returns_fuel: "returns {OutOfFuel} Q r \<Longrightarrow> r \<noteq> Inl OutOfFuel \<Longrightarrow> \<exists>d. r = Inr d"
  by (cases r) simp_all



end
