(* ===== verification/Progress.thy ===== *)
theory Progress
  imports Network Handlers Dbft_Fuel
begin

section \<open>Progress of a node\<close>

text \<open>
  What a validator does while no timer fires and nobody asks for another view: all messages are the
  first PrepareRequest, the answers to it and the Commits for it. Whatever the order in which they
  arrive, the node stores each of them, answers the request, commits as soon as it holds a quorum
  of preparations, and has its block accepted as soon as it then holds a quorum of Commits.
\<close>

subsection \<open>The messages of an undisturbed height\<close>

text \<open>The broadcasts of a history, newest first.\<close>

fun voices :: "('tx, 'b, 'pb) effect list \<Rightarrow> payload list" where
  "voices [] = []"
| "voices (e # es) = (case e of EBroadcast m \<Rightarrow> m # voices es | _ \<Rightarrow> voices es)"

definition unprocessed :: "('tx, 'b, 'pb) effect list \<Rightarrow> bool" where
  "unprocessed es \<longleftrightarrow> (\<forall>b ok. EProcessBlock b ok \<notin> set es)"

text \<open>The PrepareRequest of view 0, whose transactions have hashes in \<open>H\<close>.\<close>

definition request :: "('pub, 'b) place \<Rightarrow> Uint256 set \<Rightarrow> prepareRequest \<Rightarrow> payload \<Rightarrow> bool" where
  "request w H p R \<longleftrightarrow>
     R = NewConsensusPayload PrepareRequestType (plIndex w) (of_nat (plPrimary w 0)) 0 (PrepareRequestMsg p)
     \<and> (\<exists>hs. transactionHashes p = Some hs \<and> distinct hs \<and> set hs \<subseteq> H)"

text \<open>The preparation of validator \<open>k\<close>: the request itself or the answer to it.\<close>

definition prep ::
    "('tx, 'b, 'pb, 'pub, 'priv) config \<Rightarrow> ('pub, 'b) place \<Rightarrow> payload \<Rightarrow> nat \<Rightarrow> payload" where
  "prep cfg w R k =
     (if k = plPrimary w 0 then R
      else NewConsensusPayload PrepareResponseType (plIndex w) (of_nat k) 0
             (PrepareResponseMsg (NewPrepareResponse (payloadHash cfg R))))"

text \<open>A Commit of validator \<open>k\<close> whose signature fits every header of the proposal.\<close>

definition vote ::
    "('tx, 'b, 'pb, 'pub, 'priv) config \<Rightarrow> ('pub, 'b) place \<Rightarrow> prepareRequest \<Rightarrow> nat \<Rightarrow> payload \<Rightarrow> bool" where
  "vote cfg w p k m \<longleftrightarrow>
     cmType m = CommitType \<and> height m = plIndex w \<and> viewNumber m = 0 \<and> validatorIndex m = of_nat k
     \<and> (\<exists>cm. body m = CommitMsg cm
          \<and> (\<forall>b. plHeader w p b \<longrightarrow> blockVerify cfg (plValidators w ! k) (signature cm) b))"

subsection \<open>The state of a validator\<close>

definition opt :: "'a option \<Rightarrow> 'a list" where
  "opt x = (case x of None \<Rightarrow> [] | Some y \<Rightarrow> [y])"

abbreviation ownPrep :: "('pub, 'b) place \<Rightarrow> ('tx, 'b, 'pb, 'pub, 'priv) dbft \<Rightarrow> payload option" where
  "ownPrep w c \<equiv> slot (PreparationPayloads c) (nat (plMe w))"

abbreviation ownCommit :: "('pub, 'b) place \<Rightarrow> ('tx, 'b, 'pb, 'pub, 'priv) dbft \<Rightarrow> payload option" where
  "ownCommit w c \<equiv> slot (CommitPayloads c) (nat (plMe w))"

definition privOf :: "('tx, 'b, 'pb, 'pub, 'priv) config \<Rightarrow> ('pub, 'b) place \<Rightarrow> 'priv option" where
  "privOf cfg w = fst (snd (GetKeyPair cfg (plValidators w)))"

text \<open>What the tables hold, and what the node has said and done.\<close>

definition stocked ::
    "('tx, 'b, 'pb, 'pub, 'priv) config \<Rightarrow> ('pub, 'b) place \<Rightarrow> prepareRequest \<Rightarrow> payload
       \<Rightarrow> ('tx, 'b, 'pb, 'pub, 'priv) dbft \<Rightarrow> bool" where
  "stocked cfg w p R c \<longleftrightarrow>
     placed w c \<and> ViewNumber c = 0 \<and> Priv c = privOf cfg w
     \<and> (\<forall>k. slot (ChangeViewPayloads c) k = None)
     \<and> (\<forall>k m. slot (PreparationPayloads c) k = Some m \<longrightarrow> m = prep cfg w R k)
     \<and> (\<forall>k m. slot (CommitPayloads c) k = Some m \<longrightarrow> vote cfg w p k m)
     \<and> (\<forall>b. header c = Some b \<longrightarrow> RequestSentOrReceived c \<and> plHeader w p b)
     \<and> (blockSet c \<longrightarrow> header c \<noteq> None)"

definition steady ::
    "('tx, 'b, 'pb, 'pub, 'priv) config \<Rightarrow> ('pub, 'b) place \<Rightarrow> prepareRequest \<Rightarrow> payload
       \<Rightarrow> ('tx, 'b, 'pb, 'pub, 'priv) dbft \<Rightarrow> bool" where
  "steady cfg w p R c \<longleftrightarrow>
     stocked cfg w p R c
     \<and> (if RequestSentOrReceived c then agrees p c \<and> hasAllTransactions c \<and> ownPrep w c \<noteq> None
        else Transactions c = [] \<and> ownPrep w c = None \<and> ownCommit w c = None \<and> \<not> blockProcessed c)
     \<and> voices (log c) = opt (ownCommit w c) @ opt (ownPrep w c)
     \<and> (\<not> blockProcessed c \<longrightarrow> unprocessed (log c))"

text \<open>No quorum is missed.\<close>

definition smooth ::
    "('tx, 'b, 'pb, 'pub, 'priv) config \<Rightarrow> ('pub, 'b) place \<Rightarrow> prepareRequest \<Rightarrow> payload
       \<Rightarrow> ('tx, 'b, 'pb, 'pub, 'priv) dbft \<Rightarrow> bool" where
  "smooth cfg w p R c \<longleftrightarrow>
     steady cfg w p R c
     \<and> (if blockProcessed c
        then plM w \<le> countView 0 (CommitPayloads c) \<and> (\<exists>b. EProcessBlock b True \<in> set (log c))
        else (RequestSentOrReceived c \<longrightarrow> plM w \<le> countView 0 (PreparationPayloads c) \<longrightarrow> ownCommit w c \<noteq> None)
             \<and> (ownCommit w c \<noteq> None \<longrightarrow> countView 0 (CommitPayloads c) < plM w))"

lemma smooth_steady: "smooth cfg w p R c \<Longrightarrow> steady cfg w p R c"
  by (simp add: smooth_def)

text \<open>A message has reached the node and needs no more attention.\<close>

definition heard :: "('tx, 'b, 'pb, 'pub, 'priv) dbft \<Rightarrow> payload \<Rightarrow> bool" where
  "heard c m \<longleftrightarrow>
     (if cmType m = CommitType
      then blockProcessed c \<or> slot (CommitPayloads c) (unat (validatorIndex m)) \<noteq> None
      else if cmType m = PrepareRequestType then RequestSentOrReceived c
      else blockProcessed c \<or> slot (PreparationPayloads c) (unat (validatorIndex m)) \<noteq> None)"

lemma voices_append [simp]: "voices (es @ fs) = voices es @ voices fs"
  by (induction es) (simp_all split: effect.split)

lemma set_voices: "set (voices es) = spokenIn es"
  by (induction es) (auto simp: spokenIn_def split: effect.split)

lemma unprocessed_Cons [simp]:
  "unprocessed (e # es) \<longleftrightarrow> (\<forall>b ok. e \<noteq> EProcessBlock b ok) \<and> unprocessed es"
  by (auto simp: unprocessed_def)

lemma opt_simps [simp]: "opt None = []" "opt (Some x) = [x]"
  by (simp_all add: opt_def)

lemma placed_own:
  assumes "placed w c" and "0 \<le> plMe w"
  shows "nat (plMe w) < length (PreparationPayloads c)" "nat (plMe w) < length (CommitPayloads c)"
  using assms by (auto simp: placed_def)

lemma placed_quorum: "placed w c \<Longrightarrow> ctxM c = plM w"
  by (simp add: placed_def ctxM_def ctxF_def plM_def)

lemma placed_put [simp]:
  "length xs = length (PreparationPayloads c) \<Longrightarrow> placed w (c\<lparr>PreparationPayloads := xs\<rparr>) = placed w c"
  "length xs = length (CommitPayloads c) \<Longrightarrow> placed w (c\<lparr>CommitPayloads := xs\<rparr>) = placed w c"
  by (simp_all add: placed_def GetPrimaryIndex_def Let_def)

lemma placed_cong:
  assumes "placed w c" and "Validators d = Validators c" and "BlockIndex d = BlockIndex c"
    and "PrimaryIndex d = PrimaryIndex c" "ViewNumber d = ViewNumber c" "MyIndex d = MyIndex c" "PrevHash d = PrevHash c"
    and "length (PreparationPayloads d) = length (PreparationPayloads c)"
    and "length (CommitPayloads d) = length (CommitPayloads c)" "length (LastSeenMessage d) = length (LastSeenMessage c)"
  shows "placed w d"
proof -
  have "GetPrimaryIndex d v = GetPrimaryIndex c v" for v
    by (rule GetPrimaryIndex_cong) (use assms(2,3) in simp_all)
  then show ?thesis using assms by (simp add: placed_def)
qed

lemma stocked_facts:
  assumes "stocked cfg w p R c"
  shows "placed w c" "ViewNumber c = 0" "MyIndex c = plMe w" "PrimaryIndex c = plPrimary w 0"
    "plPrimary w 0 < length (plValidators w)" "BlockIndex c = plIndex w" "Validators c = plValidators w"
    "PrevHash c = plPrev w" "Priv c = privOf cfg w" "length (PreparationPayloads c) = length (plValidators w)"
    "length (CommitPayloads c) = length (plValidators w)" "GetPrimaryIndex c v = plPrimary w v" "ctxM c = plM w"
    "\<And>k. slot (ChangeViewPayloads c) k = None"
  using assms placed_quorum[of w c] by (auto simp: stocked_def placed_def)

lemma stocked_slots:
  assumes "stocked cfg w p R c"
  shows "slot (PreparationPayloads c) k = Some m \<Longrightarrow> m = prep cfg w R k"
    "slot (CommitPayloads c) k = Some m \<Longrightarrow> vote cfg w p k m"
    "header c = Some b \<Longrightarrow> RequestSentOrReceived c \<and> plHeader w p b" "blockSet c \<Longrightarrow> header c \<noteq> None"
  using assms unfolding stocked_def by blast+

lemma stocked_unrequested: "stocked cfg w p R c \<Longrightarrow> \<not> RequestSentOrReceived c \<Longrightarrow> header c = None"
  using stocked_slots(3)[of cfg w p R c] by (cases "header c") auto

lemma steady_facts:
  assumes "steady cfg w p R c"
  shows "stocked cfg w p R c" "voices (log c) = opt (ownCommit w c) @ opt (ownPrep w c)"
    "\<not> blockProcessed c \<Longrightarrow> unprocessed (log c)"
    "RequestSentOrReceived c \<Longrightarrow> agrees p c \<and> hasAllTransactions c \<and> ownPrep w c \<noteq> None"
    "\<not> RequestSentOrReceived c \<Longrightarrow>
       Transactions c = [] \<and> ownPrep w c = None \<and> ownCommit w c = None \<and> \<not> blockProcessed c"
  using assms by (simp_all add: steady_def)

lemma stocked_upd [simp]:
  "stocked cfg w p R (c\<lparr>log := l\<rparr>) = stocked cfg w p R c"
  "stocked cfg w p R (c\<lparr>rttEstimates := x\<rparr>) = stocked cfg w p R c"
  "stocked cfg w p R (c\<lparr>prepareSentTime := t\<rparr>) = stocked cfg w p R c"
  "stocked cfg w p R (c\<lparr>blockProcessed := y\<rparr>) = stocked cfg w p R c"
  "stocked cfg w p R (c\<lparr>lastBlockTime := t, lastBlockIndex := h, lastBlockView := v\<rparr>) = stocked cfg w p R c"
  "stocked cfg w p R (c\<lparr>LastSeenMessage := (LastSeenMessage c)[k := z]\<rparr>) = stocked cfg w p R c"
  by (simp_all add: stocked_def placed_def GetPrimaryIndex_def Let_def RequestSentOrReceived_def)


lemma all_upd [simp]:
  "hasAllTransactions (c\<lparr>log := l\<rparr>) = hasAllTransactions c"
  "hasAllTransactions (c\<lparr>header := h\<rparr>) = hasAllTransactions c"
  "hasAllTransactions (c\<lparr>blockSet := x\<rparr>) = hasAllTransactions c"
  "hasAllTransactions (c\<lparr>blockProcessed := x\<rparr>) = hasAllTransactions c"
  "hasAllTransactions (c\<lparr>rttEstimates := r\<rparr>) = hasAllTransactions c"
  "hasAllTransactions (c\<lparr>lastBlockTime := t, lastBlockIndex := bi, lastBlockView := bv\<rparr>) = hasAllTransactions c"
  "hasAllTransactions (c\<lparr>PreparationPayloads := ps\<rparr>) = hasAllTransactions c"
  "hasAllTransactions (c\<lparr>CommitPayloads := ps\<rparr>) = hasAllTransactions c"
  "hasAllTransactions (c\<lparr>LastSeenMessage := ls\<rparr>) = hasAllTransactions c"
  by (simp_all add: hasAllTransactions_def)

lemma steady_rtt: "steady cfg w p R (c\<lparr>rttEstimates := x\<rparr>) = steady cfg w p R c"
  by (simp add: steady_def)

lemma primary_put [simp]: "GetPrimaryIndex (c\<lparr>PreparationPayloads := ps\<rparr>) v = GetPrimaryIndex c v"
  by (rule GetPrimaryIndex_cong) simp_all

text \<open>Further entries of the log that say nothing and decide nothing.\<close>

definition hushed :: "('tx, 'b, 'pb) effect list \<Rightarrow> ('tx, 'b, 'pb) effect list \<Rightarrow> bool" where
  "hushed es fs \<longleftrightarrow> voices fs = voices es \<and> (unprocessed es \<longrightarrow> unprocessed fs) \<and> set es \<subseteq> set fs"

lemma hushed_refl [simp]: "hushed es es"
  by (simp add: hushed_def)

lemma hushed_trans: "hushed es fs \<Longrightarrow> hushed fs gs \<Longrightarrow> hushed es gs"
  by (auto simp: hushed_def)

lemma hushed_Cons:
  "(\<And>m. e \<noteq> EBroadcast m) \<Longrightarrow> (\<And>b ok. e \<noteq> EProcessBlock b ok) \<Longrightarrow> hushed es (e # es)"
  by (cases e) (auto simp: hushed_def)

lemma steady_log: "hushed (log c) l \<Longrightarrow> steady cfg w p R c \<Longrightarrow> steady cfg w p R (c\<lparr>log := l\<rparr>)"
  by (simp add: steady_def hushed_def)

lemma smooth_log: "hushed (log c) l \<Longrightarrow> smooth cfg w p R c \<Longrightarrow> smooth cfg w p R (c\<lparr>log := l\<rparr>)"
  using steady_log[of c l cfg w p R] by (auto simp: smooth_def hushed_def split: if_split_asm)

lemma extendTimer_hushed: "\<exists>l. hushed (log c) l \<and> extendTimer cfg k c = Inr (c\<lparr>log := l\<rparr>)"
proof -
  obtain l where l: "extendTimer cfg k c = Inr (c\<lparr>log := l\<rparr>)" "l = log c \<or> (\<exists>t. l = ETimerExtend t # log c)"
    using extendTimer_log[of cfg k c] by blast
  have "hushed (log c) l" using l(2) by (auto intro: hushed_Cons)
  then show ?thesis using l(1) by blast
qed

lemma update_new: "h \<notin> fst ` set xs \<Longrightarrow> AList.update h v xs = xs @ [(h, v)]"
  by (induction xs) auto

text \<open>A node that has just started.\<close>

definition fresh ::
    "('tx, 'b, 'pb, 'pub, 'priv) config \<Rightarrow> ('pub, 'b) place \<Rightarrow> ('tx, 'b, 'pb, 'pub, 'priv) dbft \<Rightarrow> bool" where
  "fresh cfg w c \<longleftrightarrow>
     placed w c \<and> ViewNumber c = 0 \<and> Priv c = privOf cfg w
     \<and> (\<forall>k. slot (ChangeViewPayloads c) k = None \<and> slot (PreparationPayloads c) k = None \<and> slot (CommitPayloads c) k = None)
     \<and> header c = None \<and> \<not> blockSet c \<and> Transactions c = [] \<and> \<not> blockProcessed c
     \<and> voices (log c) = [] \<and> unprocessed (log c)"

lemma fresh_smooth: "fresh cfg w c \<Longrightarrow> smooth cfg w p R c" "fresh cfg w c \<Longrightarrow> \<not> RequestSentOrReceived c"
  by (simp_all add: fresh_def smooth_def steady_def stocked_def RequestSentOrReceived_def)

lemma fresh_log: "hushed (log c) l \<Longrightarrow> fresh cfg w c \<Longrightarrow> fresh cfg w (c\<lparr>log := l\<rparr>)"
  using placed_cong[of w c "c\<lparr>log := l\<rparr>"] by (simp add: fresh_def hushed_def)

lemma length_fold_update:
  "distinct (map f xs) \<Longrightarrow> \<forall>x \<in> set xs. f x \<notin> fst ` set ts \<Longrightarrow>
     length (fold (\<lambda>x. AList.update (f x) x) xs ts) = length ts + length xs"
proof (induction xs arbitrary: ts)
  case (Cons x xs)
  have "length (fold (\<lambda>x. AList.update (f x) x) xs (ts @ [(f x, x)])) = length (ts @ [(f x, x)]) + length xs"
    by (rule Cons.IH) (use Cons.prems in \<open>auto simp: image_iff\<close>)
  then show ?case using Cons.prems by (simp add: update_new)
qed simp

definition grown :: "('tx, 'b, 'pb, 'pub, 'priv) dbft \<Rightarrow> ('tx, 'b, 'pb, 'pub, 'priv) dbft \<Rightarrow> bool" where
  "grown c d \<longleftrightarrow>
     (\<forall>k. slot (PreparationPayloads c) k \<noteq> None \<longrightarrow> slot (PreparationPayloads d) k \<noteq> None)
     \<and> (\<forall>k. slot (CommitPayloads c) k \<noteq> None \<longrightarrow> slot (CommitPayloads d) k \<noteq> None)
     \<and> (RequestSentOrReceived c \<longrightarrow> RequestSentOrReceived d) \<and> (blockProcessed c \<longrightarrow> blockProcessed d)"

lemma grown_trans: "grown c d \<Longrightarrow> grown d e \<Longrightarrow> grown c e"
  by (simp add: grown_def)

lemma grown_heard: "grown c d \<Longrightarrow> heard c m \<Longrightarrow> heard d m"
  by (auto simp: grown_def heard_def split: if_splits)

lemma grown_refl [simp]: "grown c c"
  by (simp add: grown_def)

lemma grown_upd:
  "slot (PreparationPayloads c) k = None \<Longrightarrow> grown c (c\<lparr>PreparationPayloads := (PreparationPayloads c)[k := Some m]\<rparr>)"
  "slot (CommitPayloads c) k = None \<Longrightarrow> grown c (c\<lparr>CommitPayloads := (CommitPayloads c)[k := Some m]\<rparr>)"
  by (auto simp: grown_def slot_update RequestSentOrReceived_def)

lemma grown_steady:
  assumes "steady cfg w p R c" and "smooth cfg w p R d" and "\<not> blockProcessed c"
    and "PreparationPayloads d = PreparationPayloads c"
    and "\<forall>k. slot (CommitPayloads c) k \<noteq> None \<longrightarrow> slot (CommitPayloads d) k \<noteq> None"
  shows "grown c d"
proof -
  have "PrimaryIndex d = PrimaryIndex c"
    using stocked_facts(4)[OF steady_facts(1), of cfg w p R] assms(1,2) by (simp add: smooth_def)
  then show ?thesis using assms(3-5) by (simp add: grown_def RequestSentOrReceived_def)
qed

lemma thenDo_done [simp]: "thenDo m (steps []) = m"
  by (cases m) simp_all

lemma verifyCommitPayloads_unready:
  assumes "header c = None" and "\<not> RequestSentOrReceived c"
  shows "verifyCommitPayloadsAgainstHeader cfg c = Inr c"
proof -
  have "verifyCommitAt cfg i c = Inr c" for i
    using assms by (simp add: verifyCommitAt_def MakeHeader_def split: option.split)
  then have "forEach (verifyCommitAt cfg) xs c = Inr c" for xs
    by (induction xs) simp_all
  then show ?thesis by (simp add: verifyCommitPayloadsAgainstHeader_def)
qed

locale lively = network cfg n pl "{OutOfFuel}"
  for cfg :: "nat \<Rightarrow> ('tx, 'b, 'pb, 'pub, 'priv) config" and n :: nat and pl :: "nat \<Rightarrow> ('pub, 'b) place" +
  fixes H :: "Uint256 set"
  assumes trusts: "i < n \<Longrightarrow> VerifyPrepareRequest (cfg i) es m" "i < n \<Longrightarrow> VerifyPrepareResponse (cfg i) es m"
      "i < n \<Longrightarrow> VerifyCommit (cfg i) es m" "i < n \<Longrightarrow> VerifyBlock (cfg i) es ob"
    and pool: "i < n \<Longrightarrow> unprocessed es \<Longrightarrow> h \<in> H \<Longrightarrow> GetTx (cfg i) es h \<noteq> None"
      "i < n \<Longrightarrow> unprocessed es \<Longrightarrow> distinct (map (txHash (cfg i)) (GetVerified (cfg i) es))"
      "i < n \<Longrightarrow> unprocessed es \<Longrightarrow> set (map (txHash (cfg i)) (GetVerified (cfg i) es)) \<subseteq> H"
    and signs: "i < n \<Longrightarrow> 0 \<le> plMe (pl i) \<Longrightarrow> plHeader (pl i) p b \<Longrightarrow>
      \<exists>b'. blockSign (cfg i) es (privOf (cfg i) (pl i)) b = Some b'
        \<and> (\<forall>b''. plHeader (pl i) p b'' \<longrightarrow>
             blockVerify (cfg i) (plValidators (pl i) ! nat (plMe (pl i))) (signature (NewCommit (blockSignature (cfg i) b'))) b'')"
    and shared: "i < n \<Longrightarrow> j < n \<Longrightarrow> payloadHash (cfg i) = payloadHash (cfg j)"
      "i < n \<Longrightarrow> j < n \<Longrightarrow> blockVerify (cfg i) = blockVerify (cfg j)" "i < n \<Longrightarrow> j < n \<Longrightarrow> plIndex (pl i) = plIndex (pl j)"
    and seated: "i < n \<Longrightarrow> k < length (plValidators (pl i)) \<Longrightarrow> \<exists>j < n. plMe (pl j) = int k"
    and room: "i < n \<Longrightarrow> 2 * length (plValidators (pl i)) \<le> defaultChanSize"
begin

lemma node: "i < n \<Longrightarrow> peer (cfg i) ((pl i)\<lparr>plOthers := {}\<rparr>) {OutOfFuel}"
  by (rule peers) simp_all

lemma laws:
  assumes "i < n"
  shows "\<not> isAntiMEVExtensionEnabled (cfg i) c" "\<not> cfgWatchOnly (cfg i)" "TimestampIncrement (cfg i) \<noteq> 0"
    "ProcessBlock (cfg i) es b" "fst (GetKeyPair (cfg i) (plValidators (pl i))) = plMe (pl i)"
    "length (plValidators (pl i)) \<le> 2 ^ 16"
    "TransactionHashes c \<noteq> None \<Longrightarrow> NewBlockFromContext (cfg i) c \<noteq> None"
    "NewBlockFromContext (cfg i) c = Some b \<Longrightarrow> BlockIndex c = plIndex (pl i) \<Longrightarrow> PrevHash c = plPrev (pl i) \<Longrightarrow>
      agrees p c \<Longrightarrow> plHeader (pl i) p b"
    "plHeader (pl i) p b \<Longrightarrow> plHeader (pl i) p (blockSetTransactions (cfg i) txs b)"
    "plHeader (pl i) p b \<Longrightarrow> blockSign (cfg i) es k b = Some b' \<Longrightarrow> plHeader (pl i) p b'"
proof -
  show "TransactionHashes c \<noteq> None \<Longrightarrow> NewBlockFromContext (cfg i) c \<noteq> None"
    using peer.headers[OF node[OF assms], of c] by auto
qed (use peer.amev[OF node[OF assms]] peer.active[OF node[OF assms]] peer.increments[OF node[OF assms]]
    peer.accepts[OF node[OF assms]] peer.me[OF node[OF assms]] peer.size[OF node[OF assms]]
    peer.made[OF node[OF assms]] peer.filled[OF node[OF assms]] peer.signed[OF node[OF assms]] in auto)

subsection \<open>The block\<close>

lemma MakeHeader_steady:
  assumes "i < n" and "stocked (cfg i) (pl i) p R c" and "RequestSentOrReceived c" and "agrees p c"
    and "request (pl i) H p R"
  obtains b where "MakeHeader (cfg i) c = (Some b, c\<lparr>header := Some b\<rparr>)" and "plHeader (pl i) p b"
proof (cases "header c")
  case None
  have "TransactionHashes c \<noteq> None" using assms(4,5) by (auto simp: request_def agrees_def)
  then obtain b where b: "NewBlockFromContext (cfg i) c = Some b" using laws(7)[OF assms(1)] by blast
  have "plHeader (pl i) p b" using laws(8)[OF assms(1) b] assms(2,4) by (simp add: stocked_def placed_def)
  then show thesis using that None assms(3) b laws(1)[OF assms(1)] by (simp add: MakeHeader_def Let_def)
next
  case (Some b)
  then have "c = c\<lparr>header := Some b\<rparr>" by simp
  then have "MakeHeader (cfg i) c = (Some b, c\<lparr>header := Some b\<rparr>)" using Some by (simp add: MakeHeader_def)
  then show thesis using that Some assms(2) by (simp add: stocked_def)
qed

lemma CreateBlock_steady:
  assumes "i < n" and "stocked (cfg i) (pl i) p R c" and "RequestSentOrReceived c" and "agrees p c"
    and "request (pl i) H p R"
  obtains b where "CreateBlock (cfg i) c = (Some b, c\<lparr>header := Some b, blockSet := True\<rparr>)" and "plHeader (pl i) p b"
proof -
  obtain b where b: "MakeHeader (cfg i) c = (Some b, c\<lparr>header := Some b\<rparr>)" "plHeader (pl i) p b"
    by (rule MakeHeader_steady[OF assms])
  show thesis
  proof (cases "blockSet c")
    case True
    then obtain b' where b': "header c = Some b'" using assms(2) by (auto simp: stocked_def)
    have "c = c\<lparr>header := Some b', blockSet := True\<rparr>" using True b' by simp
    then have "CreateBlock (cfg i) c = (Some b', c\<lparr>header := Some b', blockSet := True\<rparr>)"
      unfolding CreateBlock_def using True b' by simp
    then show thesis using that b' assms(2) by (simp add: stocked_def)
  next
    case False
    then show thesis
      using that[of "blockSetTransactions (cfg i) (proposedTransactions c) b"] b laws(9)[OF assms(1) b(2)]
      by (simp add: CreateBlock_def proposedTransactions_def Let_def)
  qed
qed

lemma stocked_header:
  "stocked cg w p R c \<Longrightarrow> RequestSentOrReceived c \<Longrightarrow> plHeader w p b \<Longrightarrow>
     stocked cg w p R (c\<lparr>header := Some b, blockSet := True\<rparr>)"
  by (simp add: stocked_def RequestSentOrReceived_def)

lemma checkCommit_smooth:
  assumes "i < n" and "steady (cfg i) (pl i) p R c" and "RequestSentOrReceived c" and "\<not> blockProcessed c"
    and "request (pl i) H p R"
    and "plM (pl i) \<le> countView 0 (PreparationPayloads c) \<Longrightarrow> ownCommit (pl i) c \<noteq> None"
  shows "returns {} (\<lambda>d. smooth (cfg i) (pl i) p R d \<and> PreparationPayloads d = PreparationPayloads c
      \<and> CommitPayloads d = CommitPayloads c) (checkCommit (cfg i) c)"
proof -
  have s: "stocked (cfg i) (pl i) p R c" "agrees p c" "hasAllTransactions c" "ownPrep (pl i) c \<noteq> None"
    "ViewNumber c = 0" "ctxM c = plM (pl i)"
    using assms(2,3) placed_quorum[of "pl i" c] by (simp_all add: steady_def stocked_def)
  show ?thesis
  proof (cases "countView 0 (CommitPayloads c) < plM (pl i)")
    case True
    then show ?thesis using s assms(2,4,6) by (simp add: checkCommit_def smooth_def)
  next
    case False
    obtain b where b: "CreateBlock (cfg i) c = (Some b, c\<lparr>header := Some b, blockSet := True\<rparr>)" "plHeader (pl i) p b"
      by (rule CreateBlock_steady[OF assms(1) s(1) assms(3) s(2) assms(5)])
    have "steady (cfg i) (pl i) p R
        (c\<lparr>header := Some b, blockSet := True, log := EProcessBlock b True # log c, blockProcessed := True\<rparr>)"
      using assms(2,3) stocked_header[OF s(1) assms(3) b(2)]
      by (simp add: steady_def)
    then show ?thesis
      using False s b laws(4)[OF assms(1)] by (auto simp: checkCommit_def emit_def smooth_def Let_def)
  qed
qed

subsection \<open>Quorums\<close>

lemma own_index: "0 \<le> plMe (pl i) \<Longrightarrow> placed (pl i) c \<Longrightarrow> (of_nat (nat (plMe (pl i))) :: u16) = word_of_int (MyIndex c)"
  by (simp add: placed_def)

lemma stocked_commit:
  assumes "stocked cg w p R c" and "RequestSentOrReceived c" and "plHeader w p b" and "vote cg w p k m"
  shows "stocked cg w p R (c\<lparr>header := Some b, CommitPayloads := (CommitPayloads c)[k := Some m]\<rparr>)"
  using assms by (auto simp: stocked_def slot_update)

lemma sendCommit_steady:
  assumes "i < n" and me: "0 \<le> plMe (pl i)" and "steady (cfg i) (pl i) p R c" and "RequestSentOrReceived c"
    and "request (pl i) H p R" and "ownCommit (pl i) c = None"
  shows "returns {} (\<lambda>d. steady (cfg i) (pl i) p R d \<and> RequestSentOrReceived d \<and> blockProcessed d = blockProcessed c
      \<and> PreparationPayloads d = PreparationPayloads c \<and> ownCommit (pl i) d \<noteq> None
      \<and> (\<forall>k. slot (CommitPayloads c) k \<noteq> None \<longrightarrow> slot (CommitPayloads d) k \<noteq> None)) (sendCommit (cfg i) c)"
proof -
  note k = steady_facts(1)[OF assms(3)]
  note s = k conjunct1[OF steady_facts(4)[OF assms(3,4)]] stocked_facts(1,9,2,3,6)[OF k]
  obtain b where b: "MakeHeader (cfg i) c = (Some b, c\<lparr>header := Some b\<rparr>)" "plHeader (pl i) p b"
    by (rule MakeHeader_steady[OF assms(1) s(1) assms(4) s(2) assms(5)])
  obtain b' where b': "blockSign (cfg i) (log c) (privOf (cfg i) (pl i)) b = Some b'"
    and ok: "\<And>b''. plHeader (pl i) p b'' \<Longrightarrow>
             blockVerify (cfg i) (plValidators (pl i) ! nat (plMe (pl i))) (signature (NewCommit (blockSignature (cfg i) b'))) b''"
    using signs[OF assms(1) me b(2), of "log c"] by blast
  have h: "plHeader (pl i) p b'" by (rule laws(10)[OF assms(1) b(2) b'])
  let ?m = "NewConsensusPayload CommitType (plIndex (pl i)) (word_of_int (plMe (pl i))) 0
      (CommitMsg (NewCommit (blockSignature (cfg i) b')))"
  let ?d = "c\<lparr>header := Some b', CommitPayloads := (CommitPayloads c)[nat (plMe (pl i)) := Some ?m],
      log := EBroadcast ?m # log c\<rparr>"
  have v: "vote (cfg i) (pl i) p (nat (plMe (pl i))) ?m"
    using ok own_index[OF me s(3)] s(6) by (simp add: vote_def)
  have eq: "sendCommit (cfg i) c = Inr ?d"
    using assms(6) b b' s(4-7) by (simp add: sendCommit_def makeCommit_def broadcast_def emit_def ownPayload_def
        SetValidatorIndex_own Let_def)
  have "stocked (cfg i) (pl i) p R ?d"
    using stocked_commit[OF s(1) assms(4) h v] by simp
  then have "steady (cfg i) (pl i) p R ?d"
    using assms(3,4,6) placed_own(2)[OF s(3) me] by (simp add: steady_def)
  then show ?thesis
    unfolding eq using assms(4) placed_own(2)[OF s(3) me] by (simp add: slot_update)
qed

lemma noteBlockTime_steady:
  "steady cg w p R c \<Longrightarrow> steady cg w p R (noteBlockTime cg c)"
  "PreparationPayloads (noteBlockTime cg c) = PreparationPayloads c"
  "CommitPayloads (noteBlockTime cg c) = CommitPayloads c" "blockProcessed (noteBlockTime cg c) = blockProcessed c"
  "RequestSentOrReceived (noteBlockTime cg c) = RequestSentOrReceived c"
  by (auto simp: noteBlockTime_def steady_def split: if_splits)

lemma checkPrepare_smooth:
  assumes "i < n" and me: "0 \<le> plMe (pl i)" and "steady (cfg i) (pl i) p R c" and "RequestSentOrReceived c"
    and "request (pl i) H p R" and "ownCommit (pl i) c = None" and "\<not> blockProcessed c"
  shows "returns {} (\<lambda>d. smooth (cfg i) (pl i) p R d \<and> PreparationPayloads d = PreparationPayloads c
      \<and> (\<forall>k. slot (CommitPayloads c) k \<noteq> None \<longrightarrow> slot (CommitPayloads d) k \<noteq> None)) (checkPrepare (cfg i) c)"
proof -
  let ?c = "noteBlockTime (cfg i) c"
  let ?Q = "\<lambda>d. steady (cfg i) (pl i) p R d \<and> RequestSentOrReceived d \<and> \<not> blockProcessed d
      \<and> PreparationPayloads d = PreparationPayloads c \<and> ownCommit (pl i) d \<noteq> None
      \<and> (\<forall>k. slot (CommitPayloads c) k \<noteq> None \<longrightarrow> slot (CommitPayloads d) k \<noteq> None)"
  have c: "steady (cfg i) (pl i) p R ?c" by (rule noteBlockTime_steady(1)[OF assms(3)])
  have s: "hasAllTransactions ?c" "ViewNumber ?c = 0" "ctxM ?c = plM (pl i)"
    using steady_facts(4)[OF c] assms(4) stocked_facts(2,13)[OF steady_facts(1)[OF c]] noteBlockTime_steady(5)[of "cfg i" c]
    by simp_all
  show ?thesis
  proof (cases "plM (pl i) \<le> countView 0 (PreparationPayloads c)")
    case False
    have "smooth (cfg i) (pl i) p R ?c"
      using False c assms(4,6,7) by (simp add: smooth_def noteBlockTime_steady)
    then show ?thesis using False s by (simp add: checkPrepare_def noteBlockTime_steady Let_def)
  next
    case True
    obtain m where m: "slot (PreparationPayloads c) (PrimaryIndex c) = Some m"
      using assms(4) by (auto simp: RequestSentOrReceived_def)
    have "m = R"
      using stocked_slots(1)[OF steady_facts(1)[OF assms(3)] m] stocked_facts(4)[OF steady_facts(1)[OF assms(3)]]
      by (simp add: prep_def)
    then have "cmType m = PrepareRequestType" using assms(5) by (auto simp: request_def)
    moreover have "m \<in> set (present (PreparationPayloads c))" using m by (auto simp: present_slot)
    ultimately have "hasRequest (PreparationPayloads c)" unfolding hasRequest_def by blast
    then have eq: "checkPrepare (cfg i) c =
        steps [sendCommit (cfg i), (\<lambda>c. changeTimer (timePerBlock c) c), checkCommit (cfg i)] ?c"
      using True s laws(1)[OF assms(1)] by (simp add: checkPrepare_def noteBlockTime_steady Let_def)
    have "returns {} ?Q (sendCommit (cfg i) ?c)"
      by (rule returns_mono[OF sendCommit_steady[OF assms(1) me c _ assms(5)]])
        (use assms(4,6,7) in \<open>simp_all add: noteBlockTime_steady\<close>)
    moreover have "returns {} ?Q (changeTimer (timePerBlock d) d)" if "?Q d" for d
      using that by (auto simp: changeTimer_def emit_def intro!: steady_log hushed_Cons)
    moreover have "returns {} (\<lambda>d. smooth (cfg i) (pl i) p R d \<and> PreparationPayloads d = PreparationPayloads c
        \<and> (\<forall>k. slot (CommitPayloads c) k \<noteq> None \<longrightarrow> slot (CommitPayloads d) k \<noteq> None)) (checkCommit (cfg i) d)"
      if "?Q d" for d
      by (rule returns_mono[OF checkCommit_smooth[OF assms(1) _ _ _ assms(5)]]) (use that in simp_all)
    ultimately show ?thesis
      unfolding eq by (intro returns_Cons[where P = ?Q] returns_Cons[where P = "\<lambda>d. smooth (cfg i) (pl i) p R d
        \<and> PreparationPayloads d = PreparationPayloads c
        \<and> (\<forall>k. slot (CommitPayloads c) k \<noteq> None \<longrightarrow> slot (CommitPayloads d) k \<noteq> None)"] returns_Nil)
  qed
qed

subsection \<open>Commits\<close>

lemma vote_facts:
  assumes "vote (cfg i) (pl i) p k m" and "i < n" and "k < length (plValidators (pl i))"
  shows "cmType m = CommitType" "height m = plIndex (pl i)" "viewNumber m = 0" "unat (validatorIndex m) = k"
proof -
  have "k < 2 ^ 16" using assms(3) laws(6)[OF assms(2)] by simp
  then have "unat (of_nat k :: u16) = k" by (simp add: unat_of_nat take_bit_nat_eq_self)
  then show "cmType m = CommitType" "height m = plIndex (pl i)" "viewNumber m = 0" "unat (validatorIndex m) = k"
    using assms(1) by (auto simp: vote_def)
qed

lemma onCommit_smooth:
  assumes "i < n" and "0 \<le> plMe (pl i)" and "smooth (cfg i) (pl i) p R c" and "\<not> blockProcessed c"
    and "request (pl i) H p R" and "vote (cfg i) (pl i) p k m" and "k < length (plValidators (pl i))"
    and "int k \<noteq> plMe (pl i)"
  shows "returns {} (\<lambda>d. smooth (cfg i) (pl i) p R d \<and> grown c d \<and> heard d m) (onCommit (cfg i) m c)"
proof -
  note v = vote_facts[OF assms(6,1,7)]
  have st: "steady (cfg i) (pl i) p R c" using assms(3) by (simp add: smooth_def)
  note k = steady_facts(1)[OF st] note f = stocked_facts[OF k]
  show ?thesis
  proof (cases "slot (CommitPayloads c) k")
    case (Some m')
    then show ?thesis using v assms(3) by (simp add: onCommit_def heard_def)
  next
    case None
    let ?c = "c\<lparr>CommitPayloads := (CommitPayloads c)[k := Some m]\<rparr>"
    have n: "nat (plMe (pl i)) \<noteq> k" using assms(2,8) by auto
    have k': "stocked (cfg i) (pl i) p R ?c"
      using k assms(6) by (auto simp: stocked_def slot_update)
    then have st': "steady (cfg i) (pl i) p R ?c" using st n by (simp add: steady_def)
    obtain l where l: "hushed (log ?c) l" "extendTimer (cfg i) 4 ?c = Inr (?c\<lparr>log := l\<rparr>)"
      using extendTimer_hushed[of ?c "cfg i" 4] by blast
    let ?d = "?c\<lparr>log := l\<rparr>"
    have d: "steady (cfg i) (pl i) p R ?d" by (rule steady_log[OF l(1) st'])
    have g: "grown c ?d" "heard ?d m"
      using grown_upd(2)[OF None] f(11) assms(7) v by (simp_all add: grown_def heard_def)
    have on: "onCommit (cfg i) m c = (case MakeHeader (cfg i) ?d of
        (None, c3) \<Rightarrow> Ok c3
      | (Some h, c3) \<Rightarrow>
          (case GetCommit (body m) of
             None \<Rightarrow> Stop TypeAssertion
           | Some cm \<Rightarrow>
               if blockVerify (cfg i) (Validators c3 ! k) (signature cm) h
               then checkCommit (cfg i) c3 else Ok (c3\<lparr>CommitPayloads := (CommitPayloads c3)[k := None]\<rparr>)))"
      using None v f(2) trusts(3)[OF assms(1)] l(2) by (simp add: onCommit_def Let_def)
    show ?thesis
    proof (cases "RequestSentOrReceived c")
      case False
      then have "header ?d = None" using stocked_unrequested[OF k] by simp
      then have "MakeHeader (cfg i) ?d = (None, ?d)" using False by (simp add: MakeHeader_def)
      then show ?thesis
        using on g d False assms(4) n steady_facts(5)[OF st False] by (simp add: smooth_def)
    next
      case True
      have r: "RequestSentOrReceived ?d" using True by simp
      obtain h where h: "MakeHeader (cfg i) ?d = (Some h, ?d\<lparr>header := Some h\<rparr>)" "plHeader (pl i) p h"
        by (rule MakeHeader_steady[OF assms(1) steady_facts(1)[OF d] r _ assms(5)])
          (use steady_facts(4)[OF d r] in simp)
      let ?e = "?d\<lparr>header := Some h\<rparr>"
      obtain cm where cm: "body m = CommitMsg cm"
        "blockVerify (cfg i) (plValidators (pl i) ! k) (signature cm) h"
        using assms(6) h(2) by (auto simp: vote_def)
      have on': "onCommit (cfg i) m c = checkCommit (cfg i) ?e"
        using on h(1) cm f(7) by simp
      have "stocked (cfg i) (pl i) p R ?e"
        using steady_facts(1)[OF d] h(2) r by (simp add: stocked_def)
      then have e: "steady (cfg i) (pl i) p R ?e" using d r by (simp add: steady_def)
      have "returns {} (\<lambda>d. smooth (cfg i) (pl i) p R d \<and> PreparationPayloads d = PreparationPayloads ?e
          \<and> CommitPayloads d = CommitPayloads ?e) (checkCommit (cfg i) ?e)"
        by (rule checkCommit_smooth[OF assms(1) e _ _ assms(5)])
          (use r assms(3,4) n True in \<open>simp_all add: smooth_def\<close>)
      then show ?thesis
        unfolding on'
        by (rule returns_mono) (use g assms(4) in \<open>auto simp: grown_def heard_def RequestSentOrReceived_def f stocked_facts smooth_def steady_def\<close>)
    qed
  qed
qed

subsection \<open>Preparations\<close>

lemma prep_facts:
  assumes "i < n" and "k < length (plValidators (pl i))" and "request (pl i) H p R"
  shows "viewNumber (prep (cfg i) (pl i) R k) = 0" "height (prep (cfg i) (pl i) R k) = plIndex (pl i)"
    "unat (validatorIndex (prep (cfg i) (pl i) R k)) = k"
    "cmType (prep (cfg i) (pl i) R k) = (if k = plPrimary (pl i) 0 then PrepareRequestType else PrepareResponseType)"
    "body R = PrepareRequestMsg p"
proof -
  have "k < 2 ^ 16" using assms(2) laws(6)[OF assms(1)] by simp
  then have "unat (of_nat k :: u16) = k" by (simp add: unat_of_nat take_bit_nat_eq_self)
  then show "viewNumber (prep (cfg i) (pl i) R k) = 0" "height (prep (cfg i) (pl i) R k) = plIndex (pl i)"
    "unat (validatorIndex (prep (cfg i) (pl i) R k)) = k"
    "cmType (prep (cfg i) (pl i) R k) = (if k = plPrimary (pl i) 0 then PrepareRequestType else PrepareResponseType)"
    "body R = PrepareRequestMsg p"
    using assms(3) by (auto simp: prep_def request_def)
qed

lemma ownCommit_sent:
  assumes "i < n" and "0 \<le> plMe (pl i)" and "MyIndex c = plMe (pl i)"
  shows "\<not> WatchOnly (cfg i) c" "CommitSent (cfg i) c \<longleftrightarrow> ownCommit (pl i) c \<noteq> None"
  using assms laws(2)[OF assms(1)] by (simp_all add: WatchOnly_def CommitSent_def)

lemma acceptPrepareResponse_smooth:
  assumes "i < n" and me: "0 \<le> plMe (pl i)" and "steady (cfg i) (pl i) p R c" and "\<not> blockProcessed c"
    and "request (pl i) H p R"
    and "ownCommit (pl i) c \<noteq> None \<Longrightarrow> countView 0 (CommitPayloads c) < plM (pl i)"
  shows "returns {} (\<lambda>d. smooth (cfg i) (pl i) p R d \<and> PreparationPayloads d = PreparationPayloads c
      \<and> (\<forall>k. slot (CommitPayloads c) k \<noteq> None \<longrightarrow> slot (CommitPayloads d) k \<noteq> None))
    (acceptPrepareResponse (cfg i) c)"
proof -
  let ?P = "\<lambda>d. steady (cfg i) (pl i) p R d \<and> PreparationPayloads d = PreparationPayloads c
      \<and> CommitPayloads d = CommitPayloads c \<and> \<not> blockProcessed d"
  let ?Q = "\<lambda>d. smooth (cfg i) (pl i) p R d \<and> PreparationPayloads d = PreparationPayloads c
      \<and> (\<forall>k. slot (CommitPayloads c) k \<noteq> None \<longrightarrow> slot (CommitPayloads d) k \<noteq> None)"
  have rtt: "?P (d\<lparr>rttEstimates := x\<rparr>)" if "?P d" for d x
    using that by (simp add: steady_rtt)
  have ext: "returns {} ?P (extendTimer (cfg i) 2 d)" if "?P d" for d
    using that extendTimer_hushed[of d "cfg i" 2] steady_log by fastforce
  have last: "returns {} ?Q (if \<not> WatchOnly (cfg i) d \<and> \<not> CommitSent (cfg i) d
      \<and> (\<not> isAntiMEVExtensionEnabled (cfg i) d \<or> \<not> PreCommitSent (cfg i) d) \<and> RequestSentOrReceived d
      then checkPrepare (cfg i) d else Ok d)" if d: "?P d" for d
  proof -
    have "MyIndex d = plMe (pl i)" using stocked_facts(3)[OF steady_facts(1)] d by blast
    note o = ownCommit_sent[OF assms(1) me this]
    show ?thesis
    proof (cases "ownCommit (pl i) d = None \<and> RequestSentOrReceived d")
      case True
      have "returns {} ?Q (checkPrepare (cfg i) d)"
        by (rule returns_mono[OF checkPrepare_smooth[OF assms(1) me _ _ assms(5), of d]]) (use d True in simp_all)
      then show ?thesis using True o laws(1)[OF assms(1)] by simp
    next
      case False
      then have "smooth (cfg i) (pl i) p R d" using d assms(6) by (auto simp: smooth_def)
      then show ?thesis using False d o by auto
    qed
  qed
  show ?thesis
    unfolding acceptPrepareResponse_def
    by (rule returns_Cons[where P = ?P], use rtt[of c] assms(3,4) in simp, rule returns_Cons[where P = ?P], erule ext,
        rule returns_Cons[where P = ?Q], erule last, simp)
qed

lemma viewUnchanged: "stocked (cfg i) (pl i) p R c \<Longrightarrow> \<not> ViewChanging (cfg i) c"
  using stocked_facts(14) by (fastforce simp: ViewChanging_def)

lemma onPrepareResponse_smooth:
  assumes "i < n" and me: "0 \<le> plMe (pl i)" and "smooth (cfg i) (pl i) p R c" and "\<not> blockProcessed c"
    and "request (pl i) H p R" and "k < length (plValidators (pl i))" and "int k \<noteq> plMe (pl i)"
    and "k \<noteq> plPrimary (pl i) 0"
  shows "returns {} (\<lambda>d. smooth (cfg i) (pl i) p R d \<and> grown c d \<and> heard d (prep (cfg i) (pl i) R k))
    (onPrepareResponse (cfg i) (prep (cfg i) (pl i) R k) c)"
proof -
  let ?m = "prep (cfg i) (pl i) R k" and ?pr = "plPrimary (pl i) 0"
  note m = prep_facts[OF assms(1,6,5)]
  have st: "steady (cfg i) (pl i) p R c" using assms(3) by (simp add: smooth_def)
  note s = steady_facts(1)[OF st] note f = stocked_facts[OF s]
  show ?thesis
  proof (cases "slot (PreparationPayloads c) k")
    case (Some m')
    then show ?thesis using m f assms(3,8) by (simp add: onPrepareResponse_def heard_def)
  next
    case None
    let ?c = "c\<lparr>PreparationPayloads := (PreparationPayloads c)[k := Some ?m]\<rparr>"
    have n: "nat (plMe (pl i)) \<noteq> k" using me assms(7) by auto
    have rq: "RequestSentOrReceived ?c = RequestSentOrReceived c"
      using assms(8) f(4) by (simp add: RequestSentOrReceived_def)
    have "stocked (cfg i) (pl i) p R ?c"
      using s rq by (auto simp: stocked_def slot_update)
    then have c: "steady (cfg i) (pl i) p R ?c" using st n rq by (simp add: steady_def)
    have g: "grown c ?c" "heard ?c ?m"
      using grown_upd(1)[OF None] f(10) assms(6,8) m by (simp_all add: heard_def)
    have "onPrepareResponse (cfg i) ?m c = acceptPrepareResponse (cfg i) ?c"
    proof (cases "slot (PreparationPayloads c) ?pr")
      case None
      then show ?thesis
        using \<open>slot (PreparationPayloads c) k = None\<close> m f viewUnchanged[OF s] trusts(2)[OF assms(1)] assms(8)
        by (simp add: onPrepareResponse_def Let_def)
    next
      case (Some q)
      then have "q = R" using stocked_slots(1)[OF s Some] by (simp add: prep_def)
      moreover have "body ?m = PrepareResponseMsg (NewPrepareResponse (payloadHash (cfg i) R))"
        using assms(8) by (simp add: prep_def)
      ultimately show ?thesis
        using Some \<open>slot (PreparationPayloads c) k = None\<close> m f viewUnchanged[OF s] trusts(2)[OF assms(1)] assms(8)
        by (simp add: onPrepareResponse_def Let_def NewPrepareResponse_def)
    qed
    moreover have "returns {} (\<lambda>d. smooth (cfg i) (pl i) p R d \<and> PreparationPayloads d = PreparationPayloads ?c
      \<and> (\<forall>k. slot (CommitPayloads ?c) k \<noteq> None \<longrightarrow> slot (CommitPayloads d) k \<noteq> None))
      (acceptPrepareResponse (cfg i) ?c)"
      by (rule acceptPrepareResponse_smooth[OF assms(1) me c _ assms(5)])
        (use assms(3,4) in \<open>simp_all add: smooth_def\<close>)
    moreover have "grown c d \<and> heard d ?m"
      if "smooth (cfg i) (pl i) p R d \<and> PreparationPayloads d = PreparationPayloads ?c
      \<and> (\<forall>k. slot (CommitPayloads ?c) k \<noteq> None \<longrightarrow> slot (CommitPayloads d) k \<noteq> None)" for d
    proof -
      have "grown ?c d" by (rule grown_steady[OF c]) (use that assms(4) in simp_all)
      then show ?thesis using g grown_trans grown_heard by blast
    qed
    ultimately show ?thesis by (auto elim!: returns_mono)
  qed
qed

subsection \<open>The request\<close>

lemma lookups:
  assumes "i < n" and "unprocessed (log c)" and "set hs \<subseteq> H" and "distinct hs"
    and "\<forall>h \<in> set hs. h \<notin> fst ` set (Transactions c)"
  shows "\<exists>ts. forEach (lookupProposed (cfg i)) hs c = Inr (c\<lparr>Transactions := ts\<rparr>)
    \<and> length ts = length (Transactions c) + length hs"
  using assms(2-5)
proof (induction hs arbitrary: c)
  case Nil
  then show ?case by (intro exI[of _ "Transactions c"]) simp
next
  case (Cons h hs)
  obtain tx where tx: "GetTx (cfg i) (log c) h = Some tx" using pool(1)[OF assms(1), of "log c" h] Cons.prems by auto
  have no: "h \<notin> fst ` set (Transactions c)" using Cons.prems by simp
  let ?c = "c\<lparr>Transactions := Transactions c @ [(h, tx)]\<rparr>"
  have one: "lookupProposed (cfg i) h c = Inr ?c"
    using tx no by (simp add: lookupProposed_def map_of_eq_None_iff update_new)
  have "\<exists>ts. forEach (lookupProposed (cfg i)) hs ?c = Inr (?c\<lparr>Transactions := ts\<rparr>)
      \<and> length ts = length (Transactions ?c) + length hs"
    by (rule Cons.IH) (use Cons.prems in auto)
  then show ?case using one by auto
qed

lemma adopt_request:
  assumes "i < n" and me: "0 \<le> plMe (pl i)" and st: "steady (cfg i) (pl i) p R c" and un: "\<not> RequestSentOrReceived c"
    and req: "request (pl i) H p R"
  obtains l ts where "hushed (log c) l" and "length ts = length (elems (transactionHashes p))"
    and "steps [acceptProposal p, processMissingTx (cfg i), updateExistingPayloads (cfg i) R,
               (\<lambda>c. Ok (c\<lparr>PreparationPayloads :=
                         (PreparationPayloads c)[unat (validatorIndex R) := Some R]\<rparr>))] c =
      Inr (c\<lparr>Timestamp := prepareRequest_Timestamp p, Nonce := reqNonce p, TransactionHashes := transactionHashes p,
             Transactions := ts, log := l,
             PreparationPayloads := (PreparationPayloads c)[plPrimary (pl i) 0 := Some R]\<rparr>)"
proof -
  note s = steady_facts(1)[OF st] note f = stocked_facts[OF s] note u = steady_facts(5)[OF st un]
  obtain hs where hs: "transactionHashes p = Some hs" "distinct hs" "set hs \<subseteq> H"
    using req by (auto simp: request_def)
  let ?c1 = "c\<lparr>Timestamp := prepareRequest_Timestamp p, Nonce := reqNonce p, TransactionHashes := transactionHashes p\<rparr>"
  obtain ts where ts: "forEach (lookupProposed (cfg i)) hs ?c1 = Inr (?c1\<lparr>Transactions := ts\<rparr>)" "length ts = length hs"
    using lookups[OF assms(1) _ hs(3,2), of ?c1] u steady_facts(3)[OF st] by auto
  obtain l where l: "hushed (log c) l" "processMissingTx (cfg i) ?c1 = Inr (?c1\<lparr>Transactions := ts, log := l\<rparr>)"
  proof (cases "MissingTransactions c = []")
    case True
    then have "processMissingTx (cfg i) ?c1 = Inr (?c1\<lparr>Transactions := ts, log := log c\<rparr>)"
      using ts hs by (simp add: processMissingTx_def)
    then show ?thesis using that[of "log c"] by simp
  next
    case False
    then show ?thesis
      using that[of "ERequestTx (MissingTransactions c) # log c"] ts hs
      by (simp add: processMissingTx_def emit_def hushed_Cons)
  qed
  let ?c2 = "?c1\<lparr>Transactions := ts, log := l\<rparr>"
  have "dropOtherResponse (cfg i) R k ?c2 = Inr ?c2" for k
  proof (cases "slot (PreparationPayloads c) k")
    case (Some m)
    then have "m = prep (cfg i) (pl i) R k" by (rule stocked_slots(1)[OF s])
    moreover have "k \<noteq> plPrimary (pl i) 0" using Some un f(4) by (auto simp: RequestSentOrReceived_def)
    ultimately show ?thesis using Some by (simp add: dropOtherResponse_def prep_def NewPrepareResponse_def)
  qed (simp add: dropOtherResponse_def)
  then have "forEach (dropOtherResponse (cfg i) R) ks ?c2 = Inr ?c2" for ks by (induction ks) simp_all
  moreover have "verifyCommitPayloadsAgainstHeader (cfg i) ?c2 = Inr ?c2"
    by (rule verifyCommitPayloads_unready) (use stocked_unrequested[OF s un] un in \<open>simp_all add: RequestSentOrReceived_def\<close>)
  ultimately have up: "updateExistingPayloads (cfg i) R ?c2 = Inr ?c2"
    using laws(1)[OF assms(1)] by (simp add: updateExistingPayloads_def)
  have "unat (validatorIndex R) = plPrimary (pl i) 0"
    using prep_facts(3)[OF assms(1) f(5) req] by (simp add: prep_def)
  then show thesis
    by (intro that[OF l(1), of ts]) (simp add: ts(2) hs(1), simp add: acceptProposal_def l(2) up)
qed

lemma stocked_adopted:
  assumes "stocked (cfg i) (pl i) p R c" and "\<not> RequestSentOrReceived c"
  shows "stocked (cfg i) (pl i) p R (c\<lparr>Timestamp := t, Nonce := nc, TransactionHashes := th, Transactions := ts, log := l,
      PreparationPayloads := (PreparationPayloads c)[plPrimary (pl i) 0 := Some R]\<rparr>)" (is "stocked _ _ _ _ ?d")
proof -
  have "placed (pl i) ?d" by (rule placed_cong[OF stocked_facts(1)[OF assms(1)]]) simp_all
  moreover have "m = prep (cfg i) (pl i) R k" if "slot (PreparationPayloads ?d) k = Some m" for k m
    using that stocked_slots(1)[OF assms(1), of k m] by (auto simp: slot_update prep_def split: if_split_asm)
  ultimately show ?thesis
    using assms(1) stocked_unrequested[OF assms] unfolding stocked_def by auto
qed

lemma stocked_answered:
  assumes "stocked (cfg i) (pl i) p R c" and "RequestSentOrReceived c" and "plHeader (pl i) p b" and "m = prep (cfg i) (pl i) R k"
  shows "stocked (cfg i) (pl i) p R (c\<lparr>header := Some b, blockSet := True,
      PreparationPayloads := (PreparationPayloads c)[k := Some m]\<rparr>)" (is "stocked _ _ _ _ ?d")
proof -
  have "placed (pl i) ?d" by (rule placed_cong[OF stocked_facts(1)[OF assms(1)]]) simp_all
  moreover have "m' = prep (cfg i) (pl i) R k'" if "slot (PreparationPayloads ?d) k' = Some m'" for k' m'
    using that assms(4) stocked_slots(1)[OF assms(1), of k' m'] by (auto simp: slot_update split: if_split_asm)
  moreover have "RequestSentOrReceived ?d" using assms(2) by (auto simp: RequestSentOrReceived_def slot_update)
  ultimately show ?thesis
    using assms(1,3) unfolding stocked_def by auto
qed

lemma answer_steady:
  assumes "i < n" and me: "0 \<le> plMe (pl i)" and no: "plMe (pl i) \<noteq> int (plPrimary (pl i) 0)"
    and s: "stocked (cfg i) (pl i) p R c" and rq: "RequestSentOrReceived c" and ag: "agrees p c" and all: "hasAllTransactions c"
    and es: "voices (log c) = []" "unprocessed (log c)" and np: "\<not> blockProcessed c" and own: "ownCommit (pl i) c = None"
    and b: "plHeader (pl i) p b"
  obtains d where "sendPrepareResponse (cfg i) (c\<lparr>header := Some b, blockSet := True\<rparr>) = Inr d"
    and "steady (cfg i) (pl i) p R d" and "RequestSentOrReceived d" and "\<not> blockProcessed d" and "CommitPayloads d = CommitPayloads c"
    and "PreparationPayloads d = (PreparationPayloads c)[nat (plMe (pl i)) := Some (prep (cfg i) (pl i) R (nat (plMe (pl i))))]"
proof -
  let ?pr = "plPrimary (pl i) 0" and ?me = "nat (plMe (pl i))"
  note f = stocked_facts[OF s]
  let ?c2 = "c\<lparr>header := Some b, blockSet := True\<rparr>" and ?m = "prep (cfg i) (pl i) R ?me"
  have m: "?m = ownPayload ?c2 PrepareResponseType (PrepareResponseMsg (NewPrepareResponse (payloadHash (cfg i) R)))"
    using no me f own_index[OF me f(1)] by (auto simp: prep_def ownPayload_def)
  have pr: "slot (PreparationPayloads c) ?pr = Some R"
    using rq f(4) stocked_slots(1)[OF s, of ?pr] by (auto simp: RequestSentOrReceived_def prep_def)
  let ?c3 = "?c2\<lparr>PreparationPayloads := (PreparationPayloads ?c2)[?me := Some ?m],
    log := EBroadcast ?m # EStopTxFlow # log c\<rparr>"
  have say: "sendPrepareResponse (cfg i) ?c2 = Inr ?c3"
    using f me pr by (simp add: m sendPrepareResponse_def makePrepareResponse_def broadcast_def emit_def
        ownPayload_def NewConsensusPayload_def SetValidatorIndex_def Let_def)
  have "?me \<noteq> ?pr" using no me by auto
  then have rq3: "RequestSentOrReceived ?c3" using f pr by (simp add: RequestSentOrReceived_def)
  have "stocked (cfg i) (pl i) p R ?c3"
    unfolding stocked_upd(1) using stocked_answered[OF s rq b, of ?m ?me] by simp
  then have "steady (cfg i) (pl i) p R ?c3"
    using rq3 ag all es np own placed_own(1)[OF f(1) me]
    by (simp add: steady_def agrees_def hasAllTransactions_def)
  then show thesis using that[OF say _ rq3] np by simp
qed

lemma onPrepareRequest_smooth:
  assumes "i < n" and me: "0 \<le> plMe (pl i)" and "smooth (cfg i) (pl i) p R c" and "\<not> blockProcessed c"
    and req: "request (pl i) H p R" and "plMe (pl i) \<noteq> int (plPrimary (pl i) 0)"
  shows "returns {} (\<lambda>d. smooth (cfg i) (pl i) p R d \<and> grown c d \<and> heard d R) (onPrepareRequest (cfg i) rcv R c)"
proof -
  let ?pr = "plPrimary (pl i) 0" and ?me = "nat (plMe (pl i))"
  have st: "steady (cfg i) (pl i) p R c" using assms(3) by (simp add: smooth_def)
  note s = steady_facts(1)[OF st] note f = stocked_facts[OF s]
  have R: "viewNumber R = 0" "unat (validatorIndex R) = ?pr" "body R = PrepareRequestMsg p" "cmType R = PrepareRequestType"
    using prep_facts[OF assms(1) f(5) req] by (simp_all add: prep_def)
  show ?thesis
  proof (cases "RequestSentOrReceived c")
    case True
    then show ?thesis using assms(3) R by (simp add: onPrepareRequest_def heard_def)
  next
    case un: False
    note u = steady_facts(5)[OF st un]
    obtain l0 where l0: "hushed (log c) l0" "extendTimer (cfg i) 2 c = Inr (c\<lparr>log := l0\<rparr>)"
      using extendTimer_hushed[of c "cfg i" 2] by blast
    let ?c0 = "c\<lparr>log := l0\<rparr>"
    have st0: "steady (cfg i) (pl i) p R ?c0" by (rule steady_log[OF l0(1) st])
    have un0: "\<not> RequestSentOrReceived ?c0" using un by simp
    obtain l ts where l: "hushed (log ?c0) l" and ts: "length ts = length (elems (transactionHashes p))"
      and adopt: "steps [acceptProposal p, processMissingTx (cfg i), updateExistingPayloads (cfg i) R,
               (\<lambda>c. Ok (c\<lparr>PreparationPayloads :=
                         (PreparationPayloads c)[unat (validatorIndex R) := Some R]\<rparr>))] ?c0 =
          Inr (?c0\<lparr>Timestamp := prepareRequest_Timestamp p, Nonce := reqNonce p, TransactionHashes := transactionHashes p,
             Transactions := ts, log := l, PreparationPayloads := (PreparationPayloads ?c0)[?pr := Some R]\<rparr>)"
      (is "_ = Inr ?c1")
      by (rule adopt_request[OF assms(1) me st0 un0 req])
    have s1: "stocked (cfg i) (pl i) p R ?c1" by (rule stocked_adopted[OF steady_facts(1)[OF st0] un0])
    have ag: "agrees p ?c1" by (simp add: agrees_def prepareRequest_Timestamp_def nanoSecToSec_secToNanoSec)
    have all: "hasAllTransactions ?c1" using ts by (simp add: hasAllTransactions_def)
    have rq: "RequestSentOrReceived ?c1" using f by (simp add: RequestSentOrReceived_def)
    obtain b where b: "CreateBlock (cfg i) ?c1 = (Some b, ?c1\<lparr>header := Some b, blockSet := True\<rparr>)" "plHeader (pl i) p b"
      by (rule CreateBlock_steady[OF assms(1) s1 rq ag req])
    have v: "voices (log ?c1) = []" "unprocessed (log ?c1)" "\<not> blockProcessed ?c1" "ownCommit (pl i) ?c1 = None"
      using l l0(1) u steady_facts(2,3)[OF st] assms(4) by (simp_all add: hushed_def)
    obtain c3 where say: "sendPrepareResponse (cfg i) (?c1\<lparr>header := Some b, blockSet := True\<rparr>) = Inr c3"
      and c3: "steady (cfg i) (pl i) p R c3" and rq3: "RequestSentOrReceived c3" "\<not> blockProcessed c3" "CommitPayloads c3 = CommitPayloads ?c1"
      and put: "PreparationPayloads c3 = (PreparationPayloads ?c1)[?me := Some (prep (cfg i) (pl i) R ?me)]"
      by (rule answer_steady[OF assms(1) me assms(6) s1 rq ag all v b(2)])
    have gr: "grown c c3" using un assms(4) rq3 put by (auto simp: grown_def slot_update)
    have "onPrepareRequest (cfg i) rcv R c = checkPrepare (cfg i) c3"
      using un R f l0(2) adopt all b(1) say laws(1)[OF assms(1)] trusts(1,4)[OF assms(1)] ownCommit_sent(1)[OF assms(1) me]
      by (simp add: onPrepareRequest_def createAndCheckBlock_def)
    moreover have "returns {} (\<lambda>d. smooth (cfg i) (pl i) p R d \<and> grown c d \<and> heard d R) (checkPrepare (cfg i) c3)"
    proof (rule returns_mono[OF checkPrepare_smooth[OF assms(1) me c3 rq3(1) req _ rq3(2)]])
      fix d
      assume d: "smooth (cfg i) (pl i) p R d \<and> PreparationPayloads d = PreparationPayloads c3
        \<and> (\<forall>k. slot (CommitPayloads c3) k \<noteq> None \<longrightarrow> slot (CommitPayloads d) k \<noteq> None)"
      then have "grown c3 d" by (intro grown_steady[OF c3 _ rq3(2)]) simp_all
      moreover have "heard c3 R" using rq3(1) R by (simp add: heard_def)
      ultimately show "smooth (cfg i) (pl i) p R d \<and> grown c d \<and> heard d R" using d gr grown_trans grown_heard by blast
    qed (use u rq3(3) in simp)
    ultimately show ?thesis by simp
  qed
qed

subsection \<open>The start\<close>

lemma reset_fresh:
  assumes "i < n" and "log c = [ECall (CallStart 0)]" and "dcache c = newCache"
  obtains d where "reset (cfg i) 0 0 c = Inr d" and "fresh (cfg i) (pl i) d" and "dcache d = newCache"
proof -
  let ?w = "(pl i)\<lparr>plOthers := {}\<rparr>"
  have "startsAt (cfg i) ?w (log c)" using starts(1)[OF assms(1)] assms(2) by (simp add: startsAt_def)
  moreover have "primaryAt ?w c"
    using primaryAt_cong[OF starts(2)[OF assms(1)], of c] by (simp add: primaryAt_def)
  moreover have "spoken c = {}" using assms(2) by (simp add: spoken_def spokenIn_def)
  ultimately have "returns {OutOfFuel} (\<lambda>d. hon ?w (plOthers ?w) d \<and> \<not> RequestSentOrReceived d \<and> dcache d = newCache)
      (reset (cfg i) 0 0 c)"
    using assms(3) by (rule peer.reset_start[OF node[OF assms(1)]])
  then obtain d where d: "reset (cfg i) 0 0 c = Inr d" "hon ?w (plOthers ?w) d" "dcache d = newCache"
    using reset_no_fuel[of "cfg i" 0 0 c] by (cases "reset (cfg i) 0 0 c") auto
  note o = reset_Ok[OF d(1)] and h = reset_height_Ok[OF d(1)]
  have pl: "placed (pl i) d" using d(2) by (simp add: hon_def honest_def tablesOk_def placed_def)
  have "Priv d = privOf (cfg i) (pl i)"
  proof -
    have "Priv d = fst (snd (GetKeyPair (cfg i) (Validators d)))"
      by (rule reset_OkE[OF d(1)]) (simp add: resetState_def enterView_def resetRound_def Let_def split: prod.split)
    then show ?thesis using pl by (simp add: privOf_def placed_def)
  qed
  then have "fresh (cfg i) (pl i) d"
    using pl o h assms(2) by (simp add: fresh_def unprocessed_def)
  then show thesis using that d by blast
qed

lemma initialize_fresh:
  assumes "i < n" and "log c = [ECall (CallStart 0)]" and "dcache c = newCache"
  shows "returns {} (fresh (cfg i) (pl i)) (initializeConsensus (cfg i) rcv 0 0 c)"
proof -
  obtain d where d: "reset (cfg i) 0 0 c = Inr d" "fresh (cfg i) (pl i) d" "dcache d = newCache"
    by (rule reset_fresh[OF assms])
  let ?d = "d\<lparr>log := EStopTxFlow # log d\<rparr>"
  have f: "fresh (cfg i) (pl i) ?d" using d(2) by (simp add: fresh_log hushed_Cons)
  have "getHeight (BlockIndex ?d) (dcache ?d) = (None, dcache ?d)"
    using d(3) by (simp add: getHeight_def newCache_def)
  moreover have "?d\<lparr>dcache := dcache ?d\<rparr> = ?d" by simp
  ultimately have "replayCached (cfg i) rcv ?d = Inr ?d" by (simp only: replayCached_def prod.case option.case)
  then have "initializeConsensus (cfg i) rcv 0 0 c =
      (if WatchOnly (cfg i) ?d then Ok ?d else changeTimer (roundTimeout (cfg i) 0 ?d) ?d)"
    using d(1) by (simp add: initializeConsensus_def emit_def)
  then show ?thesis
    using f fresh_log[OF hushed_Cons f] by (simp add: changeTimer_def emit_def)
qed

lemma propose_smooth:
  assumes "i < n" and "fresh (cfg i) (pl i) c" and "plMe (pl i) = int (plPrimary (pl i) 0)"
  shows "returns {} (\<lambda>d. \<exists>p R. request (pl i) H p R \<and> smooth (cfg i) (pl i) p R d \<and> RequestSentOrReceived d)
    (sendPrepareRequest (cfg i) True c)"
proof -
  have me: "0 \<le> plMe (pl i)" using assms(3) by simp
  note s = steady_facts(1)[OF conjunct1[OF fresh_smooth(1)[OF assms(2), unfolded smooth_def]]]
  note f = stocked_facts[OF s]
  have fr: "unprocessed (log c)" "Transactions c = []" "voices (log c) = []" "\<not> blockProcessed c" "header c = None" "\<not> blockSet c"
    "\<And>k. slot (PreparationPayloads c) k = None" "\<And>k. slot (CommitPayloads c) k = None" "\<And>k. slot (ChangeViewPayloads c) k = None"
    using assms(2) by (simp_all add: fresh_def)
  let ?txx = "GetVerified (cfg i) (log c)"
  let ?hs = "map (txHash (cfg i)) ?txx" and ?ts = "fold (\<lambda>tx. AList.update (txHash (cfg i) tx) tx) ?txx []"
  let ?c0 = "c\<lparr>Nonce := Rand (cfg i) (log c), TransactionHashes := Some ?hs, Transactions := ?ts,
      Timestamp := lastBlockTimestamp c + TimestampIncrement (cfg i)\<rparr>"
  let ?now = "word_of_int (TimerNow (cfg i) (log c)) div TimestampIncrement (cfg i) * TimestampIncrement (cfg i)"
  have "Fill (cfg i) True c = Inr (True, if ?now > Timestamp ?c0 then ?c0\<lparr>Timestamp := ?now\<rparr> else ?c0)"
    using laws(3)[OF assms(1)] fr(2) by (simp add: Fill_def getTimestamp_def Let_def)
  then obtain t where fill: "Fill (cfg i) True c = Inr (True, c\<lparr>Nonce := Rand (cfg i) (log c), TransactionHashes := Some ?hs,
      Transactions := ?ts, Timestamp := t\<rparr>)"
    by (cases "?now > Timestamp ?c0") simp_all
  let ?c1 = "c\<lparr>Nonce := Rand (cfg i) (log c), TransactionHashes := Some ?hs, Transactions := ?ts, Timestamp := t\<rparr>"
  let ?p = "NewPrepareRequest t (Rand (cfg i) (log c)) (Some ?hs)"
  let ?R = "NewConsensusPayload PrepareRequestType (plIndex (pl i)) (of_nat (plPrimary (pl i) 0)) 0 (PrepareRequestMsg ?p)"
  have req: "request (pl i) H ?p ?R"
    using pool(2,3)[OF assms(1) fr(1)] by (simp add: request_def NewPrepareRequest_def)
  have len: "length ?ts = length ?hs"
    using length_fold_update[of "txHash (cfg i)" ?txx "[]"] pool(2)[OF assms(1) fr(1)] by simp
  let ?c2 = "?c1\<lparr>txSubscriptionOn := False, PreparationPayloads := (PreparationPayloads c)[nat (plMe (pl i)) := Some ?R],
      log := EBroadcast ?R # log c, prepareSentTime := TimerNow (cfg i) (EBroadcast ?R # log c)\<rparr>"
  define c3 where "c3 = ?c2\<lparr>log := ETimerReset (BlockIndex c) 0
      (wrap64 (shl64 (timePerBlock c) 1 - timePerBlock c)) # EBroadcast ?R # log c\<rparr>"
  have eq: "sendPrepareRequest (cfg i) True c = checkPrepare (cfg i) c3"
    using f assms(3) fill
    by (simp add: c3_def sendPrepareRequest_def makePrepareRequest_def proposeRequest_def unsubscribeFromTransactions_def
        broadcast_def emit_def changeTimer_def ownPayload_def NewConsensusPayload_def SetValidatorIndex_def)
  have rq: "RequestSentOrReceived c3" using f assms(3) by (simp add: c3_def RequestSentOrReceived_def)
  have pl: "placed (pl i) c3" by (rule placed_cong[OF f(1)]) (simp_all add: c3_def)
  have "stocked (cfg i) (pl i) ?p ?R c3"
    using pl rq s fr assms(3) by (simp add: stocked_def c3_def slot_update prep_def)
  moreover have "agrees ?p c3" by (simp add: agrees_def c3_def NewPrepareRequest_def)
  moreover have "hasAllTransactions c3" using len by (simp add: hasAllTransactions_def c3_def)
  ultimately have c3: "steady (cfg i) (pl i) ?p ?R c3"
    using rq fr placed_own(1)[OF f(1) me] by (simp add: steady_def c3_def)
  have "returns {} (\<lambda>d. smooth (cfg i) (pl i) ?p ?R d \<and> PreparationPayloads d = PreparationPayloads c3
      \<and> (\<forall>k. slot (CommitPayloads c3) k \<noteq> None \<longrightarrow> slot (CommitPayloads d) k \<noteq> None)) (checkPrepare (cfg i) c3)"
    by (rule checkPrepare_smooth[OF assms(1) me c3 rq req]) (use fr in \<open>simp_all add: c3_def\<close>)
  then show ?thesis
    unfolding eq
  proof (rule returns_mono)
    fix d
    assume d: "smooth (cfg i) (pl i) ?p ?R d \<and> PreparationPayloads d = PreparationPayloads c3
      \<and> (\<forall>k. slot (CommitPayloads c3) k \<noteq> None \<longrightarrow> slot (CommitPayloads d) k \<noteq> None)"
    have "grown c3 d" by (rule grown_steady[OF c3]) (use d fr in \<open>simp_all add: c3_def\<close>)
    then show "\<exists>p R. request (pl i) H p R \<and> smooth (cfg i) (pl i) p R d \<and> RequestSentOrReceived d"
      using d req rq by (auto simp: grown_def)
  qed
qed

lemma start_smooth:
  assumes "i < n"
  shows "plMe (pl i) \<noteq> int (plPrimary (pl i) 0) \<Longrightarrow>
      returns {} (fresh (cfg i) (pl i)) (exec (cfg i) (CallStart 0) (newDbft (cfg i)))"
    and "plMe (pl i) = int (plPrimary (pl i) 0) \<Longrightarrow>
      returns {} (\<lambda>d. \<exists>p R. request (pl i) H p R \<and> smooth (cfg i) (pl i) p R d \<and> RequestSentOrReceived d)
        (exec (cfg i) (CallStart 0) (newDbft (cfg i)))"
proof -
  let ?c = "(newDbft (cfg i))\<lparr>log := [ECall (CallStart 0)], dcache := newCache\<rparr>"
  obtain d where d: "initializeConsensus (cfg i) (OnReceive (cfg i)) 0 0 ?c = Inr d" "fresh (cfg i) (pl i) d"
    using initialize_fresh[OF assms, of ?c "OnReceive (cfg i)"]
    by (cases "initializeConsensus (cfg i) (OnReceive (cfg i)) 0 0 ?c") simp_all
  have pr: "IsPrimary d \<longleftrightarrow> plMe (pl i) = int (plPrimary (pl i) 0)"
    using d(2) by (simp add: fresh_def placed_def IsPrimary_def)
  have eq: "exec (cfg i) (CallStart 0) (newDbft (cfg i)) = (if IsPrimary d then sendPrepareRequest (cfg i) True d else Ok d)"
    using d(1) by (simp add: exec_def emit_def start_def newDbft_def)
  show "plMe (pl i) \<noteq> int (plPrimary (pl i) 0) \<Longrightarrow>
      returns {} (fresh (cfg i) (pl i)) (exec (cfg i) (CallStart 0) (newDbft (cfg i)))"
    using d(2) by (simp add: eq pr)
  show "plMe (pl i) = int (plPrimary (pl i) 0) \<Longrightarrow>
      returns {} (\<lambda>d. \<exists>p R. request (pl i) H p R \<and> smooth (cfg i) (pl i) p R d \<and> RequestSentOrReceived d)
        (exec (cfg i) (CallStart 0) (newDbft (cfg i)))"
    using propose_smooth[OF assms d(2)] by (simp add: eq pr)
qed

subsection \<open>Messages\<close>

lemma smooth_seen: "smooth cg w p R (c\<lparr>LastSeenMessage := (LastSeenMessage c)[k := z]\<rparr>) = smooth cg w p R c"
  by (simp add: smooth_def steady_def)

lemma message_facts:
  assumes "i < n" and "k < length (plValidators (pl i))" and "request (pl i) H p R"
    and "m = prep (cfg i) (pl i) R k \<or> vote (cfg i) (pl i) p k m"
  shows "height m = plIndex (pl i)" "viewNumber m = 0" "unat (validatorIndex m) = k" "body m \<noteq> NilPayload"
    "cmType m = CommitType \<or> cmType m = PrepareRequestType \<or> cmType m = PrepareResponseType"
proof -
  have "height m = plIndex (pl i) \<and> viewNumber m = 0 \<and> unat (validatorIndex m) = k \<and> body m \<noteq> NilPayload
      \<and> (cmType m = CommitType \<or> cmType m = PrepareRequestType \<or> cmType m = PrepareResponseType)"
  proof (cases "vote (cfg i) (pl i) p k m")
    case True
    then have "body m \<noteq> NilPayload" by (auto simp: vote_def)
    then show ?thesis using vote_facts[OF True assms(1,2)] by simp
  next
    case False
    then have m': "m = prep (cfg i) (pl i) R k" using assms(4) by blast
    have "body m \<noteq> NilPayload" using m' prep_facts(5)[OF assms(1-3)] by (simp add: prep_def)
    then show ?thesis using prep_facts(1-4)[OF assms(1-3)] m' by simp
  qed
  then show "height m = plIndex (pl i)" "viewNumber m = 0" "unat (validatorIndex m) = k" "body m \<noteq> NilPayload"
    "cmType m = CommitType \<or> cmType m = PrepareRequestType \<or> cmType m = PrepareResponseType"
    by simp_all
qed

text \<open>Such a message passes the guards of \<open>OnReceive\<close>.\<close>

lemma receive_dispatch:
  assumes "stocked cg w p R c" and "height m = plIndex w" and "viewNumber m = 0" and "body m \<noteq> NilPayload"
    and "unat (validatorIndex m) < length (plValidators w)"
    and "cmType m = CommitType \<or> cmType m = PrepareRequestType \<or> cmType m = PrepareResponseType"
  shows "exec cg (CallReceive m) c =
    (let e = noteSeen m (c\<lparr>log := ECall (CallReceive m) # log c\<rparr>)
     in if blockProcessed e then Ok e else dispatch cg (OnReceiveN cg 257) m e)"
proof -
  let ?c = "c\<lparr>log := ECall (CallReceive m) # log c\<rparr>"
  have "maxNesting = Suc 257" by (simp add: maxNesting_def)
  then have "OnReceive cg = OnReceiveN cg (Suc 257)" unfolding OnReceive_def by (rule arg_cong)
  then have "OnReceive cg m ?c = receive cg (OnReceiveN cg 257) m ?c" by (metis OnReceiveN.simps(2))
  moreover have "Validators ?c = plValidators w" "BlockIndex ?c = plIndex w" "ViewNumber ?c = 0"
    using stocked_facts[OF assms(1)] by simp_all
  then have "receive cg (OnReceiveN cg 257) m ?c =
      (let e = noteSeen m ?c in if blockProcessed e then Ok e else dispatch cg (OnReceiveN cg 257) m e)"
    using assms(2-6) by (auto simp: receive_def BlockSent_def Let_def)
  ultimately show ?thesis by (simp add: exec_def emit_def)
qed

lemma dispatch_smooth:
  assumes "i < n" and me: "0 \<le> plMe (pl i)" and c: "smooth (cfg i) (pl i) p R c" and np: "\<not> blockProcessed c"
    and req: "request (pl i) H p R" and k: "k < length (plValidators (pl i))" "int k \<noteq> plMe (pl i)"
    and m: "m = prep (cfg i) (pl i) R k \<or> vote (cfg i) (pl i) p k m"
  shows "returns {} (\<lambda>d. smooth (cfg i) (pl i) p R d \<and> grown c d \<and> heard d m) (dispatch (cfg i) rcv m c)"
proof (cases "vote (cfg i) (pl i) p k m")
  case True
  then show ?thesis
    using onCommit_smooth[OF assms(1) me c np req True k] vote_facts(1)[OF True assms(1) k(1)]
    by (simp add: dispatch_def)
next
  case nv: False
  then have m': "m = prep (cfg i) (pl i) R k" using m by blast
  note t = prep_facts(4)[OF assms(1) k(1) req, folded m']
  show ?thesis
  proof (cases "k = plPrimary (pl i) 0")
    case True
    then have "R = m" "plMe (pl i) \<noteq> int (plPrimary (pl i) 0)" using m' k(2) by (auto simp: prep_def)
    then show ?thesis using onPrepareRequest_smooth[OF assms(1) me c np req] t True by (simp add: dispatch_def)
  next
    case other: False
    then show ?thesis
      using onPrepareResponse_smooth[OF assms(1) me c np req k other, folded m'] t by (simp add: dispatch_def)
  qed
qed

lemma receive_smooth:
  assumes "i < n" and me: "0 \<le> plMe (pl i)" and "smooth (cfg i) (pl i) p R c" and req: "request (pl i) H p R"
    and k: "k < length (plValidators (pl i))" "int k \<noteq> plMe (pl i)"
    and m: "m = prep (cfg i) (pl i) R k \<or> vote (cfg i) (pl i) p k m"
  shows "returns {} (\<lambda>d. smooth (cfg i) (pl i) p R d \<and> grown c d \<and> heard d m) (exec (cfg i) (CallReceive m) c)"
proof -
  let ?c = "c\<lparr>log := ECall (CallReceive m) # log c\<rparr>"
  have c: "smooth (cfg i) (pl i) p R ?c" by (rule smooth_log[OF hushed_Cons assms(3)]) simp_all
  note sel = message_facts[OF assms(1) k(1) req m]
  define e where "e = noteSeen m ?c"
  have "e = ?c \<or> (\<exists>z. e = ?c\<lparr>LastSeenMessage := (LastSeenMessage ?c)[k := z]\<rparr>)"
    using sel by (auto simp: e_def noteSeen_def)
  then have es: "smooth (cfg i) (pl i) p R e" and g: "grown c e"
    using c smooth_seen[of "cfg i" "pl i" p R ?c k] by (auto simp: grown_def)
  have eq: "exec (cfg i) (CallReceive m) c =
      (if blockProcessed e then Ok e else dispatch (cfg i) (OnReceiveN (cfg i) 257) m e)"
    using receive_dispatch[OF steady_facts(1)[OF smooth_steady[OF assms(3)]]] sel k(1) by (simp add: e_def Let_def)
  show ?thesis
  proof (cases "blockProcessed e")
    case True
    then have "RequestSentOrReceived e" using steady_facts(5)[OF smooth_steady[OF es]] by blast
    then show ?thesis using True es g by (simp add: eq heard_def)
  next
    case False
    have "returns {} (\<lambda>d. smooth (cfg i) (pl i) p R d \<and> grown e d \<and> heard d m) (exec (cfg i) (CallReceive m) c)"
      using dispatch_smooth[OF assms(1) me es False req k m] False by (simp add: eq)
    then show ?thesis using g grown_trans by (auto elim!: returns_mono)
  qed
qed

end

end
