(* ===== verification/Decision.thy ===== *)
theory Decision
  imports Progress Runs
begin

section \<open>A whole height\<close>

text \<open>
  All nodes of a network together, while no timer fires: no channel is ever full, every broadcast
  is either still in a channel or known to the receiver, and each event uses up one message. So a
  run is finite, and when nothing is left to do, every validator has accepted the block.
\<close>

subsection \<open>Channels\<close>

definition saidAt :: "('tx, 'b, 'pb, 'pub, 'priv) simNode \<Rightarrow> payload list" where
  "saidAt nd = (case snState nd of None \<Rightarrow> [] | Some c \<Rightarrow> voices (log c))"

text \<open>The node needs \<open>m\<close> no more. A node that is no validator never does.\<close>

definition heardAt :: "('pub, 'b) place \<Rightarrow> ('tx, 'b, 'pb, 'pub, 'priv) simNode \<Rightarrow> payload \<Rightarrow> bool" where
  "heardAt w nd m \<longleftrightarrow> (case snState nd of None \<Rightarrow> False | Some c \<Rightarrow> 0 \<le> plMe w \<longrightarrow> heard c m)"

text \<open>How much was said, by all and by all but node \<open>i\<close>.\<close>

definition loud :: "nat set \<Rightarrow> ('tx, 'b, 'pb, 'pub, 'priv) simNode list \<Rightarrow> nat" where
  "loud js cl = (\<Sum>j \<in> {..<length cl} - js. length (saidAt (cl ! j)))"

definition flowing ::
    "(nat \<Rightarrow> ('pub, 'b) place) \<Rightarrow> ('tx, 'b, 'pb, 'pub, 'priv) simNode list \<Rightarrow> bool" where
  "flowing pl cl \<longleftrightarrow>
     (\<forall>i < length cl.
        (\<forall>m \<in> set (snMessages (cl ! i)). \<exists>j < length cl. j \<noteq> i \<and> m \<in> set (saidAt (cl ! j)))
        \<and> (\<forall>j < length cl. j \<noteq> i \<longrightarrow>
             (\<forall>m \<in> set (saidAt (cl ! j)). m \<in> set (snMessages (cl ! i)) \<or> heardAt (pl i) (cl ! i) m))
        \<and> length (snMessages (cl ! i)) \<le> loud {i} cl)"

text \<open>What is left to do: starts and deliveries.\<close>

definition pending :: "('tx, 'b, 'pb, 'pub, 'priv) simNode list \<Rightarrow> nat" where
  "pending cl =
     (\<Sum>j < length cl. (if snState (cl ! j) = None then 1 else 0) + length (snMessages (cl ! j)))"

lemma fold_chanSend: "length q + length ms \<le> defaultChanSize \<Longrightarrow> fold chanSend ms q = q @ ms"
  by (induction ms arbitrary: q) (simp_all add: chanSend_def)

lemma fold_chanSend_at_most: "length (fold chanSend ms q) \<le> length q + length ms"
proof (induction ms arbitrary: q)
  case (Cons m ms)
  show ?case using Cons[of "chanSend m q"] by (simp add: chanSend_def split: if_split_asm)
qed simp

lemma sendToOthers_at:
  assumes "i < length cl" and "j < length cl"
  shows "sendToOthers i ms (cl[i := nd]) ! j =
    (if j = i then nd else (cl ! j)\<lparr>snMessages := fold chanSend ms (snMessages (cl ! j))\<rparr>)"
  using assms by (simp add: sendToOthers_def)

lemma length_sendToOthers [simp]: "length (sendToOthers i ms cl) = length cl"
  by (simp add: sendToOthers_def)

lemma saidAt_queue [simp]: "saidAt (nd\<lparr>snMessages := q\<rparr>) = saidAt nd"
  by (simp add: saidAt_def)

lemma heardAt_queue [simp]: "heardAt w (nd\<lparr>snMessages := q\<rparr>) m = heardAt w nd m"
  by (simp add: heardAt_def)

lemma said_after:
  assumes "i < length cl" and "j < length cl"
  shows "saidAt (sendToOthers i ms (cl[i := nd]) ! j) = (if j = i then saidAt nd else saidAt (cl ! j))"
  by (simp add: sendToOthers_at[OF assms])

lemma sum_changed:
  fixes f g :: "nat \<Rightarrow> nat"
  assumes "finite A" and "i \<in> A" and "\<And>j. j \<in> A \<Longrightarrow> j \<noteq> i \<Longrightarrow> g j = f j" and "g i = f i + d"
  shows "sum g A = sum f A + d"
proof -
  have "sum g (A - {i}) = sum f (A - {i})" by (rule sum.cong) (use assms(3) in auto)
  then show ?thesis using assms(1,2,4) by (simp add: sum.remove)
qed

lemma loud_after:
  assumes "i < length cl" and "saidAt nd = new @ saidAt (cl ! i)"
  shows "loud js (sendToOthers i ms (cl[i := nd])) = loud js cl + (if i \<in> js then 0 else length new)"
proof (cases "i \<in> js")
  case True
  have "(\<Sum>j \<in> {..<length cl} - js. length (saidAt (sendToOthers i ms (cl[i := nd]) ! j)))
      = (\<Sum>j \<in> {..<length cl} - js. length (saidAt (cl ! j)))"
    by (rule sum.cong) (use True assms(1) said_after[OF assms(1)] in auto)
  then show ?thesis using True by (simp add: loud_def)
next
  case False
  have "(\<Sum>j \<in> {..<length cl} - js. length (saidAt (sendToOthers i ms (cl[i := nd]) ! j)))
      = (\<Sum>j \<in> {..<length cl} - js. length (saidAt (cl ! j))) + length new"
    by (rule sum_changed[where i = i]) (use False assms said_after[OF assms(1)] in auto)
  then show ?thesis using False by (simp add: loud_def)
qed

lemma loud_le: "loud js cl \<le> loud {} cl"
  unfolding loud_def by (rule sum_mono2) auto

lemma step_flowing:
  assumes f: "flowing pl cl" and i: "i < length cl" and new: "saidAt nd = new @ saidAt (cl ! i)"
    and q: "set (snMessages nd) \<subseteq> set (snMessages (cl ! i))" "length (snMessages nd) \<le> length (snMessages (cl ! i))"
    and h: "\<And>m. heardAt (pl i) (cl ! i) m \<Longrightarrow> heardAt (pl i) nd m"
      "\<And>m. m \<in> set (snMessages (cl ! i)) \<Longrightarrow> m \<in> set (snMessages nd) \<or> heardAt (pl i) nd m"
    and room: "loud {} (sendToOthers i (rev new) (cl[i := nd])) \<le> defaultChanSize"
  shows "flowing pl (sendToOthers i (rev new) (cl[i := nd]))"
  unfolding flowing_def
proof (intro allI impI)
  let ?cl = "sendToOthers i (rev new) (cl[i := nd])"
  fix k
  assume "k < length ?cl"
  then have k: "k < length cl" by simp
  have fk: "\<forall>m \<in> set (snMessages (cl ! k)). \<exists>j < length cl. j \<noteq> k \<and> m \<in> set (saidAt (cl ! j))"
    "\<forall>j < length cl. j \<noteq> k \<longrightarrow> (\<forall>m \<in> set (saidAt (cl ! j)). m \<in> set (snMessages (cl ! k)) \<or> heardAt (pl k) (cl ! k) m)"
    "length (snMessages (cl ! k)) \<le> loud {k} cl"
    using f k by (simp_all add: flowing_def)
  note said = said_after[OF i, of _ "rev new" nd]
  have grow: "set (saidAt (cl ! j)) \<subseteq> set (saidAt (?cl ! j))" if "j < length cl" for j
    using said[OF that] new by auto
  have at: "?cl ! k = (if k = i then nd else (cl ! k)\<lparr>snMessages := snMessages (cl ! k) @ rev new\<rparr>)"
  proof (cases "k = i")
    case False
    have "length (snMessages (cl ! k)) + length new \<le> loud {k} ?cl"
      using fk(3) loud_after[of i cl nd new "{k}" "rev new", OF i new] False by simp
    also have "\<dots> \<le> defaultChanSize" using loud_le room by (rule order_trans)
    finally show ?thesis using sendToOthers_at[OF i k, of "rev new" nd] False
      by (simp add: fold_chanSend)
  qed (use sendToOthers_at[OF i i] in simp)
  have "\<exists>j < length ?cl. j \<noteq> k \<and> m \<in> set (saidAt (?cl ! j))" if m: "m \<in> set (snMessages (?cl ! k))" for m
  proof (cases "m \<in> set (snMessages (cl ! k))")
    case True
    then show ?thesis using fk(1) grow by fastforce
  next
    case False
    then have "k \<noteq> i" "m \<in> set new" using m q(1) by (auto simp: at split: if_split_asm)
    then show ?thesis using i said[OF i] new by auto
  qed
  moreover have "m \<in> set (snMessages (?cl ! k)) \<or> heardAt (pl k) (?cl ! k) m"
    if j: "j < length ?cl" "j \<noteq> k" and m: "m \<in> set (saidAt (?cl ! j))" for j m
  proof (cases "m \<in> set (saidAt (cl ! j))")
    case True
    then have old: "m \<in> set (snMessages (cl ! k)) \<or> heardAt (pl k) (cl ! k) m" using fk(2) j by simp
    show ?thesis
    proof (cases "k = i")
      case True
      then have "?cl ! k = nd" using at by simp
      then show ?thesis using old h True by auto
    qed (use old in \<open>auto simp: at\<close>)
  next
    case False
    then have "j = i" "m \<in> set new" using m j said[of j] new by (auto split: if_split_asm)
    then show ?thesis using j(2) by (simp add: at)
  qed
  moreover have "length (snMessages (?cl ! k)) \<le> loud {k} ?cl"
    using fk(3) q(2) loud_after[of i cl nd new "{k}" "rev new", OF i new] by (auto simp: at)
  ultimately show "(\<forall>m \<in> set (snMessages (?cl ! k)). \<exists>j < length ?cl. j \<noteq> k \<and> m \<in> set (saidAt (?cl ! j)))
      \<and> (\<forall>j < length ?cl. j \<noteq> k \<longrightarrow>
           (\<forall>m \<in> set (saidAt (?cl ! j)). m \<in> set (snMessages (?cl ! k)) \<or> heardAt (pl k) (?cl ! k) m))
      \<and> length (snMessages (?cl ! k)) \<le> loud {k} ?cl"
    by blast
qed

text \<open>An event uses up one start or one delivery, and each broadcast causes one delivery per other node.\<close>

lemma step_pending:
  assumes i: "i < length cl"
    and nd: "snState nd \<noteq> None" "length (snMessages nd) + (if snState (cl ! i) = None then 0 else 1) \<le> length (snMessages (cl ! i))"
  shows "pending (sendToOthers i ms (cl[i := nd])) + 1 \<le> pending cl + (length cl - 1) * length ms"
proof -
  let ?cl = "sendToOthers i ms (cl[i := nd])"
  let ?w = "\<lambda>x::('a, 'b, 'c, 'd, 'e) simNode. (if snState x = None then 1 else 0) + length (snMessages x)"
  have A: "finite {..<length cl}" "i \<in> {..<length cl}" using i by simp_all
  have "(\<Sum>j \<in> {..<length cl} - {i}. ?w (?cl ! j)) \<le> (\<Sum>j \<in> {..<length cl} - {i}. ?w (cl ! j) + length ms)"
    by (rule sum_mono) (use fold_chanSend_at_most in \<open>auto simp: sendToOthers_at[OF i]\<close>)
  also have "\<dots> = (\<Sum>j \<in> {..<length cl} - {i}. ?w (cl ! j)) + (length cl - 1) * length ms"
    using i by (simp add: sum.distrib)
  finally have "(\<Sum>j \<in> {..<length cl} - {i}. ?w (?cl ! j))
      \<le> (\<Sum>j \<in> {..<length cl} - {i}. ?w (cl ! j)) + (length cl - 1) * length ms" .
  moreover have "?w (?cl ! i) + 1 \<le> ?w (cl ! i)" using nd by (auto simp: sendToOthers_at[OF i i])
  ultimately have "?w (?cl ! i) + (\<Sum>j \<in> {..<length cl} - {i}. ?w (?cl ! j)) + 1
      \<le> ?w (cl ! i) + (\<Sum>j \<in> {..<length cl} - {i}. ?w (cl ! j)) + (length cl - 1) * length ms"
    by linarith
  then show ?thesis
    using sum.remove[OF A, of "\<lambda>j. ?w (?cl ! j)"] sum.remove[OF A, of "\<lambda>j. ?w (cl ! j)"]
    by (simp add: pending_def)
qed


subsection \<open>Events\<close>

text \<open>A start or a delivery at node \<open>i\<close>, which leaves node \<open>nd\<close> and says \<open>new\<close>.\<close>

definition acts ::
    "(nat \<Rightarrow> ('tx, 'b, 'pb, 'pub, 'priv) config) \<Rightarrow> nat \<Rightarrow> ('tx, 'b, 'pb, 'pub, 'priv) simNode \<Rightarrow> payload list
       \<Rightarrow> ('tx, 'b, 'pb, 'pub, 'priv) simNode list \<Rightarrow> bool" where
  "acts cfg i nd new cl \<longleftrightarrow>
     i < length cl \<and> saidAt nd = new @ saidAt (cl ! i)
     \<and> (\<exists>d. snState nd = Some d
          \<and> ((snState (cl ! i) = None \<and> snMessages nd = snMessages (cl ! i)
                \<and> exec (cfg i) (CallStart 0) (newDbft (cfg i)) = Inr d)
             \<or> (\<exists>c m. snState (cl ! i) = Some c \<and> snMessages (cl ! i) = m # snMessages nd
                  \<and> exec (cfg i) (CallReceive m) c = Inr d)))"

text \<open>The starts and deliveries at the nodes in \<open>L\<close>.\<close>

fun serves :: "nat set \<Rightarrow> event \<Rightarrow> bool" where
  "serves L (EvTimeout i) = False"
| "serves L (EvStart i) = (i \<in> L)"
| "serves L (EvMessage i) = (i \<in> L)"

fun isTimeout :: "event \<Rightarrow> bool" where
  "isTimeout (EvTimeout i) = True"
| "isTimeout (EvStart i) = False"
| "isTimeout (EvMessage i) = False"

lemma serves_no_timeout: "serves L e \<Longrightarrow> \<not> isTimeout e"
  by (cases e) simp_all

lemma broadcasts_voices: "log d = es @ log c \<Longrightarrow> broadcastsOf c d = rev (voices es)"
proof -
  have "List.map_filter (\<lambda>e. case e of EBroadcast m \<Rightarrow> Some m | _ \<Rightarrow> None) xs = voices xs"
    for xs :: "('tx, 'b, 'pb) effect list"
    by (induction xs) (simp_all add: List.map_filter_simps split: effect.split)
  then show "log d = es @ log c \<Longrightarrow> broadcastsOf c d = rev (voices es)" by (simp add: broadcastsOf_def)
qed

lemma event_acts:
  assumes "simEvent cfg e cl = Some cl'" and "\<not> isTimeout e" and "cluster_ok cfg cl"
  obtains i nd new where "acts cfg i nd new cl" and "cl' = sendToOthers i (rev new) (cl[i := nd])"
proof (cases e)
  case (EvStart i)
  then obtain d where i: "i < length cl" "snState (cl ! i) = None" "exec (cfg i) (CallStart 0) (newDbft (cfg i)) = Inr d"
    and cl': "cl' = sendToOthers i (broadcastsOf (newDbft (cfg i)) d) (cl[i := \<lparr>snState = Some d, snMessages = snMessages (cl ! i)\<rparr>])"
    using assms(1) by (auto simp: finish_Some split: if_split_asm option.split_asm)
  have "broadcastsOf (newDbft (cfg i)) d = rev (voices (log d))"
    by (rule broadcasts_voices) (simp add: newDbft_def)
  then show thesis
    using that[of i "\<lparr>snState = Some d, snMessages = snMessages (cl ! i)\<rparr>" "voices (log d)"] i cl'
    by (simp add: acts_def saidAt_def)
next
  case (EvTimeout i)
  then show thesis using assms(2) by simp
next
  case (EvMessage i)
  then obtain c m ms d where i: "i < length cl" "snState (cl ! i) = Some c" "snMessages (cl ! i) = m # ms"
      "exec (cfg i) (CallReceive m) c = Inr d"
    and cl': "cl' = sendToOthers i (broadcastsOf c d) (cl[i := \<lparr>snState = Some d, snMessages = ms\<rparr>])"
    using assms(1) by (auto simp: finish_Some split: if_split_asm option.split_asm list.split_asm)
  have "reachable (cfg i) c" using assms(3) i(1,2) by (auto simp: cluster_ok_def node_ok_def)
  then have "may (cfg i) c d" using exec_may[OF i(4) reachable_wf] by simp
  then obtain es where es: "log d = es @ log c" using nsteps_log_grows[of "cfg i" c d] by (auto simp: may_def)
  then show thesis
    using that[of i "\<lparr>snState = Some d, snMessages = ms\<rparr>" "voices es"] i cl' broadcasts_voices[OF es]
    by (simp add: acts_def saidAt_def)
qed

lemma acts_pending:
  assumes "acts cfg i nd new cl"
  shows "pending (sendToOthers i (rev new) (cl[i := nd])) + 1 \<le> pending cl + (length cl - 1) * length new"
proof -
  have "snState nd \<noteq> None" "length (snMessages nd) + (if snState (cl ! i) = None then 0 else 1) \<le> length (snMessages (cl ! i))"
    using assms by (auto simp: acts_def)
  then show ?thesis using step_pending[of i cl nd "rev new"] assms by (simp add: acts_def)
qed

lemma simRun_append:
  "simRun cfg (es @ fs) cl = (case simRun cfg es cl of None \<Rightarrow> None | Some t \<Rightarrow> simRun cfg fs t)"
  by (induction es arbitrary: cl) (simp_all split: option.split)

text \<open>The length of a run is bounded by what is said in it.\<close>

lemma run_length:
  assumes "simRun cfg es cl = Some cl'" and "cluster_ok cfg cl" and "\<forall>e \<in> set es. \<not> isTimeout e"
  shows "length es + pending cl' + (length cl - 1) * loud {} cl \<le> pending cl + (length cl - 1) * loud {} cl'"
  using assms
proof (induction es arbitrary: cl)
  case (Cons e es)
  then obtain t where t: "simEvent cfg e cl = Some t" "simRun cfg es t = Some cl'"
    by (auto split: option.split_asm)
  obtain i nd new where a: "acts cfg i nd new cl" and u: "t = sendToOthers i (rev new) (cl[i := nd])"
    by (rule event_acts[OF t(1)]) (use Cons.prems in auto)
  have len: "length t = length cl" by (simp add: u)
  have "loud {} t = loud {} cl + length new"
    using loud_after[of i cl nd new "{}" "rev new"] a by (simp add: u acts_def)
  moreover have "pending t + 1 \<le> pending cl + (length cl - 1) * length new"
    using acts_pending[OF a] by (simp add: u)
  moreover have "cluster_ok cfg t" by (rule simStep_ok[OF simEvent_step[OF t(1)] Cons.prems(2)])
  then have "length es + pending cl' + (length cl - 1) * loud {} t \<le> pending t + (length cl - 1) * loud {} cl'"
    using Cons.IH[OF t(2)] Cons.prems(3) len by simp
  ultimately show ?case by (simp add: algebra_simps)
qed simp


subsection \<open>Nodes that nothing disturbs\<close>

lemma countView_card:
  assumes "\<And>k m. slot xs k = Some m \<Longrightarrow> viewNumber m = v"
  shows "countView v xs = card {k. slot xs k \<noteq> None}"
proof -
  have "viewNumber m = v" if "m \<in> set (present xs)" for m using that assms by (auto simp: present_slot)
  then have "countView v xs = length (present xs)" by (simp add: countView_def)
  also have "\<dots> = card {k. k < length xs \<and> xs ! k \<noteq> None}"
    unfolding present_def length_map by (rule length_filter_conv_card)
  also have "{k. k < length xs \<and> xs ! k \<noteq> None} = {k. slot xs k \<noteq> None}" by (auto simp: slot_def)
  finally show ?thesis .
qed

lemma finite_filled: "finite {k. slot xs k \<noteq> None}"
  by (rule finite_subset[of _ "{..<length xs}"]) (auto simp: slot_def split: if_split_asm)

definition calm ::
    "('tx, 'b, 'pb, 'pub, 'priv) config \<Rightarrow> ('pub, 'b) place \<Rightarrow> prepareRequest \<Rightarrow> payload
       \<Rightarrow> ('tx, 'b, 'pb, 'pub, 'priv) simNode \<Rightarrow> bool" where
  "calm cfg w p R nd \<longleftrightarrow>
     (case snState nd of
        None \<Rightarrow> True
      | Some c \<Rightarrow>
          if 0 \<le> plMe w then smooth cfg w p R c \<and> (plMe w = int (plPrimary w 0) \<longrightarrow> RequestSentOrReceived c)
          else voices (log c) = [])"

text \<open>The request \<open>R\<close> is the one that the primary sends when it starts.\<close>

definition chosen ::
    "('tx, 'b, 'pb, 'pub, 'priv) config \<Rightarrow> ('pub, 'b) place \<Rightarrow> prepareRequest \<Rightarrow> payload \<Rightarrow> bool" where
  "chosen cfg w p R \<longleftrightarrow>
     (plMe w = int (plPrimary w 0) \<longrightarrow>
        returns {} (\<lambda>d. smooth cfg w p R d \<and> RequestSentOrReceived d) (exec cfg (CallStart 0) (newDbft cfg)))"

lemma calm_queue [simp]: "calm cfg w p R (nd\<lparr>snMessages := q\<rparr>) = calm cfg w p R nd"
  by (simp add: calm_def)

lemma smooth_says:
  assumes "smooth cfg w p R c"
  shows "length (voices (log c)) \<le> 2"
    and "m \<in> set (voices (log c)) \<Longrightarrow> m = prep cfg w R (nat (plMe w)) \<or> vote cfg w p (nat (plMe w)) m"
    and "RequestSentOrReceived c \<Longrightarrow> prep cfg w R (nat (plMe w)) \<in> set (voices (log c))"
    and "ownCommit w c = Some m \<Longrightarrow> m \<in> set (voices (log c))"
proof -
  note st = smooth_steady[OF assms] note s = steady_facts(1)[OF st] note v = steady_facts(2)[OF st]
  show "length (voices (log c)) \<le> 2"
    unfolding v by (simp add: opt_def split: option.split)
  show "m \<in> set (voices (log c)) \<Longrightarrow> m = prep cfg w R (nat (plMe w)) \<or> vote cfg w p (nat (plMe w)) m"
    unfolding v using stocked_slots(1,2)[OF s] by (auto simp: opt_def split: option.split_asm)
  show "RequestSentOrReceived c \<Longrightarrow> prep cfg w R (nat (plMe w)) \<in> set (voices (log c))"
    unfolding v using stocked_slots(1)[OF s] steady_facts(4)[OF st] by (auto simp: opt_def split: option.split)
  show "ownCommit w c = Some m \<Longrightarrow> m \<in> set (voices (log c))" unfolding v by simp
qed

lemma watcher_silent: "hon w B d \<Longrightarrow> plMe w < 0 \<Longrightarrow> voices (log d) = []"
proof -
  assume h: "hon w B d" and "plMe w < 0"
  then have "spoken d = {}" by (auto simp: hon_def honest_def ownOk_def)
  then show "voices (log d) = []" by (metis set_empty set_voices spoken_def)
qed

definition undisturbed ::
    "(nat \<Rightarrow> ('tx, 'b, 'pb, 'pub, 'priv) config) \<Rightarrow> nat \<Rightarrow> (nat \<Rightarrow> ('pub, 'b) place) \<Rightarrow> Uint256 set
       \<Rightarrow> prepareRequest \<Rightarrow> payload \<Rightarrow> ('tx, 'b, 'pb, 'pub, 'priv) simNode list \<Rightarrow> bool" where
  "undisturbed cfg n pl H p R cl \<longleftrightarrow>
     allHonest n pl cl \<and> cluster_ok cfg cl \<and> flowing pl cl \<and> (\<forall>j < n. calm (cfg j) (pl j) p R (cl ! j))
     \<and> (\<forall>i < n. request (pl i) H p R \<and> chosen (cfg i) (pl i) p R)"

text \<open>A quorum of validators with the primary of view 0 among them. The others may stop at any time.\<close>

definition quorate :: "(nat \<Rightarrow> ('pub, 'b) place) \<Rightarrow> nat \<Rightarrow> nat set \<Rightarrow> bool" where
  "quorate pl n L \<longleftrightarrow>
     L \<subseteq> {..<n} \<and> (\<forall>i \<in> L. 0 \<le> plMe (pl i)) \<and> (\<exists>i \<in> L. plMe (pl i) = int (plPrimary (pl i) 0))
     \<and> (\<forall>i < n. plM (pl i) \<le> card L)"

definition seats :: "(nat \<Rightarrow> ('pub, 'b) place) \<Rightarrow> nat set \<Rightarrow> nat set" where
  "seats pl L = (\<lambda>i. nat (plMe (pl i))) ` L"

context lively
begin

lemma shared_messages:
  assumes "i < n" and "j < n"
  shows "prep (cfg i) (pl i) R k = prep (cfg j) (pl j) R k" "vote (cfg i) (pl i) p k m = vote (cfg j) (pl j) p k m"
    "request (pl i) H p R = request (pl j) H p R"
  unfolding prep_def vote_def request_def
    same(1)[OF assms] same(2)[OF assms] same(3)[OF assms] shared(1)[OF assms] shared(2)[OF assms] shared(3)[OF assms]
  by (rule refl)+

lemma validators: "i < n \<Longrightarrow> plMe (pl i) < int (length (plValidators (pl i)))"
  using starts(1) by (simp add: startsAt_def)

lemma choice:
  obtains p R where "\<And>i. i < n \<Longrightarrow> request (pl i) H p R" and "\<And>i. i < n \<Longrightarrow> chosen (cfg i) (pl i) p R"
proof (cases "\<exists>i < n. plMe (pl i) = int (plPrimary (pl i) 0)")
  case True
  then obtain i where i: "i < n" "plMe (pl i) = int (plPrimary (pl i) 0)" by blast
  obtain d p R where d: "exec (cfg i) (CallStart 0) (newDbft (cfg i)) = Inr d"
    and r: "request (pl i) H p R" "smooth (cfg i) (pl i) p R d" "RequestSentOrReceived d"
    using start_smooth(2)[OF i] by (cases "exec (cfg i) (CallStart 0) (newDbft (cfg i))") auto
  have "chosen (cfg j) (pl j) p R" if j: "j < n" for j
  proof (cases "plMe (pl j) = int (plPrimary (pl j) 0)")
    case True
    then have "j = i" using alone[OF j i(1)] i(2) same(1)[OF j i(1)] by simp
    then show ?thesis using d r by (simp add: chosen_def)
  qed (simp add: chosen_def)
  then show thesis using that r(1) shared_messages(3)[OF _ i(1)] by blast
next
  case False
  let ?p = "NewPrepareRequest 0 0 (Some [])"
  let ?R = "NewConsensusPayload PrepareRequestType (plIndex (pl 0)) (of_nat (plPrimary (pl 0) 0)) 0 (PrepareRequestMsg ?p)"
  have "request (pl i) H ?p ?R" if "i < n" for i
    using shared_messages(3)[OF that, of 0 ?p ?R] that by (simp add: request_def NewPrepareRequest_def)
  then show thesis using that False by (force simp: chosen_def)
qed

lemma calm_said:
  assumes "\<And>j. j < n \<Longrightarrow> calm (cfg j) (pl j) p R (cl ! j)" and "length cl = n" and "i < n"
  shows "loud {} cl \<le> 2 * length (plValidators (pl i))"
proof -
  let ?V = "{j. j < n \<and> 0 \<le> plMe (pl j)}"
  have "length (saidAt (cl ! j)) \<le> (if j \<in> ?V then 2 else 0)" if "j < n" for j
    using assms(1)[OF that] smooth_says(1) that by (auto simp: calm_def saidAt_def split: option.split_asm)
  then have "loud {} cl \<le> (\<Sum>j < n. if j \<in> ?V then 2 else 0)"
    unfolding loud_def assms(2) Diff_empty by (intro sum_mono) auto
  also have "\<dots> = 2 * card ?V"
  proof -
    have "{..<n} \<inter> {j. 0 \<le> plMe (pl j)} = ?V" by auto
    then show ?thesis by (simp add: sum.If_cases)
  qed
  also have "card ?V \<le> card {..<length (plValidators (pl i))}"
  proof (rule card_inj_on_le)
    show "inj_on (\<lambda>j. nat (plMe (pl j))) ?V"
      using alone by (auto intro!: inj_onI)
    show "(\<lambda>j. nat (plMe (pl j))) ` ?V \<subseteq> {..<length (plValidators (pl i))}"
      using validators same(3)[OF assms(3)] by fastforce
  qed simp
  finally show ?thesis by simp
qed

text \<open>What an event does to its node.\<close>

lemma started_calm:
  assumes "i < n" and "chosen (cfg i) (pl i) p R"
  shows "returns {} (\<lambda>d. calm (cfg i) (pl i) p R \<lparr>snState = Some d, snMessages = q\<rparr>)
    (exec (cfg i) (CallStart 0) (newDbft (cfg i)))"
proof (cases "plMe (pl i) = int (plPrimary (pl i) 0)")
  case True
  then show ?thesis using assms(2) by (simp add: chosen_def calm_def)
next
  case False
  then show ?thesis
    by (intro returns_mono[OF start_smooth(1)[OF assms(1)]]) (auto simp: calm_def fresh_smooth(1), simp add: fresh_def)
qed

lemma received_calm:
  assumes "i < n" and "j < n" and "j \<noteq> i" and "0 \<le> plMe (pl i)" and "request (pl i) H p R"
    and "calm (cfg i) (pl i) p R \<lparr>snState = Some c, snMessages = q\<rparr>" and "calm (cfg j) (pl j) p R nd" and "m \<in> set (saidAt nd)"
  shows "returns {} (\<lambda>d. calm (cfg i) (pl i) p R \<lparr>snState = Some d, snMessages = q'\<rparr> \<and> grown c d \<and> heard d m)
    (exec (cfg i) (CallReceive m) c)"
proof -
  let ?k = "nat (plMe (pl j))"
  have c: "smooth (cfg i) (pl i) p R c" "plMe (pl i) = int (plPrimary (pl i) 0) \<Longrightarrow> RequestSentOrReceived c"
    using assms(4,6) by (simp_all add: calm_def)
  have j: "0 \<le> plMe (pl j)" "m = prep (cfg j) (pl j) R ?k \<or> vote (cfg j) (pl j) p ?k m"
    using assms(7,8) smooth_says(2)[of "cfg j" "pl j" p R _ m]
    by (auto simp: calm_def saidAt_def split: option.split_asm if_split_asm)
  have "?k < length (plValidators (pl i))" using validators[OF assms(2)] j(1) same(3)[OF assms(1,2)] by simp
  moreover have "int ?k \<noteq> plMe (pl i)" using alone[OF assms(1,2,4)] assms(3) j(1) by auto
  moreover have "m = prep (cfg i) (pl i) R ?k \<or> vote (cfg i) (pl i) p ?k m"
    using j(2) shared_messages(1,2)[OF assms(1,2)] by simp
  ultimately show ?thesis
    using returns_mono[OF receive_smooth[OF assms(1,4) c(1) assms(5)]] c(2) assms(4) by (simp add: calm_def grown_def)
qed

lemma acts_calm:
  assumes a: "acts cfg i nd new cl" and honest: "allHonest n pl cl" and f: "flowing pl cl"
    and req: "\<And>i. i < n \<Longrightarrow> request (pl i) H p R" and ch: "\<And>i. i < n \<Longrightarrow> chosen (cfg i) (pl i) p R"
    and calm: "\<And>j. j < n \<Longrightarrow> calm (cfg j) (pl j) p R (cl ! j)"
  shows "calm (cfg i) (pl i) p R nd" (is "?calm nd")
    and "heardAt (pl i) (cl ! i) m \<Longrightarrow> heardAt (pl i) nd m"
    and "m \<in> set (snMessages (cl ! i)) \<Longrightarrow> m \<in> set (snMessages nd) \<or> heardAt (pl i) nd m"
proof -
  have len: "length cl = n" using honest by (rule allHonest_length)
  then have i: "i < n" using a by (simp add: acts_def)
  obtain d where d: "snState nd = Some d" using a by (auto simp: acts_def)
  then have nd: "nd = \<lparr>snState = Some d, snMessages = snMessages nd\<rparr>" by simp
  consider (start) "snState (cl ! i) = None" "snMessages nd = snMessages (cl ! i)" "exec (cfg i) (CallStart 0) (newDbft (cfg i)) = Inr d"
    | (msg) c x where "snState (cl ! i) = Some c" "snMessages (cl ! i) = x # snMessages nd" "exec (cfg i) (CallReceive x) c = Inr d"
    using a d by (auto simp: acts_def)
  then have "?calm nd \<and> (\<forall>m. heardAt (pl i) (cl ! i) m \<longrightarrow> heardAt (pl i) nd m)
      \<and> (\<forall>m \<in> set (snMessages (cl ! i)). m \<in> set (snMessages nd) \<or> heardAt (pl i) nd m)"
  proof cases
    case start
    then have "?calm nd" using started_calm[OF i ch[OF i], of "snMessages nd"] nd by simp
    then show ?thesis using start by (simp add: heardAt_def)
  next
    case msg
    show ?thesis
    proof (cases "0 \<le> plMe (pl i)")
      case True
      have "x \<in> set (snMessages (cl ! i))" by (simp add: msg(2))
      then obtain j where j: "j < n" "j \<noteq> i" "x \<in> set (saidAt (cl ! j))"
        using f i len unfolding flowing_def by metis
      have "calm (cfg i) (pl i) p R \<lparr>snState = Some c, snMessages = []\<rparr>"
        using calm[OF i] msg(1) by (simp add: calm_def)
      then have "?calm nd \<and> grown c d \<and> heard d x"
        using received_calm[OF i j(1,2) True req[OF i] _ calm[OF j(1)] j(3), of c "[]" "snMessages nd"] msg(3) nd by simp
      then show ?thesis using msg(1,2) d grown_heard[of c d] by (auto simp: heardAt_def)
    next
      case False
      have "hon (placeIn cl i (pl i)) (spokenBy UNIV cl) d"
        using receive_returns[OF honest i msg(1), of x] msg(2,3) by simp
      then have "voices (log d) = []" by (rule watcher_silent) (use False in simp)
      then show ?thesis using d False by (simp add: calm_def heardAt_def)
    qed
  qed
  then show "?calm nd" "heardAt (pl i) (cl ! i) m \<Longrightarrow> heardAt (pl i) nd m"
    "m \<in> set (snMessages (cl ! i)) \<Longrightarrow> m \<in> set (snMessages nd) \<or> heardAt (pl i) nd m"
    by blast+
qed

lemma undisturbed_event:
  assumes u: "undisturbed cfg n pl H p R cl" and e: "simEvent cfg e cl = Some cl'" "\<not> isTimeout e"
  shows "undisturbed cfg n pl H p R cl'"
proof -
  have ok: "allHonest n pl cl" "cluster_ok cfg cl" "flowing pl cl" "\<And>j. j < n \<Longrightarrow> calm (cfg j) (pl j) p R (cl ! j)"
    "\<And>j. j < n \<Longrightarrow> request (pl j) H p R" "\<And>j. j < n \<Longrightarrow> chosen (cfg j) (pl j) p R"
    using u by (simp_all add: undisturbed_def)
  have len: "length cl = n" using ok(1) by (rule allHonest_length)
  obtain i nd new where a: "acts cfg i nd new cl" and cl': "cl' = sendToOthers i (rev new) (cl[i := nd])"
    by (rule event_acts[OF e ok(2)])
  note act = acts_calm[OF a ok(1,3,5,6,4)]
  have i: "i < length cl" and new: "saidAt nd = new @ saidAt (cl ! i)" using a by (simp_all add: acts_def)
  have calm': "calm (cfg j) (pl j) p R (cl' ! j)" if j: "j < n" for j
    using ok(4)[OF j] act(1) sendToOthers_at[OF i, of j "rev new" nd] j len by (simp add: cl')
  have "loud {} cl' \<le> defaultChanSize"
    using order_trans[OF calm_said[of p R cl' i] room[of i]] calm' len i by (simp add: cl')
  moreover have "set (snMessages nd) \<subseteq> set (snMessages (cl ! i))" "length (snMessages nd) \<le> length (snMessages (cl ! i))"
    using a by (auto simp: acts_def)
  ultimately have "flowing pl cl'"
    using step_flowing[OF ok(3) i new _ _ act(2,3)] by (simp add: cl')
  moreover note step = simEvent_step[OF e(1)]
  ultimately show ?thesis
    using simStep_honest[OF step ok(1)] simStep_ok[OF step ok(2)] calm' ok(5,6) by (simp add: undisturbed_def)
qed

lemma undisturbed_run:
  "undisturbed cfg n pl H p R cl \<Longrightarrow> simRun cfg es cl = Some cl' \<Longrightarrow> \<forall>e \<in> set es. \<not> isTimeout e \<Longrightarrow> undisturbed cfg n pl H p R cl'"
  by (induction es arbitrary: cl) (auto intro: undisturbed_event split: option.split_asm)

lemma undisturbed_init:
  obtains p R where "undisturbed cfg n pl H p R (simInit n)"
proof -
  obtain p R where "\<And>i. i < n \<Longrightarrow> request (pl i) H p R" "\<And>i. i < n \<Longrightarrow> chosen (cfg i) (pl i) p R"
    by (rule choice) blast
  moreover have "flowing pl (simInit n)" by (simp add: flowing_def simInit_def saidAt_def)
  ultimately have "undisturbed cfg n pl H p R (simInit n)"
    using init_honest cluster_ok_init[of cfg n] by (simp add: undisturbed_def calm_def simInit_def)
  then show thesis by (rule that)
qed

text \<open>A run without timeouts ends.\<close>

lemma few_events:
  assumes "simRun cfg es (simInit n) = Some cl" and "\<forall>e \<in> set es. \<not> isTimeout e" and "i < n"
  shows "length es \<le> n + (n - 1) * (2 * length (plValidators (pl i)))"
proof -
  obtain p R where "undisturbed cfg n pl H p R (simInit n)" by (rule undisturbed_init)
  then have u: "undisturbed cfg n pl H p R cl" by (rule undisturbed_run[OF _ assms(1,2)])
  have "loud {} cl \<le> 2 * length (plValidators (pl i))"
    by (rule calm_said[OF _ _ assms(3)]) (use u allHonest_length in \<open>auto simp: undisturbed_def\<close>)
  then have "(n - 1) * loud {} cl \<le> (n - 1) * (2 * length (plValidators (pl i)))" by (rule mult_le_mono2)
  moreover have "length es \<le> n + (n - 1) * loud {} cl"
    using run_length[OF assms(1) cluster_ok_init assms(2)] by (simp add: simInit_def pending_def)
  ultimately show ?thesis by linarith
qed

subsection \<open>When nothing is left to do\<close>

lemma quorateD:
  assumes "quorate pl n L"
  shows "i \<in> L \<Longrightarrow> i < n" "i \<in> L \<Longrightarrow> 0 \<le> plMe (pl i)" "\<exists>i \<in> L. plMe (pl i) = int (plPrimary (pl i) 0)"
    "i < n \<Longrightarrow> plM (pl i) \<le> card (seats pl L)" "i < n \<Longrightarrow> seats pl L \<subseteq> {..<length (plValidators (pl i))}"
proof -
  have L: "L \<subseteq> {..<n}" "\<And>i. i \<in> L \<Longrightarrow> 0 \<le> plMe (pl i)" "\<exists>i \<in> L. plMe (pl i) = int (plPrimary (pl i) 0)"
    "\<And>i. i < n \<Longrightarrow> plM (pl i) \<le> card L"
    using assms by (simp_all add: quorate_def)
  show "i \<in> L \<Longrightarrow> i < n" "i \<in> L \<Longrightarrow> 0 \<le> plMe (pl i)" using L(1,2) by auto
  show "\<exists>i \<in> L. plMe (pl i) = int (plPrimary (pl i) 0)" by (rule L(3))
  have "inj_on (\<lambda>i. nat (plMe (pl i))) L"
  proof (rule inj_onI)
    fix i j
    assume i: "i \<in> L" and j: "j \<in> L" and eq: "nat (plMe (pl i)) = nat (plMe (pl j))"
    have "plMe (pl i) = plMe (pl j)" using eq L(2)[OF i] L(2)[OF j] by simp
    then show "i = j" using alone[of i j] L(1) i j L(2)[OF i] by blast
  qed
  then show "i < n \<Longrightarrow> plM (pl i) \<le> card (seats pl L)" using L(4) by (simp add: seats_def card_image)
  show "i < n \<Longrightarrow> seats pl L \<subseteq> {..<length (plValidators (pl i))}"
  proof
    fix k
    assume i: "i < n" and "k \<in> seats pl L"
    then obtain j where "j < n" "0 \<le> plMe (pl j)" "k = nat (plMe (pl j))" using L(1,2) by (auto simp: seats_def)
    then show "k \<in> {..<length (plValidators (pl i))}" using validators[of j] same(3)[OF i] by simp
  qed
qed

lemma quiet_started:
  assumes u: "undisturbed cfg n pl H p R cl" and q: "\<forall>e. serves L e \<longrightarrow> simEvent cfg e cl = None"
    and L: "quorate pl n L" "i \<in> L"
  obtains c where "snState (cl ! i) = Some c"
proof (cases "snState (cl ! i)")
  case None
  have i: "i < n" by (rule quorateD(1)[OF L])
  have "chosen (cfg i) (pl i) p R" using u i by (simp add: undisturbed_def)
  then obtain d where "exec (cfg i) (CallStart 0) (newDbft (cfg i)) = Inr d"
    using started_calm[OF i, of p R] by (cases "exec (cfg i) (CallStart 0) (newDbft (cfg i))") simp_all
  then have "simEvent cfg (EvStart i) cl \<noteq> None"
    using None i u allHonest_length[of n pl cl] by (simp add: undisturbed_def finish_def)
  then show thesis using q[rule_format, of "EvStart i"] L(2) by simp
qed

lemma quiet_heard:
  assumes u: "undisturbed cfg n pl H p R cl" and q: "\<forall>e. serves L e \<longrightarrow> simEvent cfg e cl = None"
    and L: "quorate pl n L" "i \<in> L" and c: "snState (cl ! i) = Some c" and j: "j < n" "j \<noteq> i"
    and m: "m \<in> set (saidAt (cl ! j))"
  shows "heard c m"
proof -
  have i: "i < n" "0 \<le> plMe (pl i)" "snState (cl ! i) = Some c" using quorateD(1,2)[OF L] c by simp_all
  have ok: "allHonest n pl cl" "flowing pl cl" "\<And>j. j < n \<Longrightarrow> calm (cfg j) (pl j) p R (cl ! j)"
    "\<And>j. j < n \<Longrightarrow> request (pl j) H p R"
    using u by (simp_all add: undisturbed_def)
  have len: "length cl = n" using ok(1) by (rule allHonest_length)
  have "snMessages (cl ! i) = []"
  proof (cases "snMessages (cl ! i)")
    case (Cons x xs)
    then have "x \<in> set (snMessages (cl ! i))" by simp
    then obtain k where k: "k < n" "k \<noteq> i" "x \<in> set (saidAt (cl ! k))"
      using ok(2) i(1) len unfolding flowing_def by metis
    have "calm (cfg i) (pl i) p R \<lparr>snState = Some c, snMessages = []\<rparr>" using ok(3)[OF i(1)] i(3) by (simp add: calm_def)
    then obtain d where "exec (cfg i) (CallReceive x) c = Inr d"
      using received_calm[OF i(1) k(1,2) i(2) ok(4)[OF i(1)] _ ok(3)[OF k(1)] k(3), of c "[]"]
      by (cases "exec (cfg i) (CallReceive x) c") auto
    then have "simEvent cfg (EvMessage i) cl \<noteq> None" using Cons i len by (simp add: finish_def)
    then show ?thesis using q[rule_format, of "EvMessage i"] L(2) by simp
  qed simp
  then have "heardAt (pl i) (cl ! i) m" using ok(2) i(1) j m len by (auto simp: flowing_def)
  then show ?thesis using i by (simp add: heardAt_def)
qed

text \<open>Every validator that goes on has the request and the preparations of all the others, and has committed.\<close>

lemma undisturbed_state:
  assumes "undisturbed cfg n pl H p R cl" and "i < n" and "0 \<le> plMe (pl i)" and "snState (cl ! i) = Some c"
  shows "smooth (cfg i) (pl i) p R c" "plMe (pl i) = int (plPrimary (pl i) 0) \<Longrightarrow> RequestSentOrReceived c"
    "saidAt (cl ! i) = voices (log c)" "request (pl i) H p R"
  using assms by (auto simp: undisturbed_def calm_def saidAt_def)

lemma quiet_requested:
  assumes u: "undisturbed cfg n pl H p R cl" and q: "\<forall>e. serves L e \<longrightarrow> simEvent cfg e cl = None"
    and L: "quorate pl n L" "i \<in> L" and c: "snState (cl ! i) = Some c"
  shows "RequestSentOrReceived c"
proof -
  obtain k where k: "k \<in> L" "plMe (pl k) = int (plPrimary (pl k) 0)" using quorateD(3)[OF L(1)] by blast
  note kn = quorateD(1,2)[OF L(1) k(1)]
  obtain e where e: "snState (cl ! k) = Some e" by (rule quiet_started[OF u q L(1) k(1)])
  note s = undisturbed_state[OF u kn e]
  show ?thesis
  proof (cases "i = k")
    case True
    then show ?thesis using s(2)[OF k(2)] c e by simp
  next
    case False
    have "prep (cfg k) (pl k) R (nat (plMe (pl k))) \<in> set (saidAt (cl ! k))"
      using smooth_says(3)[OF s(1) s(2)[OF k(2)]] s(3) by simp
    then have "R \<in> set (saidAt (cl ! k))" using k(2) by (simp add: prep_def)
    then have "heard c R" using quiet_heard[OF u q L c kn(1)] False by metis
    moreover have "cmType R = PrepareRequestType"
      using prep_facts(4)[OF kn(1) stocked_facts(5)[OF steady_facts(1)[OF smooth_steady[OF s(1)]]] s(4)]
      by (simp add: prep_def)
    ultimately show ?thesis by (simp add: heard_def)
  qed
qed

lemma quiet_filled:
  assumes u: "undisturbed cfg n pl H p R cl" and q: "\<forall>e. serves L e \<longrightarrow> simEvent cfg e cl = None"
    and L: "quorate pl n L" "i \<in> L" and c: "snState (cl ! i) = Some c" and np: "\<not> blockProcessed c"
    and sk: "k \<in> seats pl L"
  shows "slot (PreparationPayloads c) k \<noteq> None"
proof -
  note iv = quorateD(1,2)[OF L] and rq = quiet_requested[OF u q L c]
  note s = undisturbed_state[OF u iv c] note st = smooth_steady[OF s(1)]
  obtain j where j: "j \<in> L" "k = nat (plMe (pl j))" using sk by (auto simp: seats_def)
  note jn = quorateD(1,2)[OF L(1) j(1)]
  have k: "k < length (plValidators (pl i))" using quorateD(5)[OF L(1) iv(1)] sk by blast
  show ?thesis
  proof (cases "j = i")
    case True
    then show ?thesis using steady_facts(4)[OF st rq] j(2) by simp
  next
    case False
    obtain d where d: "snState (cl ! j) = Some d" by (rule quiet_started[OF u q L(1) j(1)])
    note sj = undisturbed_state[OF u jn d]
    have "prep (cfg j) (pl j) R k \<in> set (saidAt (cl ! j))"
      using smooth_says(3)[OF sj(1) quiet_requested[OF u q L(1) j(1) d]] sj(3) j(2) by simp
    then have "heard c (prep (cfg i) (pl i) R k)"
      using quiet_heard[OF u q L c jn(1) False] shared_messages(1)[OF iv(1) jn(1), of R k] by simp
    then show ?thesis
      using prep_facts(3,4)[OF iv(1) k s(4)] np rq stocked_facts(4)[OF steady_facts(1)[OF st]]
      by (auto simp: heard_def RequestSentOrReceived_def split: if_split_asm)
  qed
qed

lemma quiet_committed:
  assumes u: "undisturbed cfg n pl H p R cl" and q: "\<forall>e. serves L e \<longrightarrow> simEvent cfg e cl = None"
    and L: "quorate pl n L" "i \<in> L" and c: "snState (cl ! i) = Some c" and np: "\<not> blockProcessed c"
  shows "ownCommit (pl i) c \<noteq> None"
proof -
  note iv = quorateD(1,2)[OF L]
  note s = undisturbed_state[OF u iv c] note t = steady_facts(1)[OF smooth_steady[OF s(1)]]
  have "seats pl L \<subseteq> {k. slot (PreparationPayloads c) k \<noteq> None}" using quiet_filled[OF u q L c np] by blast
  then have "card (seats pl L) \<le> card {k. slot (PreparationPayloads c) k \<noteq> None}" by (rule card_mono[OF finite_filled])
  then have "plM (pl i) \<le> card {k. slot (PreparationPayloads c) k \<noteq> None}" using quorateD(4)[OF L(1) iv(1)] by simp
  also have "\<dots> = countView 0 (PreparationPayloads c)"
    by (rule countView_card[symmetric])
      (use stocked_slots(1)[OF t] prep_facts(1)[OF iv(1) _ s(4)] stocked_facts(10)[OF t] slot_in_range in metis)
  finally show ?thesis using s(1) np quiet_requested[OF u q L c] by (simp add: smooth_def)
qed

text \<open>A Commit in some table was broadcast by its validator.\<close>

lemma commit_spoken:
  assumes honest: "allHonest n pl cl" and i: "i < n" "snState (cl ! i) = Some c" and "slot (CommitPayloads c) k \<noteq> None"
  obtains j d m where "j < n" and "plMe (pl j) = int k" and "snState (cl ! j) = Some d"
    and "m \<in> spoken d" and "cmType m = CommitType"
proof -
  note l = allHonest_length[OF honest]
  obtain x where x: "slot (CommitPayloads c) k = Some x" using assms(4) by blast
  have "commitsOk (spokenBy UNIV cl) (ViewNumber c) (CommitPayloads c)"
    using allHonestD(2)[OF honest i] said_placeIn[of i cl c "pl i"] i l by (simp add: hon_def honest_def tablesOk_def)
  then have "backed (spokenBy UNIV cl) k (viewNumber x)" using commitsOkD(5) x by blast
  then obtain m where m: "m \<in> spokenBy UNIV cl" "unat (validatorIndex m) = k" "cmType m = CommitType"
    by (auto simp: backed_def committed_def)
  obtain j d where "j < n" "snState (cl ! j) = Some d" "m \<in> spoken d" "named (pl j) m"
    by (rule spoken_fact[OF honest m(1)])
  then show thesis using that[of j d m] m(2,3) by (auto simp: named_def)
qed

text \<open>Whoever has accepted the block has it from a quorum of Commits, and everyone has heard these.\<close>

lemma quiet_accepted:
  assumes u: "undisturbed cfg n pl H p R cl" and q: "\<forall>e. serves L e \<longrightarrow> simEvent cfg e cl = None"
    and L: "quorate pl n L" "i \<in> L" and c: "snState (cl ! i) = Some c"
    and C: "plM (pl i) \<le> card {k. k < length (plValidators (pl i))
      \<and> (\<exists>j d m. j < n \<and> plMe (pl j) = int k \<and> snState (cl ! j) = Some d \<and> m \<in> spoken d \<and> cmType m = CommitType)}"
      (is "_ \<le> card ?S")
  shows "blockProcessed c"
proof (rule ccontr)
  assume np: "\<not> blockProcessed c"
  have i: "i < n" "0 \<le> plMe (pl i)" "snState (cl ! i) = Some c" using quorateD(1,2)[OF L] c by simp_all
  note f = undisturbed_state(1)[OF u i] quiet_committed[OF u q L c np]
  note s = steady_facts(1)[OF smooth_steady[OF f(1)]]
  have calm: "\<And>j. j < n \<Longrightarrow> calm (cfg j) (pl j) p R (cl ! j)" using u by (simp add: undisturbed_def)
  have "slot (CommitPayloads c) k \<noteq> None" if "k \<in> ?S" for k
  proof -
    obtain j d m where k: "k < length (plValidators (pl i))"
      and j: "j < n" "plMe (pl j) = int k" "snState (cl ! j) = Some d" "m \<in> spoken d" "cmType m = CommitType"
      using \<open>k \<in> ?S\<close> by blast
    show ?thesis
    proof (cases "j = i")
      case True
      then show ?thesis using f(2) j(2) by simp
    next
      case False
      have "m \<in> set (voices (log d))" using j(4) unfolding spoken_def set_voices .
      then have m: "m \<in> set (saidAt (cl ! j))" using j(3) by (simp add: saidAt_def)
      have "smooth (cfg j) (pl j) p R d" using calm[OF j(1)] j(2,3) by (simp add: calm_def)
      then have "m = prep (cfg j) (pl j) R k \<or> vote (cfg j) (pl j) p k m"
        using smooth_says(2)[of "cfg j" "pl j" p R d m] m j(2,3) by (simp add: saidAt_def)
      moreover have "request (pl j) H p R" using u j(1) by (simp add: undisturbed_def)
      ultimately have "vote (cfg j) (pl j) p k m"
        using prep_facts(4)[OF j(1), of k] j(5) k same(3)[OF i(1) j(1)] by (auto split: if_split_asm)
      then have "unat (validatorIndex m) = k" using vote_facts(4)[OF _ j(1)] k same(3)[OF i(1) j(1)] by simp
      then show ?thesis using quiet_heard[OF u q L c j(1) False m] np j(5) by (simp add: heard_def)
    qed
  qed
  then have "?S \<subseteq> {k. slot (CommitPayloads c) k \<noteq> None}" by blast
  then have "card ?S \<le> card {k. slot (CommitPayloads c) k \<noteq> None}" by (rule card_mono[OF finite_filled])
  also have "\<dots> = countView 0 (CommitPayloads c)"
    by (rule countView_card[symmetric]) (use stocked_slots(2)[OF s] in \<open>auto simp: vote_def\<close>)
  finally have "plM (pl i) \<le> countView 0 (CommitPayloads c)" using C by simp
  then show False using f np by (simp add: smooth_def)
qed

lemma quiet_decided:
  assumes u: "undisturbed cfg n pl H p R cl" and q: "\<forall>e. serves L e \<longrightarrow> simEvent cfg e cl = None"
    and L: "quorate pl n L" "i \<in> L"
  shows "\<exists>c b. snState (cl ! i) = Some c \<and> EProcessBlock b True \<in> set (log c)"
proof -
  let ?spoke = "\<lambda>k. \<exists>j d m. j < n \<and> plMe (pl j) = int k \<and> snState (cl ! j) = Some d \<and> m \<in> spoken d \<and> cmType m = CommitType"
  let ?S = "{k. k < length (plValidators (pl i)) \<and> ?spoke k}"
  have i: "i < n" by (rule quorateD(1)[OF L])
  have honest: "allHonest n pl cl" using u by (simp add: undisturbed_def)
  have S: "finite ?S" by (rule finite_subset[of _ "{..<length (plValidators (pl i))}"]) auto
  have "plM (pl i) \<le> card ?S"
  proof (cases "\<exists>a < n. \<exists>e. 0 \<le> plMe (pl a) \<and> snState (cl ! a) = Some e \<and> blockProcessed e")
    case True
    then obtain a e where a: "a < n" "0 \<le> plMe (pl a)" "snState (cl ! a) = Some e" "blockProcessed e" by blast
    note f = undisturbed_state(1)[OF u a(1-3)]
    note s = steady_facts(1)[OF smooth_steady[OF f]]
    have "plM (pl a) \<le> countView 0 (CommitPayloads e)" using f a(4) by (simp add: smooth_def)
    also have "\<dots> = card {k. slot (CommitPayloads e) k \<noteq> None}"
      by (rule countView_card) (use stocked_slots(2)[OF s] in \<open>auto simp: vote_def\<close>)
    also have "\<dots> \<le> card ?S"
    proof (rule card_mono[OF S], rule subsetI)
      fix k
      assume "k \<in> {k. slot (CommitPayloads e) k \<noteq> None}"
      then have k: "slot (CommitPayloads e) k \<noteq> None" by simp
      then have "k < length (plValidators (pl i))"
        using slot_in_range stocked_facts(11)[OF s] same(3)[OF i a(1)] by fastforce
      moreover have "?spoke k" by (rule commit_spoken[OF honest a(1,3) k]) blast
      ultimately show "k \<in> ?S" by simp
    qed
    finally show ?thesis using same(3)[OF i a(1)] by (simp add: plM_def)
  next
    case False
    have "?spoke k" if s: "k \<in> seats pl L" for k
    proof -
      obtain j where j: "j \<in> L" "k = nat (plMe (pl j))" using s by (auto simp: seats_def)
      note jn = quorateD(1,2)[OF L(1) j(1)]
      obtain d where d: "snState (cl ! j) = Some d" by (rule quiet_started[OF u q L(1) j(1)])
      note f = undisturbed_state(1)[OF u jn d]
      have "\<not> blockProcessed d" using False jn d by blast
      then obtain m where m: "ownCommit (pl j) d = Some m" using quiet_committed[OF u q L(1) j(1) d] by blast
      have "m \<in> spoken d" using smooth_says(4)[OF f m] unfolding spoken_def set_voices .
      moreover have "cmType m = CommitType"
        using stocked_slots(2)[OF steady_facts(1)[OF smooth_steady[OF f]] m] by (simp add: vote_def)
      moreover have "plMe (pl j) = int k" using j(2) jn(2) by simp
      ultimately show ?thesis using jn(1) d by blast
    qed
    then have "seats pl L \<subseteq> ?S" using quorateD(5)[OF L(1) i] by blast
    then have "card (seats pl L) \<le> card ?S" by (rule card_mono[OF S])
    then show ?thesis using quorateD(4)[OF L(1) i] by (rule order_trans[rotated])
  qed
  moreover obtain c where c: "snState (cl ! i) = Some c" by (rule quiet_started[OF u q L])
  ultimately have "blockProcessed c" by (intro quiet_accepted[OF u q L c])
  then show ?thesis using undisturbed_state(1)[OF u quorateD(1,2)[OF L] c] c by (auto simp: smooth_def)
qed

text \<open>
  So every run without timeouts can be continued by a quorum of validators until they have all accepted
  the block, and stops only then.
\<close>

lemma run_continues:
  assumes "simRun cfg es (simInit n) = Some cl" and "\<forall>e \<in> set es. \<not> isTimeout e" and "i < n"
  obtains fs cl' where "simRun cfg (es @ fs) (simInit n) = Some cl'" and "\<forall>e \<in> set fs. serves L e"
    and "\<forall>e. serves L e \<longrightarrow> simEvent cfg e cl' = None"
proof -
  let ?B = "n + (n - 1) * (2 * length (plValidators (pl i)))"
  have "\<exists>fs cl'. simRun cfg (es @ fs) (simInit n) = Some cl' \<and> (\<forall>e \<in> set fs. serves L e)
      \<and> (\<forall>e. serves L e \<longrightarrow> simEvent cfg e cl' = None)"
    using assms(1,2)
  proof (induction "?B - length es" arbitrary: es cl rule: less_induct)
    case less
    show ?case
    proof (cases "\<forall>e. serves L e \<longrightarrow> simEvent cfg e cl = None")
      case True
      then show ?thesis using less.prems by (intro exI[of _ "[]"] exI[of _ cl]) simp
    next
      case False
      then obtain e t where e: "serves L e" "simEvent cfg e cl = Some t" by auto
      have run: "simRun cfg (es @ [e]) (simInit n) = Some t" using less.prems(1) e(2) by (simp add: simRun_append)
      have ev: "\<forall>x \<in> set (es @ [e]). \<not> isTimeout x" using less.prems(2) serves_no_timeout[OF e(1)] by simp
      have "length (es @ [e]) \<le> ?B" by (rule few_events[OF run ev assms(3)])
      then have "?B - length (es @ [e]) < ?B - length es" by simp
      then obtain fs cl' where "simRun cfg ((es @ [e]) @ fs) (simInit n) = Some cl'"
          "\<forall>x \<in> set fs. serves L x" "\<forall>e. serves L e \<longrightarrow> simEvent cfg e cl' = None"
        using less.hyps[OF _ run ev] by blast
      then show ?thesis using e(1) by (intro exI[of _ "e # fs"] exI[of _ cl']) simp
    qed
  qed
  then show thesis using that by blast
qed

lemma run_decides:
  assumes "simRun cfg es (simInit n) = Some cl" and "\<forall>e \<in> set es. \<not> isTimeout e"
    and "\<forall>e. serves L e \<longrightarrow> simEvent cfg e cl = None" and "quorate pl n L" and "i \<in> L"
  shows "\<exists>c b. snState (cl ! i) = Some c \<and> EProcessBlock b True \<in> set (log c)"
proof -
  obtain p R where "undisturbed cfg n pl H p R (simInit n)" by (rule undisturbed_init)
  then have "undisturbed cfg n pl H p R cl" by (rule undisturbed_run[OF _ assms(1,2)])
  then show ?thesis by (rule quiet_decided[OF _ assms(3-5)])
qed

end

end
