(* ===== verification/Liveness.thy ===== *)
theory Liveness
  imports Cluster Decision
begin

section \<open>The simulation decides\<close>

text \<open>
  The network of \<open>Cluster\<close> fulfils the contract of \<open>Decision\<close> when its flags are in order, no payload
  is blocked, the channels hold what an undisturbed height needs and every public key verifies what
  its private key signs.
\<close>

subsection \<open>The pool\<close>

text \<open>The hashes of the transactions that every node is given.\<close>

definition poolHashes :: "nat \<Rightarrow> Uint256 set" where
  "poolHashes k = {h. pool_Get h (addTx k newMemoryPool) \<noteq> None}"

lemma simPool_unprocessed: "unprocessed es \<Longrightarrow> simPool k es = addTx k newMemoryPool"
  by (induction es) (auto simp: unprocessed_def split: effect.split)

lemma pool_hashes:
  assumes "unprocessed es"
  shows "h \<in> poolHashes k \<Longrightarrow> pool_Get h (simPool k es) \<noteq> None"
    and "distinct (map Tx64_Hash (pool_GetVerified t iter (simPool k es)))"
    and "set (map Tx64_Hash (pool_GetVerified t iter (simPool k es))) \<subseteq> poolHashes k"
proof -
  have p: "simPool k es = addTx k newMemoryPool" by (rule simPool_unprocessed[OF assms])
  show "h \<in> poolHashes k \<Longrightarrow> pool_Get h (simPool k es) \<noteq> None" by (simp add: p poolHashes_def)
  let ?txx = "pool_GetVerified t iter (addTx k newMemoryPool)"
  have "distinct ?txx" "\<forall>u \<in> set ?txx. pool_Get (Tx64_Hash u) (addTx k newMemoryPool) = Some u"
    using pool_lookup[OF pool_ok_addTx, of _ k _ _ t iter] by simp_all
  then show "distinct (map Tx64_Hash (pool_GetVerified t iter (simPool k es)))"
    "set (map Tx64_Hash (pool_GetVerified t iter (simPool k es))) \<subseteq> poolHashes k"
    by (auto simp: p distinct_map inj_on_def Tx64_Hash_inject poolHashes_def)
qed

subsection \<open>The keys\<close>

text \<open>
  What the curve promises: signing with a key works, and its public key verifies the signature as a
  Commit carries it, in 64 bytes.
\<close>

definition keysMatch :: "'priv environment \<Rightarrow> ('priv \<times> ECDSAPub) list \<Rightarrow> bool" where
  "keysMatch env keys \<longleftrightarrow>
     (\<forall>(key, pub) \<in> set keys. \<forall>msg. \<exists>s. envSign env key msg = Some s \<and> envVerify env pub msg (signature (NewCommit s)))"

lemma keyIndex_found: "pub \<in> set ps \<Longrightarrow> \<exists>k. keyIndex pub ps = Some k"
  by (induction ps) (auto simp: Equals_def)

lemma validator_index:
  assumes "distinct ps" and "k < length ps"
  shows "fst (instanceKeyPair key (ps ! k) ps) = int k"
proof -
  obtain k' where k': "keyIndex (ps ! k) ps = Some k'" using keyIndex_found assms(2) by fastforce
  have "k' < length ps" "ps ! k' = ps ! k" using keyIndex_Some[OF k'] by simp_all
  then have "k' = k" using assms by (simp add: nth_eq_iff_index_eq)
  then show ?thesis by (simp add: instanceKeyPair_def k')
qed

lemma updated_keys:
  "set (updatePublicKeys pubs k) = set (take k pubs)" "distinct pubs \<Longrightarrow> distinct (updatePublicKeys pubs k)"
  by (simp_all add: updatePublicKeys_def sortValidators_def)

subsection \<open>The contract\<close>

text \<open>The number of nodes of a cluster that can decide.\<close>

definition canDecide :: "'priv environment \<Rightarrow> flags \<Rightarrow> ('priv \<times> ECDSAPub) list \<Rightarrow> bool" where
  "canDecide env fl keys \<longleftrightarrow>
     inOrder fl keys \<and> flBlocked fl = - 1 \<and> 2 * flCount fl \<le> defaultChanSize \<and> keysMatch env keys"

definition decidingSize :: "'priv environment \<Rightarrow> flags \<Rightarrow> ('priv \<times> ECDSAPub) list \<Rightarrow> nat" where
  "decidingSize env fl keys = (if canDecide env fl keys then length keys else 0)"

lemma decidingSize_pos:
  "i < decidingSize env fl keys \<Longrightarrow> canDecide env fl keys \<and> i < length keys \<and> decidingSize env fl keys = clusterSize fl keys"
  by (simp add: decidingSize_def clusterSize_def canDecide_def split: if_split_asm)

lemma nodePlace_sel:
  "plValidators (nodePlace env fl keys i) = updatePublicKeys (map snd keys) (flCount fl)"
  "plMe (nodePlace env fl keys i) =
     fst (instanceKeyPair (fst (keys ! i)) (snd (keys ! i)) (updatePublicKeys (map snd keys) (flCount fl)))"
  "plIndex (nodePlace env fl keys i) = 1" "plHeader (nodePlace env fl keys i) = headerOf (envHash env)"
  by (simp_all add: nodePlace_def Let_def)

lemma node_signs:
  assumes "keysMatch env keys" and "i < length keys" and "0 \<le> plMe (nodePlace env fl keys i)" and "headerOf (envHash env) p b"
  shows "\<exists>b'. blockSign (nodeConfig env fl keys i) es (privOf (nodeConfig env fl keys i) (nodePlace env fl keys i)) b = Some b'
    \<and> (\<forall>b''. headerOf (envHash env) p b'' \<longrightarrow>
         blockVerify (nodeConfig env fl keys i) (plValidators (nodePlace env fl keys i) ! nat (plMe (nodePlace env fl keys i)))
           (signature (NewCommit (blockSignature (nodeConfig env fl keys i) b'))) b'')"
proof -
  let ?vs = "updatePublicKeys (map snd keys) (flCount fl)" and ?key = "fst (keys ! i)" and ?pub = "snd (keys ! i)"
  have key: "(?key, ?pub) \<in> set keys" using assms(2) by simp
  then obtain s where s: "envSign env ?key (envEncode env (nbBase b)) = Some s"
      "envVerify env ?pub (envEncode env (nbBase b)) (signature (NewCommit s))"
    using assms(1) unfolding keysMatch_def by blast
  have pub: "?vs ! nat (plMe (nodePlace env fl keys i)) = ?pub"
    using keyPair_index(2) assms(3) by (simp add: nodePlace_sel)
  have "privOf (nodeConfig env fl keys i) (nodePlace env fl keys i) = Some ?key"
    using assms(3) by (auto simp: privOf_def nodeConfig_sel nodePlace_sel instanceKeyPair_def split: option.split_asm)
  then have "blockSign (nodeConfig env fl keys i) es (privOf (nodeConfig env fl keys i) (nodePlace env fl keys i)) b
      = Some (b\<lparr>nbSignature := Some s\<rparr>)"
    using s(1) by (simp add: nodeConfig_sel neoBlock_Sign_def)
  moreover have "blockVerify (nodeConfig env fl keys i) ?pub
      (signature (NewCommit (blockSignature (nodeConfig env fl keys i) (b\<lparr>nbSignature := Some s\<rparr>)))) b''"
    if "headerOf (envHash env) p b''" for b''
    using s(2) headerOf_unique[OF assms(4) that]
    by (simp add: nodeConfig_code instanceMethods_def Let_def neoBlock_Verify_def elems_def)
  ultimately show ?thesis unfolding pub nodePlace_sel(1) by blast
qed

interpretation deciding: lively "nodeConfig env fl keys" "decidingSize env fl keys" "nodePlace env fl keys" "poolHashes (flTxCount fl)"
  for env :: "'priv environment" and fl keys
proof (rule lively.intro)
  show "network (nodeConfig env fl keys) (decidingSize env fl keys) (nodePlace env fl keys) {OutOfFuel}"
  proof (cases "canDecide env fl keys")
    case True
    then have "decidingSize env fl keys = clusterSize fl keys"
      by (simp add: decidingSize_def clusterSize_def canDecide_def)
    then show ?thesis using cluster.network_axioms by metis
  qed (simp add: decidingSize_def network_def)
  let ?n = "decidingSize env fl keys" and ?cfg = "nodeConfig env fl keys" and ?pl = "nodePlace env fl keys"
  show "lively_axioms ?cfg ?n ?pl (poolHashes (flTxCount fl))"
  proof
    fix i k
    assume i: "i < ?n" and k: "k < length (plValidators (?pl i))"
    let ?vs = "updatePublicKeys (map snd keys) (flCount fl)"
    have d: "distinct ?vs" using decidingSize_pos[OF i] by (simp add: updated_keys canDecide_def inOrder_def)
    have k': "k < length ?vs" using k by (simp add: nodePlace_sel)
    then have "?vs ! k \<in> set (map snd keys)" using nth_mem[OF k'] set_take_subset by (fastforce simp: updated_keys)
    then obtain j where "j < length keys" "snd (keys ! j) = ?vs ! k" by (auto simp: in_set_conv_nth)
    moreover from this have "plMe (?pl j) = int k" using validator_index[OF d k'] by (simp add: nodePlace_sel)
    ultimately show "\<exists>j < ?n. plMe (?pl j) = int k" using decidingSize_pos[OF i] by (auto simp: decidingSize_def)
  next
    fix i es p b
    assume "i < ?n" and "0 \<le> plMe (?pl i)" and "plHeader (?pl i) p b"
    then show "\<exists>b'. blockSign (?cfg i) es (privOf (?cfg i) (?pl i)) b = Some b'
        \<and> (\<forall>b''. plHeader (?pl i) p b'' \<longrightarrow>
             blockVerify (?cfg i) (plValidators (?pl i) ! nat (plMe (?pl i))) (signature (NewCommit (blockSignature (?cfg i) b'))) b'')"
      using node_signs[of env keys i fl p b es] decidingSize_pos[of i env fl keys]
      by (simp add: nodePlace_sel(4) canDecide_def)
  next
    fix i
    assume "i < ?n"
    then show "2 * length (plValidators (?pl i)) \<le> defaultChanSize"
      using decidingSize_pos[of i env fl keys] by (simp add: nodePlace_sel length_updatePublicKeys canDecide_def inOrder_def)
  qed (use decidingSize_pos pool_hashes in \<open>auto simp: nodeConfig_code instanceMethods_def nodePlace_sel Let_def
      VerifyPayload_def canDecide_def neoBlock_Verify_def\<close>)
qed

subsection \<open>Liveness\<close>

lemma validator_nodes:
  assumes "inOrder fl keys" and "i < flCount fl"
  shows "0 \<le> plMe (nodePlace env fl keys i)"
proof -
  have i: "i < length keys" using assms by (simp add: inOrder_def)
  have "take (flCount fl) (map snd keys) ! i \<in> set (take (flCount fl) (map snd keys))"
    by (rule nth_mem) (use assms in \<open>simp add: inOrder_def\<close>)
  then have "snd (keys ! i) \<in> set (updatePublicKeys (map snd keys) (flCount fl))"
    using assms(2) i by (simp add: updated_keys)
  then obtain k where "keyIndex (snd (keys ! i)) (updatePublicKeys (map snd keys) (flCount fl)) = Some k"
    using keyIndex_found by blast
  then show ?thesis by (simp add: nodePlace_sel instanceKeyPair_def)
qed

lemma acceptedI: "snState (cl ! i) = Some c \<Longrightarrow> EProcessBlock b True \<in> set (log c) \<Longrightarrow> acceptedAt cl i"
  by (force simp: acceptedAt_def list_ex_iff isAccepted_def)

text \<open>The primary of view 0 at height 1 is the second of the sorted validators.\<close>

definition proposer :: "flags \<Rightarrow> ('priv \<times> ECDSAPub) list \<Rightarrow> ECDSAPub" where
  "proposer fl keys = updatePublicKeys (map snd keys) (flCount fl) ! (1 mod flCount fl)"

text \<open>At least M validators, the first primary among them.\<close>

definition quorumOf :: "flags \<Rightarrow> ('priv \<times> ECDSAPub) list \<Rightarrow> nat set \<Rightarrow> bool" where
  "quorumOf fl keys live \<longleftrightarrow>
     live \<subseteq> {..<flCount fl} \<and> flCount fl - (flCount fl - 1) div 3 \<le> card live
     \<and> (\<exists>i \<in> live. snd (keys ! i) = proposer fl keys)"

lemma first_primary:
  assumes "1 \<le> flCount fl" and "flCount fl \<le> length keys"
  shows "plPrimary (nodePlace env fl keys i) 0 = 1 mod flCount fl"
proof -
  have "go_rem 1 (int (flCount fl)) = int (1 mod flCount fl)"
    using go_rem_nonneg[of 1 "int (flCount fl)"] zmod_int[of 1 "flCount fl"] assms(1) by simp
  then show ?thesis
    using assms(2) by (simp add: nodePlace_def Let_def GetPrimaryIndex_def length_updatePublicKeys del: of_nat_mod)
qed

lemma quorumOf_quorate:
  assumes "canDecide env fl keys" and "quorumOf fl keys live"
  shows "quorate (nodePlace env fl keys) (length keys) live"
proof -
  let ?vs = "updatePublicKeys (map snd keys) (flCount fl)"
  have o: "inOrder fl keys" using assms(1) by (simp add: canDecide_def)
  then have fl: "1 \<le> flCount fl" "flCount fl \<le> length keys" "distinct ?vs"
    by (simp_all add: inOrder_def updated_keys)
  have live: "live \<subseteq> {..<flCount fl}" "flCount fl - (flCount fl - 1) div 3 \<le> card live"
    using assms(2) by (simp_all add: quorumOf_def)
  define k where "k = 1 mod flCount fl"
  then have k: "k < length ?vs" using fl(1,2) by (simp only: length_updatePublicKeys) simp
  obtain i where i: "i \<in> live" "snd (keys ! i) = ?vs ! k"
    using assms(2) by (auto simp: quorumOf_def proposer_def k_def)
  have "plPrimary (nodePlace env fl keys i) 0 = k" using first_primary[OF fl(1,2)] k_def by metis
  then have "plMe (nodePlace env fl keys i) = int (plPrimary (nodePlace env fl keys i) 0)"
    using validator_index[OF fl(3) k] i(2) by (simp add: nodePlace_sel)
  moreover have "plM (nodePlace env fl keys j) \<le> card live" for j
    using live(2) fl(2) by (simp add: plM_def nodePlace_sel length_updatePublicKeys)
  ultimately show ?thesis
    using live(1) i(1) fl(2) validator_nodes[OF o] by (auto simp: quorate_def)
qed

text \<open>
  C4. The simulation decides. As long as no timer fires, a run takes at most a fixed number of
  starts and deliveries, in whatever order they come. Let a quorum of validators, the first primary
  among them, go on, and let all other nodes stop wherever they are: the run can be continued by
  starts and deliveries at the nodes of the quorum until each of them has accepted the block, and
  when they have no start and no delivery left, each of them has. So the messages of view 0
  suffice, whatever their order and with up to F validators crashed. The flags are in order, no
  validator is blocked, the channels have room for two messages of each validator, and public keys
  verify what their private keys sign.
\<close>

theorem simulation_decides:
  assumes "simRun (nodeConfig env fl keys) es (simInit (length keys)) = Some cl" and "\<forall>e \<in> set es. \<not> isTimeout e"
    and "inOrder fl keys" and "flBlocked fl = - 1" and "2 * flCount fl \<le> defaultChanSize" and "keysMatch env keys"
    and "quorumOf fl keys live"
  shows "length es \<le> length keys + (length keys - 1) * (2 * flCount fl)
    \<and> (\<exists>fs cl'. simRun (nodeConfig env fl keys) (es @ fs) (simInit (length keys)) = Some cl'
         \<and> (\<forall>e \<in> set fs. serves live e) \<and> (\<forall>i \<in> live. acceptedAt cl' i))
    \<and> ((\<forall>e. serves live e \<longrightarrow> simEvent (nodeConfig env fl keys) e cl = None) \<longrightarrow> (\<forall>i \<in> live. acceptedAt cl i))"
proof -
  let ?cfg = "nodeConfig env fl keys"
  have can: "canDecide env fl keys" using assms(3-6) by (simp add: canDecide_def)
  have n: "decidingSize env fl keys = length keys" using can by (simp add: decidingSize_def)
  have pos: "0 < length keys" "flCount fl \<le> length keys" using assms(3) by (auto simp: inOrder_def)
  note run = assms(1)[folded n] and q = quorumOf_quorate[OF can assms(7), folded n]
  have size: "length (plValidators (nodePlace env fl keys 0)) = flCount fl"
    using pos(2) by (simp add: nodePlace_sel length_updatePublicKeys)
  have "length es \<le> length keys + (length keys - 1) * (2 * flCount fl)"
    using deciding.few_events[OF run assms(2), of 0] pos(1) by (simp add: n size)
  moreover have all: "\<forall>i \<in> live. acceptedAt t i"
    if r: "simRun ?cfg xs (simInit (length keys)) = Some t" "\<forall>e \<in> set xs. \<not> isTimeout e"
      "\<forall>e. serves live e \<longrightarrow> simEvent ?cfg e t = None" for xs t
  proof
    fix i
    assume "i \<in> live"
    then obtain c b where "snState (t ! i) = Some c" "EProcessBlock b True \<in> set (log c)"
      using deciding.run_decides[OF r(1)[folded n] r(2,3) q] by blast
    then show "acceptedAt t i" by (rule acceptedI)
  qed
  moreover obtain fs cl' where fs: "simRun ?cfg (es @ fs) (simInit (length keys)) = Some cl'"
      "\<forall>e \<in> set fs. serves live e" "\<forall>e. serves live e \<longrightarrow> simEvent ?cfg e cl' = None"
    using deciding.run_continues[OF run assms(2), of 0 live] pos(1) by (auto simp: n)
  moreover have "\<forall>e \<in> set (es @ fs). \<not> isTimeout e" using assms(2) fs(2) serves_no_timeout by auto
  ultimately show ?thesis using all[OF assms(1,2)] all[OF fs(1) _ fs(3)] by blast
qed

text \<open>Four validators, of which the last never starts.\<close>

definition fourFlags :: flags where
  "fourFlags = \<lparr>flCount = 4, flBlocked = - 1, flTxPerBlock = 2, flTxCount = 0\<rparr>"

definition fourKeys :: "(nat \<times> ECDSAPub) list" where
  "fourKeys = map (\<lambda>x. (x, \<lparr>pubX = x, pubY = 0\<rparr>)) [7, 9, 11, 13]"

lemma four_sample:
  "inOrder fourFlags fourKeys" "keysMatch sampleEnvironment fourKeys" "quorumOf fourFlags fourKeys {0, 1, 2}"
proof -
  show "inOrder fourFlags fourKeys" by (simp add: inOrder_def fourFlags_def fourKeys_def)
  show "keysMatch sampleEnvironment fourKeys"
    by (simp add: keysMatch_def fourKeys_def sampleEnvironment_def NewCommit_def copyInto_def signatureSize_def)
  show "quorumOf fourFlags fourKeys {0, 1, 2}" by code_simp
qed

lemma sample_match: "keysMatch sampleEnvironment sampleKeys"
  by (simp add: keysMatch_def sampleKeys_def sampleEnvironment_def NewCommit_def copyInto_def signatureSize_def)

lemma sample_quorum: "quorumOf sampleFlags sampleKeys {0, 1}"
  by code_simp

theorem simulation_decides_witness:
  "(\<exists>cl. simRun sampleCluster sampleEvents (simInit (length sampleKeys)) = Some cl
      \<and> (\<forall>e. serves {0, 1} e \<longrightarrow> simEvent sampleCluster e cl = None) \<and> (\<forall>i \<in> {0, 1}. acceptedAt cl i))
    \<and> (\<exists>fs cl'. simRun (nodeConfig sampleEnvironment fourFlags fourKeys) fs (simInit 4) = Some cl'
      \<and> (\<forall>e \<in> set fs. serves {0, 1, 2} e) \<and> (\<forall>i \<in> {0, 1, 2}. acceptedAt cl' i))"
proof
  have "flBlocked fourFlags = - 1" "2 * flCount fourFlags \<le> defaultChanSize" "length fourKeys = 4"
    by (simp_all add: fourFlags_def fourKeys_def defaultChanSize_def)
  then show "\<exists>fs cl'. simRun (nodeConfig sampleEnvironment fourFlags fourKeys) fs (simInit 4) = Some cl'
      \<and> (\<forall>e \<in> set fs. serves {0, 1, 2} e) \<and> (\<forall>i \<in> {0, 1, 2}. acceptedAt cl' i)"
    using simulation_decides[of sampleEnvironment fourFlags fourKeys "[]" "simInit 4" "{0, 1, 2}"] four_sample by simp
next
  have room: "flBlocked sampleFlags = - 1" "2 * flCount sampleFlags \<le> defaultChanSize"
    and bound: "length sampleKeys + (length sampleKeys - 1) * (2 * flCount sampleFlags) = 6" and len: "length sampleEvents = 6"
    by (simp_all add: sampleKeys_def sampleFlags_def sampleEvents_def defaultChanSize_def)
  obtain cl where run: "simRun sampleCluster sampleEvents (simInit (length sampleKeys)) = Some cl"
    using sample_events by (auto simp: sampleKeys_def numeral_2_eq_2 split: option.split_asm)
  have ev: "\<forall>e \<in> set sampleEvents. \<not> isTimeout e" by (simp add: sampleEvents_def)
  note decides = simulation_decides[OF _ _ sample_in_order room sample_match sample_quorum]
  have quiet: "\<forall>e. serves {0, 1} e \<longrightarrow> simEvent sampleCluster e cl = None"
  proof (intro allI impI, rule ccontr)
    fix e
    assume e: "serves {0, 1} e" "simEvent sampleCluster e cl \<noteq> None"
    then obtain t where "simRun sampleCluster (sampleEvents @ [e]) (simInit (length sampleKeys)) = Some t"
      using run by (auto simp: simRun_append)
    moreover have "\<forall>x \<in> set (sampleEvents @ [e]). \<not> isTimeout x" using ev serves_no_timeout[OF e(1)] by simp
    ultimately have "length (sampleEvents @ [e]) \<le> 6"
      using decides[of "sampleEvents @ [e]" t] unfolding bound by blast
    then show False by (simp add: len)
  qed
  from decides[OF run ev] run quiet
  show "\<exists>cl. simRun sampleCluster sampleEvents (simInit (length sampleKeys)) = Some cl
      \<and> (\<forall>e. serves {0, 1} e \<longrightarrow> simEvent sampleCluster e cl = None) \<and> (\<forall>i \<in> {0, 1}. acceptedAt cl i)"
    by blast
qed

end
