(* ===== verification/View_Change.thy ===== *)
theory View_Change
  imports Liveness
begin

section \<open>The simulation changes its view\<close>

text \<open>
  What follows a timeout: the ChangeView that completes a quorum takes a node that has not committed
  itself to the view asked for. In the sample, three of four validators leave the view of a primary
  that never started.
\<close>

context receiver
begin

lemma checkChangeView_view:
  assumes "checkChangeView cfg rcv v c = Inr d" and "wf cfg c" and "\<not> blockProcessed c"
    and "ViewNumber c < v" and "ctxM c \<le> countChangeViews v (ChangeViewPayloads c)"
  shows "v \<le> ViewNumber d"
proof -
  obtain c1 where a: "agreeChangeView cfg v c = Inr c1"
    and ic: "initializeConsensus cfg rcv v (lastBlockTimestamp c1) c1 = Inr d"
    using assms(1,4,5) by (auto simp: checkChangeView_def thenDo_Ok_iff split: if_splits)
  have w: "wf cfg c1" by (rule lsteps_wf[OF agreeChangeView_ok(1)[OF a assms(2,3)] assms(2)])
  have v0: "v \<noteq> 0" using assms(4) by auto
  obtain c2 where r: "reset cfg v (lastBlockTimestamp c1) c1 = Inr c2" and m: "may cfg c2 d"
    by (rule initializeConsensus_may[OF ic]) (auto intro: reset_view_wf[OF _ v0 w])
  have "ViewNumber c2 \<le> ViewNumber d" using m nsteps_frame(3) by (auto simp: may_def)
  then show ?thesis by (simp add: reset_Ok(2)[OF r])
qed

lemma onChangeView_view:
  assumes "onChangeView cfg rcv m c = Inr d" and "wf cfg c" and "\<not> blockProcessed c"
    and m: "cmType m = ChangeViewType" "height m = BlockIndex c" "unat (validatorIndex m) < ctxN c" "ViewNumber c < NewViewNumber m"
    and free: "\<not> CommitSent cfg c" "\<not> PreCommitSent cfg c"
    and old: "\<And>m'. slot (ChangeViewPayloads c) (unat (validatorIndex m)) = Some m' \<Longrightarrow> NewViewNumber m' \<le> NewViewNumber m"
    and quorum: "ctxM c \<le> countChangeViews (NewViewNumber m) ((ChangeViewPayloads c)[unat (validatorIndex m) := Some m])"
  shows "NewViewNumber m \<le> ViewNumber d"
proof -
  let ?c = "c\<lparr>ChangeViewPayloads := (ChangeViewPayloads c)[unat (validatorIndex m) := Some m]\<rparr>"
  have "lsteps cfg c ?c" using assms(3) m(1-3) by (intro lstep_lsteps lchangeview) simp_all
  then have w: "wf cfg ?c" using assms(2) by (rule lsteps_wf)
  obtain p where p: "GetChangeView (body m) = Some p" using assms(1) by (auto simp: onChangeView_def split: option.splits)
  then have v: "newViewNumber p = NewViewNumber m" by (simp add: NewViewNumber_def)
  have "checkChangeView cfg rcv (NewViewNumber m) ?c = Inr d"
    using assms(1) p m(4) free old by (force simp: onChangeView_def v split: option.splits if_splits)
  then show ?thesis
    by (rule checkChangeView_view[OF _ w]) (use assms(3) m(4) quorum in \<open>simp_all add: ctxM_def ctxF_def ctxN_def\<close>)
qed

end

lemma receiveN_view:
  assumes r: "OnReceive cfg m c = Inr d" and w: "wf cfg c" and "\<not> blockProcessed c"
    and m: "cmType m = ChangeViewType" "height m = BlockIndex c" "unat (validatorIndex m) < ctxN c" "body m \<noteq> NilPayload"
      "ViewNumber c < NewViewNumber m"
    and free: "\<not> CommitSent cfg c" "\<not> PreCommitSent cfg c"
    and old: "\<And>m'. slot (ChangeViewPayloads c) (unat (validatorIndex m)) = Some m' \<Longrightarrow> NewViewNumber m' \<le> NewViewNumber m"
    and quorum: "ctxM c \<le> countChangeViews (NewViewNumber m) ((ChangeViewPayloads c)[unat (validatorIndex m) := Some m])"
  shows "NewViewNumber m \<le> ViewNumber d"
proof -
  let ?e = "noteSeen m c"
  have e: "ChangeViewPayloads ?e = ChangeViewPayloads c" "BlockIndex ?e = BlockIndex c" "ViewNumber ?e = ViewNumber c"
    "blockProcessed ?e = blockProcessed c" "ctxN ?e = ctxN c" "ctxM ?e = ctxM c"
    "CommitSent cfg ?e = CommitSent cfg c" "PreCommitSent cfg ?e = PreCommitSent cfg c"
    by (auto simp: noteSeen_def ctxM_def ctxF_def ctxN_def CommitSent_def PreCommitSent_def WatchOnly_def)
  have "lsteps cfg c ?e" unfolding noteSeen_def by (auto intro!: silent_lsteps simp: sameCore_def)
  then have we: "wf cfg ?e" using w by (rule lsteps_wf)
  have "maxNesting = Suc 257" by (simp add: maxNesting_def)
  then have "OnReceive cfg = OnReceiveN cfg (Suc 257)" unfolding OnReceive_def by (rule arg_cong)
  then have "receive cfg (OnReceiveN cfg 257) m c = Inr d" using r by (metis OnReceiveN.simps(2))
  then have "onChangeView cfg (OnReceiveN cfg 257) m ?e = Inr d"
    using m assms(3) e(4) by (simp add: receive_def dispatch_def BlockSent_def ctxN_def Let_def)
  moreover have "receiver cfg (OnReceiveN cfg 257)" by unfold_locales (rule OnReceiveN_may)
  ultimately show ?thesis
    by (intro receiver.onChangeView_view[of cfg _ m ?e]) (use we assms(3) m free old quorum in \<open>simp_all add: e\<close>)
qed

subsection \<open>In the simulation\<close>

text \<open>Every message in a channel was broadcast by a validator at the height of the receiver.\<close>

lemma queued_message:
  assumes "(simStep (nodeConfig env fl keys))\<^sup>*\<^sup>* (simInit (length keys)) cl" and "inOrder fl keys"
    and "i < length keys" and "snState (cl ! i) = Some c" and "m \<in> set (snMessages (cl ! i))"
  shows "wellTyped m" "height m = BlockIndex c" "unat (validatorIndex m) < ctxN c"
proof -
  let ?pl = "nodePlace env fl keys"
  have honest: "allHonest (clusterSize fl keys) ?pl cl" by (rule cluster_honest[OF assms(1,2)])
  have size: "clusterSize fl keys = length keys" using assms(2) by (simp add: clusterSize_def)
  have i: "i < clusterSize fl keys" using assms(3) size by simp
  have place: "placed (?pl k) d" if "k < clusterSize fl keys" "snState (cl ! k) = Some d" for k d
    using allHonestD(2)[OF honest that] by (auto simp: hon_def honest_def tablesOk_def placed_def)
  have "m \<in> spokenBy UNIV cl" using allHonestD(1)[OF honest i] assms(5) by blast
  then obtain j d where j: "j < clusterSize fl keys" "snState (cl ! j) = Some d" "m \<in> spoken d"
    and nm: "named (?pl j) m" and gd: "good (plPrimary (?pl j)) (spokenBy UNIV cl) m"
    by (rule cluster.spoken_fact[OF honest]) blast
  show "wellTyped m" using gd by (simp add: good_def)
  note pc = place[OF i assms(4)] and pd = place[OF j(1,2)]
  have "node_ok (nodeConfig env fl keys j) (cl ! j)"
    using simSteps_ok[OF assms(1) cluster_ok_init] j(1) allHonest_length[OF honest] by (simp add: cluster_ok_def)
  then have d: "reachable (nodeConfig env fl keys j) d" "neverReset d" using j(2) by (simp_all add: node_ok_def)
  have "EBroadcast m \<in> set (log d)" using j(3) unfolding spoken_def spokenIn_def by simp
  then have "EBroadcast m \<in> set (heightLog (log d) @ [ECall (CallStart 0)])"
    unfolding d(2)[unfolded neverReset_def, symmetric] .
  then have "height m = BlockIndex d" using own.holds[OF d(1)] by (simp add: ownBroadcasts_def)
  then show "height m = BlockIndex c" using pc pd by (simp add: placed_def nodePlace_sel)
  have "plMe (?pl j) < int (length (Validators c))" using pc pd by (simp add: placed_def nodePlace_sel)
  then show "unat (validatorIndex m) < ctxN c" using nm by (auto simp: named_def ctxN_def nat_less_iff simp del: unat_eq_nat_uint)
qed

text \<open>
  C14. The simulation changes its view. Let the next message of a node be a ChangeView for a later
  view, with which M validators ask for that view or a later one, and let the node neither have
  committed itself nor have its block. Then the delivery returns, and it leaves the node at its
  height in that view or, if cached messages take it further, a later one.
\<close>

theorem simulation_changes_view:
  assumes "(simStep (nodeConfig env fl keys))\<^sup>*\<^sup>* (simInit (length keys)) cl" and "inOrder fl keys"
    and "i < length keys" and "snState (cl ! i) = Some c" and "snMessages (cl ! i) = m # ms"
    and "cmType m = ChangeViewType" and "ViewNumber c < NewViewNumber m"
    and "\<not> BlockSent c" and "\<not> CommitSent (nodeConfig env fl keys i) c"
    and "\<forall>m'. slot (ChangeViewPayloads c) (unat (validatorIndex m)) = Some m' \<longrightarrow> NewViewNumber m' \<le> NewViewNumber m"
    and "ctxM c \<le> countChangeViews (NewViewNumber m) ((ChangeViewPayloads c)[unat (validatorIndex m) := Some m])"
  shows "\<exists>cl' d. simEvent (nodeConfig env fl keys) (EvMessage i) cl = Some cl' \<and> snState (cl' ! i) = Some d
    \<and> NewViewNumber m \<le> ViewNumber d \<and> BlockIndex d = BlockIndex c"
proof -
  let ?cfg = "nodeConfig env fl keys i" and ?c = "c\<lparr>log := ECall (CallReceive m) # log c\<rparr>"
  have honest: "allHonest (clusterSize fl keys) (nodePlace env fl keys) cl" by (rule cluster_honest[OF assms(1,2)])
  have i: "i < clusterSize fl keys" and len: "length cl = length keys"
    using assms(2,3) allHonest_length[OF honest] by (simp_all add: clusterSize_def)
  have "node_ok ?cfg (cl ! i)"
    using simSteps_ok[OF assms(1) cluster_ok_init] i allHonest_length[OF honest] by (simp add: cluster_ok_def)
  then have w: "wf ?cfg c" using assms(4) by (simp add: node_ok_def reachable_wf)
  have q: "m \<in> set (snMessages (cl ! i))" using assms(5) by simp
  note msg = queued_message[OF assms(1-4) q]
  obtain d where d: "exec ?cfg (CallReceive m) c = Inr d"
    using returns_fuel[OF cluster.receive_returns[OF honest i assms(4) q] exec_fuel[OF w]] by blast
  have "tablesOk (placeIn cl i (nodePlace env fl keys i)) (said (placeIn cl i (nodePlace env fl keys i)) c) c"
    using allHonestD(2)[OF honest i assms(4)] by (simp add: hon_def honest_def)
  then have pre: "\<not> PreCommitSent ?cfg ?c" by (simp add: tablesOk_def PreCommitSent_def)
  have rec: "OnReceive ?cfg m ?c = Inr d" using d by (simp add: exec_def emit_def)
  have "lsteps ?cfg c ?c" by (rule emit_lsteps[of "ECall (CallReceive m)"]) (simp_all add: emit_def quietEffect_def)
  then have w': "wf ?cfg ?c" using w by (rule lsteps_wf)
  obtain p where p: "body m = ChangeViewMsg p" using wellTyped_getters(1)[OF msg(1) assms(6)] by blast
  have "NewViewNumber m \<le> ViewNumber d"
    by (rule receiveN_view[OF rec w'])
      (use assms(6-11) msg(2,3) p pre in \<open>simp_all add: BlockSent_def CommitSent_def WatchOnly_def ctxM_def ctxF_def ctxN_def\<close>)
  moreover have "BlockIndex d = BlockIndex c"
    using exec_may[OF d w] nsteps_frame(1)[of ?cfg c d] by (simp add: may_def)
  moreover have "simEvent (nodeConfig env fl keys) (EvMessage i) cl
      = Some (sendToOthers i (broadcastsOf c d) (cl[i := \<lparr>snState = Some d, snMessages = ms\<rparr>]))"
    using d assms(3-5) len by (simp add: finish_def)
  ultimately show ?thesis using assms(3) len by (simp add: sendToOthers_at)
qed

subsection \<open>A crashed primary\<close>

text \<open>
  Validator 1, the first primary, never starts. The others ask for recovery messages, see each other
  in them, and ask for view 1 at the next timeout.
\<close>

definition viewEvents :: "event list" where
  "viewEvents =
     [EvStart 0, EvStart 2, EvStart 3, EvTimeout 0, EvTimeout 2, EvTimeout 3]
     @ map EvMessage [0, 0, 2, 2, 3, 3] @ [EvTimeout 0, EvTimeout 2, EvTimeout 3] @ map EvMessage [0, 0, 0]"

abbreviation fourNodes :: "nat \<Rightarrow> (Tx64, neoBlock, preBlock, ECDSAPub, nat) config" where
  "fourNodes \<equiv> nodeConfig sampleEnvironment fourFlags fourKeys"

definition viewReady :: "(Tx64, neoBlock, preBlock, ECDSAPub, nat) simNode list option \<Rightarrow> bool" where
  "viewReady r =
     (case r of
        None \<Rightarrow> False
      | Some cl \<Rightarrow>
          (case snState (cl ! 0) of
             None \<Rightarrow> False
           | Some c \<Rightarrow>
               (case snMessages (cl ! 0) of
                  [] \<Rightarrow> False
                | m # ms \<Rightarrow>
                    cmType m = ChangeViewType \<and> ViewNumber c < NewViewNumber m \<and> NewViewNumber m = 1
                    \<and> \<not> BlockSent c \<and> \<not> CommitSent (fourNodes 0) c
                    \<and> slot (ChangeViewPayloads c) (unat (validatorIndex m)) = None
                    \<and> ctxM c \<le> countChangeViews (NewViewNumber m)
                          ((ChangeViewPayloads c)[unat (validatorIndex m) := Some m]))))"

text \<open>They go on to view 1, where validator 0 proposes, and accept the block without the crashed validator.\<close>

definition recoveryEvents :: "event list" where
  "recoveryEvents =
     map EvMessage ([0] @ replicate 5 2 @ replicate 5 3) @ [EvTimeout 0]
     @ map EvMessage [2, 3, 0, 0, 2, 3, 0, 0, 2, 2, 3, 3]"

definition recovered :: "(Tx64, neoBlock, preBlock, ECDSAPub, nat) simNode list option \<Rightarrow> bool" where
  "recovered r =
     (case r of
        None \<Rightarrow> False
      | Some cl \<Rightarrow>
          (case simRun fourNodes recoveryEvents cl of
             None \<Rightarrow> False
           | Some cl' \<Rightarrow> acceptedAt cl' 0 \<and> acceptedAt cl' 2 \<and> acceptedAt cl' 3 \<and> snState (cl' ! 1) = None))"

definition viewChecks :: "(Tx64, neoBlock, preBlock, ECDSAPub, nat) simNode list option \<Rightarrow> bool" where
  "viewChecks r \<longleftrightarrow> viewReady r \<and> recovered r"

lemma view_checks: "viewChecks (simRun fourNodes viewEvents (simInit 4))"
  by code_simp

lemma view_ready: "viewReady (simRun fourNodes viewEvents (simInit 4))"
  using view_checks by (simp add: viewChecks_def)

lemma crashed_primary_decides:
  "case simRun fourNodes (viewEvents @ recoveryEvents) (simInit 4) of
     None \<Rightarrow> False
   | Some cl \<Rightarrow> acceptedAt cl 0 \<and> acceptedAt cl 2 \<and> acceptedAt cl 3 \<and> snState (cl ! 1) = None"
proof -
  have "recovered (simRun fourNodes viewEvents (simInit 4))" using view_checks by (simp add: viewChecks_def)
  then show ?thesis unfolding simRun_append recovered_def by (simp split: option.split_asm)
qed

theorem simulation_changes_view_witness:
  "\<exists>cl cl' d. simRun fourNodes viewEvents (simInit 4) = Some cl \<and> simEvent fourNodes (EvMessage 0) cl = Some cl'
    \<and> snState (cl' ! 0) = Some d \<and> 1 \<le> ViewNumber d"
proof -
  obtain cl c m ms where cl: "simRun fourNodes viewEvents (simInit 4) = Some cl"
    and c: "snState (cl ! 0) = Some c" "snMessages (cl ! 0) = m # ms"
    and m: "cmType m = ChangeViewType" "ViewNumber c < NewViewNumber m" "NewViewNumber m = 1"
      "\<not> BlockSent c" "\<not> CommitSent (fourNodes 0) c" "slot (ChangeViewPayloads c) (unat (validatorIndex m)) = None"
      "ctxM c \<le> countChangeViews (NewViewNumber m) ((ChangeViewPayloads c)[unat (validatorIndex m) := Some m])"
    using view_ready unfolding viewReady_def by (auto split: option.split_asm list.split_asm)
  have four: "length fourKeys = 4" "0 < length fourKeys" by (simp_all add: fourKeys_def)
  have "(simStep fourNodes)\<^sup>*\<^sup>* (simInit (length fourKeys)) cl" using simRun_steps[OF cl] four(1) by simp
  from simulation_changes_view[OF this four_sample(1) four(2) c m(1,2,4,5) _ m(7)] show ?thesis
    using cl m(3,6) by auto
qed

end
