(* ===== verification/Spec2Isabelle.thy ===== *)
theory Spec2Isabelle
  imports Agreement Recursion Timer Handlers Divergences Proposal Cluster Liveness View_Change
begin

text \<open>
  A model of dBFT, the consensus library of nspcc-dev/dbft, of its reference instance under
  \<open>internal/\<close>, and their correctness.

  The program. A node is an instance of \<open>DBFT\<close> (\<open>dbft.go\<close>): the \<open>Context\<close> of the round
  (\<open>context.go\<close>), the callbacks of its \<open>Config\<close> (\<open>config.go\<close>), a cache of messages from the future
  (\<open>helpers.go\<close>) and round-trip estimates (\<open>rtt.go\<close>). The owner calls \<open>Start\<close>, \<open>Reset\<close>,
  \<open>OnReceive\<close>, \<open>OnTimeout\<close>, \<open>OnTransaction\<close> and \<open>OnNewTransaction\<close>; the node answers through the
  callbacks. In a view the primary proposes transactions (PrepareRequest), the others answer
  (PrepareResponse), and with M = N - F preparations a node sends its Commit, with the anti-MEV
  extension after a round of PreCommits; M Commits make the block. ChangeViews of M nodes start
  the next view, and recovery messages bring nodes up to date.

  Theories that model code, and the files they model:
  \<^item> \<open>Prelude\<close>: results that may stop (\<open>stop + 'a\<close>, one \<open>stop\<close> per panic or fatal exit of the
    code), sequencing, slices of optional payloads, signed 64-bit durations, byte order.
  \<^item> \<open>Payload\<close>: message types, bodies, getters and constructors (\<open>consensus_message_type.go\<close>,
    \<open>internal/consensus\<close>); \<open>Recovery_Message\<close>: \<open>recovery_message.go\<close>; \<open>Codec\<close>: every \<open>EncodeBinary\<close>
    and \<open>DecodeBinary\<close>, over streams of typed values instead of bytes.
  \<^item> \<open>Rtt\<close> (\<open>rtt.go\<close>) and \<open>Message_Cache\<close> (\<open>helpers.go\<close>).
  \<^item> \<open>Dbft_Context\<close> (state record \<open>dbft\<close>, callbacks \<open>config\<close>, the queries of \<open>context.go\<close>),
    \<open>Dbft_Round\<close> (\<open>reset\<close>, \<open>Fill\<close>, headers and blocks), \<open>Dbft_Send\<close> (\<open>send.go\<close>, \<open>check.go\<close>),
    \<open>Dbft_Core\<close> (the handlers and the interface of \<open>dbft.go\<close>, and \<open>reachable\<close>).
  \<^item> \<open>Config_Options\<close>: the options, \<open>checkConfig\<close> and \<open>New\<close>; \<open>Timer\<close>: \<open>timer/timer.go\<close>.
  \<^item> \<open>Crypto\<close>, \<open>Merkle\<close>, \<open>Blocks\<close>: \<open>internal/crypto\<close>, \<open>internal/merkle\<close> and the blocks of
    \<open>internal/consensus\<close>; \<open>Instance\<close>: \<open>consensus.go\<close>.
  \<^item> \<open>internal/simulation\<close>: \<open>Simulation\<close>, the memory pools, the channels and the cluster as a step
    relation (\<open>simStep\<close>); \<open>Runs\<close>, the same steps as a function (\<open>simEvent\<close>); \<open>Cluster\<close>, the flags and
    \<open>initSimNode\<close>, which give every node its callbacks (\<open>nodeConfig\<close>).
  Operations are functions from a state to \<open>stop + state\<close>. Everything a node does to the outside
  is an event of its \<open>log\<close>, newest first; what it reads from the outside (clock, pool, ledger,
  verifiers) is a function of that log, so the environment is an arbitrary strategy.

  Theories about the model:
  \<^item> \<open>Node_Step\<close>: the abstract protocol, a step relation (\<open>lstep\<close>, \<open>kstep\<close>, \<open>nstep\<close>), and the
    well-formedness \<open>wf\<close>; \<open>Send_Steps\<close> and \<open>Refinement\<close> show that every operation takes such steps
    only (locale \<open>receiver\<close>: what the handlers rely on of the recursive call, interpreted on
    \<open>OnReceive\<close>).
  \<^item> \<open>Node_Safety\<close>: invariants of a height (locale \<open>height_invariant\<close>, interpreted on each of them);
    \<open>Dbft_Fuel\<close>: the recursion of \<open>OnReceive\<close> ends (locale \<open>fuelled\<close>); \<open>Recursion\<close>: the nesting
    bound does not show in its results (locale \<open>deeper\<close>).
  \<^item> \<open>Quorum\<close> (locale \<open>quorum_system\<close>, interpreted on N, F and M of a context) and \<open>Agreement\<close>: what
    the invariants of the correct nodes give together.
  \<^item> \<open>Keeping\<close>: a small Hoare logic for predicates that the code keeps (locale \<open>indifferent\<close>);
    \<open>Proposal\<close>: the stored transactions belong to the proposal (locales \<open>tx_pool\<close>, \<open>proposing\<close>,
    interpreted on the pool of the simulation and on \<open>OnReceive\<close>).
  \<^item> \<open>Honest\<close>: what a node that runs the code keeps when all others run it too; \<open>Peer\<close> and
    \<open>Peer_Receive\<close>: every operation keeps it and returns (locale \<open>peer\<close>: what the code relies on of
    its callbacks; locale \<open>answering\<close>: of the recursive call, a sublocale gives it for \<open>OnReceive\<close>);
    \<open>Network\<close>: a cluster of such nodes keeps it and agrees (locale \<open>network\<close>). \<open>Cluster\<close> interprets
    \<open>peer\<close> and \<open>network\<close> on the nodes of the simulation: they agree on the header of their block, and
    no call of their event loops panics. In contrast to \<open>agreement\<close>, which bounds the Byzantine
    nodes and speaks of views, nothing is assumed of the messages there: they come from the run.
  \<^item> \<open>Progress\<close>: what a validator does while nothing goes wrong and no timer fires (locale \<open>lively\<close>,
    which extends \<open>network\<close> by what the callbacks must grant for that): it uses every message and
    misses no quorum. \<open>Decision\<close>: so the nodes of a whole height need boundedly many events, and a
    quorum of them ends with the block even if the others crash. \<open>Liveness\<close> interprets \<open>lively\<close> on the
    nodes of the simulation. \<open>View_Change\<close>: the ChangeView that completes a quorum moves a node on;
    a complete run there goes on to view 1 and decides after the first primary crashed.
  \<^item> \<open>Handlers\<close>: outcomes of single handlers; \<open>Divergences\<close>: runs in which the code leaves its own
    intention; \<open>Sample_Node\<close> and \<open>Sample_Runs\<close>: a concrete instance of the callbacks and complete
    runs, evaluated in the kernel, for the witnesses.
  The properties of the whole node are below; those of one component are in its theory.

  Bounds. \<open>OnReceive\<close> calls itself through the replay of cached messages, which only happens when
  the view grows, and through recovery messages, whose payloads are no recovery messages. Views
  have 8 bits, so \<open>maxNesting\<close> = 258 nested calls always suffice: \<open>calls_terminate\<close>. \<open>buildTree\<close> does
  not return on an empty list, which is \<open>None\<close>. A channel of the simulation holds 100 messages; a
  height without timeouts needs two per validator (\<open>simulation_decides\<close>). Integers are words of their width, durations are
  integers with the wrap-around of 64 bits written out.

  Not modelled: the mutex that \<open>DBFT\<close> embeds (the library never locks it); the logger, except
  \<open>Fatal\<close>, which ends the process (\<open>DPanic\<close> returns, as it does in production); the byte level of
  gob; SHA-256 and P-256, which are parameters; \<open>Parent\<close> pointers of Merkle trees; callbacks that
  are nil although the default sets them, or that call back into the node; interleaving inside a
  call (the simulation's steps are whole calls); pprof, logging, duration and signals of the
  simulation; generated names of reasons; the TLA+ specifications, which are no code. Not proved:
  liveness when timers fire or the first primary fails, which needs bounds on the delays of a real
  network.
\<close>

section \<open>Agreement\<close>


lemma plain_correctSet: "correctSet 4 {3} = {0, 1, 2}"
  by (auto simp: correctSet_def)


section \<open>The code implements the transition system\<close>

text \<open>
  C5. Refinement of the calls inside a height. \<open>OnTransaction\<close>, \<open>OnTimeout\<close>, \<open>OnNewTransaction\<close>
  and \<open>OnReceive\<close>, with everything they call, nested calls of \<open>OnReceive\<close> included, change a
  well-formed node only by steps of the abstract protocol.
\<close>

theorem call_refines_steps:
  assumes "wf cfg c" and "exec cfg a c = Inr d" and "\<not> isHeightCall a"
  shows "(nstep cfg)\<^sup>*\<^sup>* c d"
  using exec_may[OF assms(2,1,3)] by (simp add: may_def)

theorem call_refines_steps_witness: "(nstep (plain 0))\<^sup>*\<^sup>* lockedNode lockedAfter"
  by (rule call_refines_steps[OF reachable_wf[OF locked_reachable] locked_facts(5)]) simp

text \<open>
  C6. Refinement of \<open>Reset\<close>. It brings the node to a fresh, well-formed state of the next height,
  at view 0, without accepted block or PreBlock, from which replayed messages take steps of the
  abstract protocol.
\<close>

theorem reset_refines_steps:
  assumes "reachable cfg c" and "exec cfg (CallReset ts) c = Inr d"
  shows "\<exists>c1. reset cfg 0 ts (c\<lparr>log := ECall (CallReset ts) # log c\<rparr>) = Inr c1 \<and> wf cfg c1
    \<and> ViewNumber c1 = 0 \<and> \<not> blockProcessed c1 \<and> \<not> preBlockProcessed c1
    \<and> BlockIndex c1 = CurrentHeight cfg (ECall (CallReset ts) # log c) + 1
    \<and> (nstep cfg)\<^sup>*\<^sup>* c1 d"
proof -
  obtain c1 where r: "reset cfg 0 ts (c\<lparr>log := ECall (CallReset ts) # log c\<rparr>) = Inr c1"
    and "wf cfg c1" and "nsteps cfg c1 d"
    by (rule reset_call_steps[OF assms(2) wf_fields(11)[OF reachable_wf[OF assms(1)]]])
  then show ?thesis using reset_Ok(2)[OF r] reset_height_Ok[OF r] by auto
qed

theorem reset_refines_steps_witness:
  "\<exists>c1. reset (plain 0) 0 5 (plainNode 0\<lparr>log := ECall (CallReset 5) # log (plainNode 0)\<rparr>) = Inr c1
    \<and> wf (plain 0) c1 \<and> ViewNumber c1 = 0 \<and> \<not> blockProcessed c1 \<and> \<not> preBlockProcessed c1
    \<and> BlockIndex c1 = CurrentHeight (plain 0) (ECall (CallReset 5) # log (plainNode 0)) + 1
    \<and> (nstep (plain 0))\<^sup>*\<^sup>* c1 resetAfter"
  by (rule reset_refines_steps[OF plain_reachable reset_call]) simp

section \<open>Totality\<close>

text \<open>
  C7. The recursion of \<open>OnReceive\<close> terminates: in every reachable state every call of the
  interface returns or stops with one of Go's own failures, within the nesting bound.
\<close>

theorem calls_terminate:
  assumes "reachable cfg c"
  shows "exec cfg a c \<noteq> Inl OutOfFuel"
  using exec_fuel[OF reachable_wf[OF assms]] .

theorem calls_terminate_witness: "exec (plain 0) (CallReceive (cvFrom 3 1 0 1)) (plainNode 0) \<noteq> Inl OutOfFuel"
  by (rule calls_terminate[OF plain_reachable]) simp

section \<open>Invariants and safety of a node\<close>

text \<open>
  C8. Well-formedness. In every reachable state the payload tables have one slot per validator,
  every payload is filed under its sender, in the table of its type, for the current height and,
  for preparations, the current view; the node's index is in range, the primary's index is the
  one of the view; a header exists only with a proposal and, with the anti-MEV extension, a
  processed PreBlock; cached messages are filed under their height, class and sender.
\<close>

theorem reachable_well_formed:
  assumes "reachable cfg c"
  shows "wf cfg c"
  using assms by (rule reachable_wf)

theorem reachable_well_formed_witness: "wf (plain 0) (plainNode 0)"
  by (rule reachable_well_formed[OF plain_reachable]) simp

text \<open>
  C9. Inside a height the validators and the block index stay, the view never goes back, and an
  accepted block or PreBlock stays accepted.
\<close>

theorem height_monotone:
  assumes "reachable cfg c" and "exec cfg a c = Inr d" and "\<not> isHeightCall a"
  shows "BlockIndex d = BlockIndex c \<and> Validators d = Validators c \<and> ViewNumber c \<le> ViewNumber d
    \<and> (BlockSent c \<longrightarrow> BlockSent d) \<and> (preBlockProcessed c \<longrightarrow> preBlockProcessed d)"
  using nsteps_frame[of cfg c d] exec_may[OF assms(2) reachable_wf[OF assms(1)] assms(3)]
  by (simp add: may_def BlockSent_def)

theorem height_monotone_witness:
  "BlockIndex lockedAfter = BlockIndex lockedNode \<and> Validators lockedAfter = Validators lockedNode
    \<and> ViewNumber lockedNode \<le> ViewNumber lockedAfter"
  using height_monotone[OF locked_reachable locked_facts(5)] by simp

text \<open>
  C10. At most one block per height, with a quorum. Since the last \<open>Start\<close> or \<open>Reset\<close> the node got
  at most one block accepted by \<open>ProcessBlock\<close>; it got one exactly when \<open>BlockSent\<close>, and then
  \<open>M\<close> validators' Commits of the current view are stored.
\<close>

theorem one_block_per_height:
  assumes "reachable cfg c"
  shows "length (filter isAccepted (heightLog (log c))) = (if BlockSent c then 1 else 0)
    \<and> (BlockSent c \<longrightarrow>
         ctxM c \<le> card {i. \<exists>m. slot (CommitPayloads c) i = Some m \<and> viewNumber m = ViewNumber c})"
  using accepted.holds[OF assms]
  by (simp add: acceptedOnce_def BlockSent_def countView_def length_present_card)

theorem one_block_per_height_witness:
  "length (filter isAccepted (heightLog (log (plainNode 1)))) = 1
    \<and> ctxM (plainNode 1) \<le> card {i. \<exists>m. slot (CommitPayloads (plainNode 1)) i = Some m
                                   \<and> viewNumber m = ViewNumber (plainNode 1)}"
proof -
  have "BlockSent (plainNode 1)" by (simp add: BlockSent_def plain_fact)
  then show ?thesis using one_block_per_height[OF plain_reachable, of 1] by simp
qed

text \<open>
  C11. No equivocation. Without the anti-MEV extension a node broadcasts, at a height, the same
  Commit whenever it broadcasts one, whatever the views it goes through, and it is the one it
  keeps in its own slot.
\<close>

theorem single_commit:
  assumes "reachable cfg c" and "\<not> isAntiMEVExtensionEnabled cfg c"
    and "EBroadcast m \<in> set (heightLog (log c))" and "EBroadcast m' \<in> set (heightLog (log c))"
    and "cmType m = CommitType" and "cmType m' = CommitType"
  shows "m = m' \<and> slot (CommitPayloads c) (nat (MyIndex c)) = Some m"
  using sole_commit[OF assms] sole.holds[OF assms(1)] assms(2,3,5) by (auto simp: soleCommit_def)

theorem single_commit_witness:
  "com 0 = com 0 \<and> slot (CommitPayloads (plainNode 0)) (nat (MyIndex (plainNode 0))) = Some (com 0)"
  by (rule single_commit[OF plain_reachable, of 0]) (simp_all add: plain_fact com_type)



text \<open>
  C13. View changes are justified. A node that is not in view 0 keeps ChangeView payloads of \<open>M\<close>
  distinct validators, each asking for the node's view or a later one.
\<close>

theorem view_change_quorum:
  assumes "reachable cfg c" and "ViewNumber c \<noteq> 0"
  shows "ctxM c \<le> card {i. \<exists>m. slot (LastChangeViewPayloads c) i = Some m
                                  \<and> ViewNumber c \<le> NewViewNumber m}"
  using justified.holds[OF assms(1)] assms(2)
  by (simp add: viewJustified_def countChangeViews_def length_present_card)

theorem view_change_quorum_witness:
  "ctxM viewNode \<le> card {i. \<exists>m. slot (LastChangeViewPayloads viewNode) i = Some m
                                    \<and> ViewNumber viewNode \<le> NewViewNumber m}"
  by (rule view_change_quorum[OF view_reachable]) (simp add: view_facts)

text \<open>
  C15. The PreBlock comes first. With the anti-MEV extension every block handed to \<open>ProcessBlock\<close>
  at a height comes after a PreBlock that \<open>ProcessPreBlock\<close> accepted at the height.
\<close>

theorem preblock_before_block:
  assumes "reachable cfg c" and "isAntiMEVExtensionEnabled cfg c"
    and "heightLog (log c) = later @ EProcessBlock b ok # earlier"
  shows "\<exists>pb. EProcessPreBlock pb True \<in> set earlier"
proof -
  have "preBlockFirst (later @ EProcessBlock b ok # earlier)"
    using preFirst.holds[OF assms(1)] assms(2,3) by (simp add: preBlockOrder_def)
  then show ?thesis by (rule preBlockFirst_split)
qed

theorem preblock_before_block_witness:
  "\<exists>pb. EProcessPreBlock pb True \<in> set (tl (heightLog (log amevNode)))"
proof -
  have "heightLog (log amevNode) = [] @ EProcessBlock (99, 0, [10]) True # tl (heightLog (log amevNode))"
    using amev_facts(5) by (metis append_Nil list.collapse)
  then show ?thesis by (rule preblock_before_block[OF amev_reachable amev_facts(2)])
qed

text \<open>
  C16. Broadcasts are the node's own. Everything a node broadcasts during a height carries its
  own validator index and the height; a node that is no validator broadcasts nothing.
\<close>

theorem own_broadcasts:
  assumes "reachable cfg c" and "EBroadcast m \<in> set (heightLog (log c))"
  shows "0 \<le> MyIndex c \<and> validatorIndex m = word_of_int (MyIndex c) \<and> height m = BlockIndex c"
  using own.holds[OF assms(1)] assms(2) by (simp add: ownBroadcasts_def)

theorem own_broadcasts_witness:
  "0 \<le> MyIndex (plainNode 1) \<and> validatorIndex (com 1) = word_of_int (MyIndex (plainNode 1))
    \<and> height (com 1) = BlockIndex (plainNode 1)"
  by (rule own_broadcasts[OF plain_reachable]) (simp_all add: plain_fact)

section \<open>Quorums and primaries\<close>

text \<open>
  Quorum intersection. With \<open>N\<close> validators, two sets of \<open>M\<close> validators share more than \<open>F\<close>
  of them, and the validators without any \<open>F\<close> faulty ones still make a quorum.
\<close>

theorem quorums_intersect:
  assumes "0 < ctxN c"
  shows "(\<forall>P Q. P \<subseteq> {..<ctxN c} \<and> Q \<subseteq> {..<ctxN c} \<and> ctxM c \<le> card P \<and> ctxM c \<le> card Q
              \<longrightarrow> ctxF c < card (P \<inter> Q))
    \<and> (\<forall>B. B \<subseteq> {..<ctxN c} \<and> card B \<le> ctxF c \<longrightarrow> ctxM c \<le> card ({..<ctxN c} - B))"
  using ctx.intersection[OF assms] ctx.correct_quorum by (auto simp: isQuorum_def)

theorem quorums_intersect_witness:
  "ctxF viewNode < card ({0, 1, 2} \<inter> {1, 2, 3 :: nat})
    \<and> ctxM viewNode \<le> card ({..<ctxN viewNode} - {0})"
proof -
  have n: "ctxN viewNode = 4" and f: "ctxF viewNode = 1" and m: "ctxM viewNode = 3"
    using view_facts(4) by (simp_all add: ctxN_def ctxF_def ctxM_def)
  have A: "P \<subseteq> {..<4} \<Longrightarrow> Q \<subseteq> {..<4} \<Longrightarrow> 3 \<le> card P \<Longrightarrow> 3 \<le> card Q
      \<Longrightarrow> ctxF viewNode < card (P \<inter> Q)" for P Q :: "nat set"
    using quorums_intersect[of viewNode] n m by (metis zero_less_numeral)
  have "ctxF viewNode < card ({0, 1, 2} \<inter> {1, 2, 3 :: nat})"
    by (rule A) auto
  moreover have "ctxM viewNode \<le> card ({..<ctxN viewNode} - {0})"
    using n m by simp
  ultimately show ?thesis ..
qed

text \<open>
  The primary rotates. \<open>GetPrimaryIndex\<close> is in range, and over as many consecutive views as
  there are validators it visits each of them exactly once.
\<close>

theorem primary_rotates:
  assumes "0 < ctxN c" and "ctxN c \<le> 256"
  shows "bij_betw (\<lambda>v. GetPrimaryIndex c (of_nat v)) {..<ctxN c} {..<ctxN c}"
  using view_rotation[OF assms, of "BlockIndex c"] by (simp add: GetPrimaryIndex_eq[OF assms(1)])

theorem primary_rotates_witness:
  "bij_betw (\<lambda>v. GetPrimaryIndex viewNode (of_nat v)) {..<ctxN viewNode} {..<ctxN viewNode}"
  by (rule primary_rotates) (simp_all add: view_facts)

end
